(* ===== verification/Ordered_Map.thy ===== *)
theory Ordered_Map
  imports Prelude
begin

text \<open>
  \<open>std::map\<close> as an association list kept strictly sorted by key: the objects of
  nlohmann::json (\<open>object_t\<close>) and the three registries of the server are such maps, and
  their iteration order (which \<open>tools/list\<close> and the serializer expose) is the list
  order. \<open>om_put\<close> is \<open>m[k] = v\<close>, \<open>om_emplace\<close> is \<open>m.emplace(k, v)\<close>, lookup
  is \<open>map_of\<close>.
\<close>

type_synonym ('k, 'v) omap = "('k \<times> 'v) list"

definition om_wf :: "('k::linorder, 'v) omap \<Rightarrow> bool" where
  "om_wf m \<longleftrightarrow> sorted_wrt (<) (map fst m)"

fun om_put :: "'k::linorder \<Rightarrow> 'v \<Rightarrow> ('k, 'v) omap \<Rightarrow> ('k, 'v) omap" where
  "om_put k v [] = [(k, v)]"
| "om_put k v ((a, b) # m) =
     (if k < a then (k, v) # (a, b) # m
      else if k = a then (k, v) # m
      else (a, b) # om_put k v m)"

definition om_emplace :: "'k::linorder \<Rightarrow> 'v \<Rightarrow> ('k, 'v) omap \<Rightarrow> ('k, 'v) omap" where
  "om_emplace k v m = (if map_of m k = None then om_put k v m else m)"

definition om_contains :: "('k::linorder, 'v) omap \<Rightarrow> 'k \<Rightarrow> bool" where
  "om_contains m k \<longleftrightarrow> map_of m k \<noteq> None"

lemma om_wf_Nil [simp]: "om_wf []"
  by (simp add: om_wf_def)

lemma om_wf_Cons: "om_wf ((k, v) # m) \<longleftrightarrow> (\<forall>a \<in> fst ` set m. k < a) \<and> om_wf m"
  by (auto simp: om_wf_def)

lemma map_of_om_put [simp]: "map_of (om_put k v m) = (map_of m)(k \<mapsto> v)"
  by (induction k v m rule: om_put.induct) (auto simp: fun_eq_iff)

lemma fst_set_om_put [simp]: "fst ` set (om_put k v m) = insert k (fst ` set m)"
  by (induction k v m rule: om_put.induct) auto

lemma set_om_put_subset: "set (om_put k v m) \<subseteq> insert (k, v) (set m)"
  by (induction k v m rule: om_put.induct) auto

lemma in_set_om_put: "x \<in> set (om_put k v m) \<Longrightarrow> x = (k, v) \<or> x \<in> set m"
  using set_om_put_subset by fastforce

lemma om_wf_put [simp]: "om_wf m \<Longrightarrow> om_wf (om_put k v m)"
  by (induction k v m rule: om_put.induct) (auto simp: om_wf_Cons)

lemma map_of_om_emplace:
  "map_of (om_emplace k v m) a = (if a = k \<and> map_of m k = None then Some v else map_of m a)"
  by (simp add: om_emplace_def)

lemma om_wf_emplace [simp]: "om_wf m \<Longrightarrow> om_wf (om_emplace k v m)"
  by (simp add: om_emplace_def)

lemma om_wf_distinct: "om_wf m \<Longrightarrow> distinct (map fst m)"
  by (induction m) (force simp: om_wf_Cons)+

lemma om_put_greater: "\<forall>a \<in> fst ` set m. a < k \<Longrightarrow> om_put k v m = m @ [(k, v)]"
  by (induction k v m rule: om_put.induct) (auto dest: order.asym)

text \<open>Two sorted maps with the same lookups are the same list.\<close>

lemma om_wf_map_of_iff: "om_wf m \<Longrightarrow> map_of m k = Some v \<longleftrightarrow> (k, v) \<in> set m"
  by (simp add: om_wf_distinct)

lemma om_ext:
  assumes wf: "om_wf m" "om_wf m'" and eq: "map_of m = map_of m'"
  shows "m = m'"
proof -
  have "x \<in> set m \<longleftrightarrow> x \<in> set m'" for x
    using om_wf_map_of_iff [OF wf(1), of "fst x" "snd x"]
      om_wf_map_of_iff [OF wf(2), of "fst x" "snd x"] eq by simp
  then have sets: "set m = set m'" by blast
  have "sorted (map fst m)" "sorted (map fst m')"
    using wf by (simp_all add: om_wf_def strict_sorted_iff)
  moreover have "inj_on fst (set m \<union> set m')"
    using sets om_wf_distinct [OF wf(1)] by (simp add: distinct_map)
  moreover have "distinct m" "distinct m'"
    using wf [THEN om_wf_distinct] by (simp_all add: distinct_map)
  ultimately show ?thesis
    by (intro map_sorted_distinct_set_unique [of fst m m'])
       (simp_all add: sets distinct_map wf [THEN om_wf_distinct])
qed

text \<open>Building a sorted map by appending ever larger keys.\<close>

lemma om_wf_append:
  "om_wf (m @ m') \<longleftrightarrow> om_wf m \<and> om_wf m' \<and> (\<forall>a \<in> fst ` set m. \<forall>b \<in> fst ` set m'. a < b)"
  by (auto simp: om_wf_def sorted_wrt_append)

subsection \<open>The contract of a keyed store\<close>

locale keyed_store =
  fixes empty :: "'m" and look :: "'m \<Rightarrow> 'k \<Rightarrow> 'v option"
    and put :: "'k \<Rightarrow> 'v \<Rightarrow> 'm \<Rightarrow> 'm" and invar :: "'m \<Rightarrow> bool"
  assumes look_empty: "look empty k = None"
    and look_put: "look (put k v m) = (look m)(k \<mapsto> v)"
    and invar_empty: "invar empty"
    and invar_put: "invar m \<Longrightarrow> invar (put k v m)"
begin

lemma look_put_same: "look (put k v m) k = Some v"
  by (simp add: look_put)

lemma look_put_other: "k \<noteq> k' \<Longrightarrow> look (put k v m) k' = look m k'"
  by (simp add: look_put)

lemma look_put_dom: "dom (look (put k v m)) = insert k (dom (look m))"
  by (simp add: look_put)

lemma look_fold_put:
  "look (fold (\<lambda>(k, v). put k v) kvs m) = look m ++ map_of (rev kvs)"
  by (induction kvs arbitrary: m) (auto simp: look_put fun_eq_iff map_add_def split: option.splits)

lemma invar_fold_put: "invar m \<Longrightarrow> invar (fold (\<lambda>(k, v). put k v) kvs m)"
  by (induction kvs arbitrary: m) (auto intro: invar_put)

end

interpretation om: keyed_store "[]" map_of om_put om_wf
  by unfold_locales simp_all

end
