(* ===== verification/Json.thy ===== *)
theory Json
  imports Ordered_Map
begin

text \<open>
  The value type of nlohmann::json 3.11.3 (include/nlohmann/json.hpp) and the accessors the
  library uses on it: one constructor per \<open>value_t\<close>, objects as ordered maps, the two
  64-bit integer kinds as words, a double as its 64-bit pattern. Accessors that throw
  return \<open>Inl\<close> of the exception (its class and its numeric id).
\<close>

datatype json_exc =
    Parse_error nat
  | Type_error nat
  | Out_of_range nat
  | Undefined_behaviour

datatype json =
    JNull
  | JObj "(string \<times> json) list"
  | JArr "json list"
  | JStr string
  | JBool bool
  | JInt "64 word"
  | JUInt "64 word"
  | JFloat "64 word"
  | JBin "8 word list" "64 word option"
  | JDiscarded

subsection \<open>Type predicates\<close>

fun is_object :: "json \<Rightarrow> bool" where
  "is_object (JObj _) = True"
| "is_object _ = False"

fun is_array :: "json \<Rightarrow> bool" where
  "is_array (JArr _) = True"
| "is_array _ = False"

fun is_string :: "json \<Rightarrow> bool" where
  "is_string (JStr _) = True"
| "is_string _ = False"

fun is_null :: "json \<Rightarrow> bool" where
  "is_null JNull = True"
| "is_null _ = False"

fun is_number_unsigned :: "json \<Rightarrow> bool" where
  "is_number_unsigned (JUInt _) = True"
| "is_number_unsigned _ = False"

fun is_number_integer :: "json \<Rightarrow> bool" where
  "is_number_integer (JInt _) = True"
| "is_number_integer (JUInt _) = True"
| "is_number_integer _ = False"

fun is_number_float :: "json \<Rightarrow> bool" where
  "is_number_float (JFloat _) = True"
| "is_number_float _ = False"

fun is_binary :: "json \<Rightarrow> bool" where
  "is_binary (JBin _ _) = True"
| "is_binary _ = False"

fun is_discarded :: "json \<Rightarrow> bool" where
  "is_discarded JDiscarded = True"
| "is_discarded _ = False"

definition is_structured :: "json \<Rightarrow> bool" where
  "is_structured j \<longleftrightarrow> is_array j \<or> is_object j"

subsection \<open>Element access\<close>

fun json_contains :: "json \<Rightarrow> string \<Rightarrow> bool" where
  "json_contains (JObj m) k = om_contains m k"
| "json_contains _ k = False"

fun json_at :: "json \<Rightarrow> string \<Rightarrow> json_exc + json" where
  "json_at (JObj m) k = (case map_of m k of None \<Rightarrow> Inl (Out_of_range 403) | Some v \<Rightarrow> Inr v)"
| "json_at _ k = Inl (Type_error 304)"

text \<open>
  The const \<open>operator[]\<close> asserts that the key exists: without it the behaviour is
  undefined.
\<close>

fun json_index :: "json \<Rightarrow> string \<Rightarrow> json_exc + json" where
  "json_index (JObj m) k = (case map_of m k of None \<Rightarrow> Inl Undefined_behaviour | Some v \<Rightarrow> Inr v)"
| "json_index _ k = Inl (Type_error 305)"

text \<open>\<open>j[k] = v\<close>: a null value becomes an object first.\<close>

fun json_set :: "json \<Rightarrow> string \<Rightarrow> json \<Rightarrow> json_exc + json" where
  "json_set (JObj m) k v = Inr (JObj (om_put k v m))"
| "json_set JNull k v = Inr (JObj [(k, v)])"
| "json_set _ k v = Inl (Type_error 305)"

text \<open>An initializer list of key/value pairs; \<open>emplace\<close> keeps the first of equal keys.\<close>

definition json_object :: "(string \<times> json) list \<Rightarrow> json" where
  "json_object kvs = JObj (fold (\<lambda>(k, v) m. om_emplace k v m) kvs [])"

subsection \<open>Conversions\<close>

fun get_string :: "json \<Rightarrow> json_exc + string" where
  "get_string (JStr s) = Inr s"
| "get_string _ = Inl (Type_error 302)"

fun get_bool :: "json \<Rightarrow> json_exc + bool" where
  "get_bool (JBool b) = Inr b"
| "get_bool _ = Inl (Type_error 302)"

text \<open>\<open>j.value(key, default)\<close>, with the conversion of the value type as an argument.\<close>

fun json_value :: "(json \<Rightarrow> json_exc + 'a) \<Rightarrow> json \<Rightarrow> string \<Rightarrow> 'a \<Rightarrow> json_exc + 'a" where
  "json_value conv (JObj m) k d = (case map_of m k of None \<Rightarrow> Inr d | Some v \<Rightarrow> conv v)"
| "json_value conv _ k d = Inl (Type_error 306)"

text \<open>
  IEEE-754 binary64 by its bit pattern: sign (bit 63), biased exponent (11 bits), fraction
  (52 bits).
\<close>

definition f64_negative :: "64 word \<Rightarrow> bool" where
  "f64_negative w \<longleftrightarrow> 2 ^ 63 \<le> uint w"

definition f64_exponent :: "64 word \<Rightarrow> int" where
  "f64_exponent w = (uint w div 2 ^ 52) mod 2 ^ 11"

definition f64_fraction :: "64 word \<Rightarrow> int" where
  "f64_fraction w = uint w mod 2 ^ 52"

definition f64_isfinite :: "64 word \<Rightarrow> bool" where
  "f64_isfinite w \<longleftrightarrow> f64_exponent w \<noteq> 2047"

text \<open>Truncation towards zero of a finite double, as the conversion to an integer type does.\<close>

definition f64_trunc :: "64 word \<Rightarrow> int" where
  "f64_trunc w =
     (let e = f64_exponent w;
          m = (if e = 0 then f64_fraction w else 2 ^ 52 + f64_fraction w);
          x = (if e = 0 then -1074 else e - 1075);
          v = (if 0 \<le> x then m * 2 ^ nat x else m div 2 ^ nat (- x))
      in if f64_negative w then - v else v)"

text \<open>
  \<open>get_to(int)\<close>: integers are narrowed modulo $2^{32}$, booleans read as 0 and 1, a
  double is truncated, which is undefined outside the range of \<open>int\<close>.
\<close>

fun get_int32 :: "json \<Rightarrow> json_exc + 32 word" where
  "get_int32 (JUInt w) = Inr (ucast w)"
| "get_int32 (JInt w) = Inr (ucast w)"
| "get_int32 (JFloat w) =
     (if f64_isfinite w \<and> - (2 ^ 31) \<le> f64_trunc w \<and> f64_trunc w < 2 ^ 31
      then Inr (word_of_int (f64_trunc w)) else Inl Undefined_behaviour)"
| "get_int32 (JBool b) = Inr (if b then 1 else 0)"
| "get_int32 _ = Inl (Type_error 302)"

subsection \<open>Well-formed values\<close>

text \<open>Every object of a value, at any depth, is a sorted map without duplicate keys.\<close>

fun json_wf :: "json \<Rightarrow> bool" where
  "json_wf (JObj m) = (om_wf m \<and> (\<forall>kv \<in> set m. json_wf (snd kv)))"
| "json_wf (JArr xs) = (\<forall>x \<in> set xs. json_wf x)"
| "json_wf _ = True"

lemma is_object_iff: "is_object j \<longleftrightarrow> (\<exists>m. j = JObj m)"
  by (cases j) auto

lemma is_string_iff: "is_string j \<longleftrightarrow> (\<exists>s. j = JStr s)"
  by (cases j) auto

lemma is_array_iff: "is_array j \<longleftrightarrow> (\<exists>xs. j = JArr xs)"
  by (cases j) auto

lemma is_number_integer_iff: "is_number_integer j \<longleftrightarrow> (\<exists>w. j = JInt w) \<or> (\<exists>w. j = JUInt w)"
  by (cases j) auto

lemma json_contains_iff: "json_contains j k \<longleftrightarrow> (\<exists>v. json_at j k = Inr v)"
  by (cases j) (auto simp: om_contains_def split: option.splits)

lemma json_contains_is_object: "json_contains j k \<Longrightarrow> is_object j"
  by (cases j) auto

text \<open>After the \<open>contains\<close> check that guards it everywhere, const indexing is defined.\<close>

lemma json_index_contains: "json_contains j k \<Longrightarrow> json_index j k = json_at j k"
  by (cases j) (auto simp: om_contains_def split: option.splits)

lemma json_set_object: "is_object j \<Longrightarrow> \<exists>m. json_set j k v = Inr (JObj m)"
  by (cases j) auto

lemma json_at_set:
  "json_set j k v = Inr j' \<Longrightarrow> json_at j' k' = (if k' = k then Inr v else if is_null j then Inl (Out_of_range 403) else json_at j k')"
  by (cases j) (auto split: option.splits if_splits)

lemma json_contains_set:
  "json_set j k v = Inr j' \<Longrightarrow> json_contains j' k' \<longleftrightarrow> k' = k \<or> json_contains j k'"
  by (cases j) (auto simp: om_contains_def split: if_splits)

lemma fold_emplace_wf: "om_wf m \<Longrightarrow> om_wf (fold (\<lambda>(k, v) m. om_emplace k v m) kvs m)"
  by (induction kvs arbitrary: m) auto

lemma fold_emplace_set:
  "set (fold (\<lambda>(k, v) m. om_emplace k v m) kvs m) \<subseteq> set m \<union> set kvs"
proof (induction kvs arbitrary: m)
  case (Cons kv kvs)
  obtain k v where kv: "kv = (k, v)" by force
  have "set (om_emplace k v m) \<subseteq> insert (k, v) (set m)"
    by (auto simp: om_emplace_def dest: in_set_om_put)
  then show ?case using Cons.IH [of "om_emplace k v m"] by (auto simp: kv)
qed simp

lemma fold_emplace_map_of:
  "map_of (fold (\<lambda>(k, v) m. om_emplace k v m) kvs m) k =
     (case map_of m k of Some v \<Rightarrow> Some v | None \<Rightarrow> map_of kvs k)"
  by (induction kvs arbitrary: m) (auto simp: map_of_om_emplace split: option.splits if_splits)

lemma json_wf_object: "(\<And>kv. kv \<in> set kvs \<Longrightarrow> json_wf (snd kv)) \<Longrightarrow> json_wf (json_object kvs)"
  using fold_emplace_set [of kvs "[]"] by (auto simp: json_object_def fold_emplace_wf)

lemma json_at_object [simp]:
  "json_at (json_object kvs) k = (case map_of kvs k of None \<Rightarrow> Inl (Out_of_range 403) | Some v \<Rightarrow> Inr v)"
  by (simp add: json_object_def fold_emplace_map_of)

lemma json_contains_object [simp]: "json_contains (json_object kvs) k \<longleftrightarrow> map_of kvs k \<noteq> None"
  by (simp add: json_object_def om_contains_def fold_emplace_map_of)

lemma is_object_json_object [simp]: "is_object (json_object kvs)"
  by (simp add: json_object_def)

lemma json_wf_set: "json_set j k v = Inr j' \<Longrightarrow> json_wf j \<Longrightarrow> json_wf v \<Longrightarrow> json_wf j'"
  by (cases j) (auto simp: om_wf_Cons dest!: in_set_om_put)

lemma json_wf_at: "json_at j k = Inr v \<Longrightarrow> json_wf j \<Longrightarrow> json_wf v"
  by (cases j) (auto split: option.splits dest!: map_of_SomeD)

end
