(* ===== verification/Protocol.thy ===== *)
theory Protocol
  imports Json
begin

text \<open>
  The JSON-RPC and MCP data types of include/synapse/protocol.hpp, the error and handler
  types of errors.hpp and handlers.hpp, and the \<open>to_json\<close> / \<open>from_json\<close> functions.
  A decoder returns \<open>Inl\<close> of the exception it throws. Each codec satisfies the
  contract \<open>wire_codec\<close>: decoding what was encoded gives the value back.
\<close>

subsection \<open>Data\<close>

datatype error_code = parse_error | invalid_request | method_not_found | invalid_params | internal_error

definition error_code_num :: "error_code \<Rightarrow> 32 word" where
  "error_code_num c =
     (case c of parse_error \<Rightarrow> - 32700 | invalid_request \<Rightarrow> - 32600 | method_not_found \<Rightarrow> - 32601
      | invalid_params \<Rightarrow> - 32602 | internal_error \<Rightarrow> - 32603)"

record rpc_error =
  err_code :: "32 word"
  err_message :: string
  err_data :: "json option"

datatype json_rpc_id = Id_string string | Id_int64 "64 word" | Id_uint64 "64 word" | Id_null

record message =
  msg_jsonrpc :: string

record request = message +
  req_id :: json_rpc_id
  req_method :: string
  req_params :: "json option"

record notification = message +
  note_method :: string
  note_params :: "json option"

record response = message +
  resp_id :: json_rpc_id
  resp_result :: "json option"
  resp_err :: "rpc_error option"

datatype incoming_message = In_request request | In_notification notification | In_response response

record tool =
  tool_name :: string
  tool_description :: string
  tool_schema :: json

record mcp_resource =
  res_uri :: string
  res_name :: string
  res_description :: string
  res_mime :: "string option"

record prompt_argument =
  arg_name :: string
  arg_description :: string
  arg_required :: bool

record mcp_prompt =
  prompt_name :: string
  prompt_description :: string
  prompt_arguments :: "prompt_argument list"

datatype sdk_errc = invalid_state | invalid_schema | io_error | unsupported_stdio | resource_exhausted

record sdk_error =
  sdk_code :: sdk_errc
  sdk_message :: string

record handler_error =
  public_message :: string

record tool_result =
  tool_text :: string

record resource_result =
  resource_text :: string

datatype prompt_role = role_user | role_assistant | role_other "32 word"

record prompt_message =
  pm_role :: prompt_role
  pm_text :: string

record prompt_result =
  pr_messages :: "prompt_message list"
  pr_description :: "string option"

text \<open>
  \<open>prompt_role\<close> is a scoped enumeration with underlying type \<open>int\<close>: a handler can
  produce a value outside its two enumerators (\<open>role_other\<close>), and the server checks for
  it.
\<close>

subsection \<open>Assignment to a member\<close>

text \<open>
  \<open>j[k] = v\<close> where \<open>j\<close> was built as an object just before: no exception is
  possible there.
\<close>

fun json_put :: "string \<Rightarrow> json \<Rightarrow> json \<Rightarrow> json" where
  "json_put k v (JObj m) = JObj (om_put k v m)"
| "json_put k v JNull = JObj [(k, v)]"
| "json_put k v j = j"

lemma json_put_set: "is_object j \<or> is_null j \<Longrightarrow> json_set j k v = Inr (json_put k v j)"
  by (cases j) auto

lemma json_at_put [simp]:
  "is_object j \<Longrightarrow> json_at (json_put k v j) k' = (if k' = k then Inr v else json_at j k')"
  by (cases j) auto

lemma json_contains_put [simp]:
  "is_object j \<Longrightarrow> json_contains (json_put k v j) k' \<longleftrightarrow> k' = k \<or> json_contains j k'"
  by (cases j) (auto simp: om_contains_def)

lemma is_object_put [simp]: "is_object j \<Longrightarrow> is_object (json_put k v j)"
  by (cases j) auto

lemma json_wf_put: "is_object j \<Longrightarrow> json_wf j \<Longrightarrow> json_wf v \<Longrightarrow> json_wf (json_put k v j)"
  by (cases j) (auto dest!: in_set_om_put)

lemma json_value_object:
  "is_object j \<Longrightarrow> json_value conv j k d = (if json_contains j k then rbind (json_at j k) conv else Inr d)"
  by (cases j) (auto simp: om_contains_def split: option.splits)

text \<open>An optional member: present or absent as the \<open>std::optional\<close> is.\<close>

definition json_put_opt :: "string \<Rightarrow> json option \<Rightarrow> json \<Rightarrow> json" where
  "json_put_opt k v j = (case v of None \<Rightarrow> j | Some x \<Rightarrow> json_put k x j)"

definition json_get_opt :: "json \<Rightarrow> string \<Rightarrow> json_exc + json option" where
  "json_get_opt j k = (if json_contains j k then rbind (json_at j k) (\<lambda>v. Inr (Some v)) else Inr None)"

lemma json_at_put_opt [simp]:
  "is_object j \<Longrightarrow> json_at (json_put_opt k v j) k' =
     (if k' = k \<and> v \<noteq> None then Inr (the v) else json_at j k')"
  by (auto simp: json_put_opt_def split: option.splits)

lemma json_contains_put_opt [simp]:
  "is_object j \<Longrightarrow> json_contains (json_put_opt k v j) k' \<longleftrightarrow> k' = k \<and> v \<noteq> None \<or> json_contains j k'"
  by (auto simp: json_put_opt_def split: option.splits)

lemma is_object_put_opt [simp]: "is_object j \<Longrightarrow> is_object (json_put_opt k v j)"
  by (auto simp: json_put_opt_def split: option.splits)

lemma json_wf_put_opt:
  "is_object j \<Longrightarrow> json_wf j \<Longrightarrow> pred_option json_wf v \<Longrightarrow> json_wf (json_put_opt k v j)"
  by (auto simp: json_put_opt_def json_wf_put split: option.splits)

subsection \<open>Errors\<close>

definition error_to_json :: "rpc_error \<Rightarrow> json" where
  "error_to_json e =
     json_put_opt ''data'' (err_data e)
       (json_object [(''code'', JInt (scast (err_code e))), (''message'', JStr (err_message e))])"

definition error_from_json :: "json \<Rightarrow> json_exc + rpc_error" where
  "error_from_json j =
     rbind (rbind (json_at j ''code'') get_int32) (\<lambda>code.
     rbind (rbind (json_at j ''message'') get_string) (\<lambda>msg.
     rbind (json_get_opt j ''data'') (\<lambda>d.
     Inr \<lparr>err_code = code, err_message = msg, err_data = d\<rparr>)))"

subsection \<open>Request ids\<close>

definition read_json_rpc_id :: "json \<Rightarrow> json_rpc_id" where
  "read_json_rpc_id v =
     (case v of JUInt w \<Rightarrow> Id_uint64 w | JInt w \<Rightarrow> Id_int64 w | JStr s \<Rightarrow> Id_string s | _ \<Rightarrow> Id_null)"

definition id_to_json :: "json_rpc_id \<Rightarrow> json" where
  "id_to_json i =
     (case i of Id_string s \<Rightarrow> JStr s | Id_int64 w \<Rightarrow> JInt w | Id_uint64 w \<Rightarrow> JUInt w | Id_null \<Rightarrow> JNull)"

lemma read_id_to_json [simp]: "read_json_rpc_id (id_to_json i) = i"
  by (cases i) (simp_all add: read_json_rpc_id_def id_to_json_def)

subsection \<open>Messages\<close>

definition request_to_json :: "request \<Rightarrow> json" where
  "request_to_json r =
     json_put_opt ''params'' (req_params r)
       (json_put ''id'' (id_to_json (req_id r))
         (json_object [(''jsonrpc'', JStr (msg_jsonrpc r)), (''method'', JStr (req_method r))]))"

definition request_from_json :: "json \<Rightarrow> json_exc + request" where
  "request_from_json j =
     rbind (rbind (json_at j ''jsonrpc'') get_string) (\<lambda>v.
     rbind (rbind (json_at j ''method'') get_string) (\<lambda>m.
     rbind (json_at j ''id'') (\<lambda>i.
     rbind (json_get_opt j ''params'') (\<lambda>p.
     Inr \<lparr>msg_jsonrpc = v, req_id = read_json_rpc_id i, req_method = m, req_params = p\<rparr>))))"

definition notification_to_json :: "notification \<Rightarrow> json" where
  "notification_to_json n =
     json_put_opt ''params'' (note_params n)
       (json_object [(''jsonrpc'', JStr (msg_jsonrpc n)), (''method'', JStr (note_method n))])"

definition notification_from_json :: "json \<Rightarrow> json_exc + notification" where
  "notification_from_json j =
     rbind (rbind (json_at j ''jsonrpc'') get_string) (\<lambda>v.
     rbind (rbind (json_at j ''method'') get_string) (\<lambda>m.
     rbind (json_get_opt j ''params'') (\<lambda>p.
     Inr \<lparr>msg_jsonrpc = v, note_method = m, note_params = p\<rparr>)))"

definition response_to_json :: "response \<Rightarrow> json" where
  "response_to_json r =
     (let j = json_put ''id'' (id_to_json (resp_id r)) (json_object [(''jsonrpc'', JStr (msg_jsonrpc r))])
      in case resp_err r of
           Some e \<Rightarrow> json_put ''error'' (error_to_json e) j
         | None \<Rightarrow> (case resp_result r of
               Some v \<Rightarrow> json_put ''result'' v j
             | None \<Rightarrow> json_put ''result'' JNull j))"

definition response_from_json :: "json \<Rightarrow> json_exc + response" where
  "response_from_json j =
     rbind (rbind (json_at j ''jsonrpc'') get_string) (\<lambda>v.
     rbind (json_at j ''id'') (\<lambda>i.
       let r = \<lparr>msg_jsonrpc = v, resp_id = read_json_rpc_id i, resp_result = None, resp_err = None\<rparr>
       in if json_contains j ''error'' then
            rbind (rbind (json_at j ''error'') error_from_json) (\<lambda>e. Inr (r\<lparr>resp_err := Some e\<rparr>))
          else if json_contains j ''result'' then
            rbind (json_at j ''result'') (\<lambda>x. Inr (r\<lparr>resp_result := Some x\<rparr>))
          else Inr r))"

subsection \<open>MCP descriptors\<close>

definition tool_to_json :: "tool \<Rightarrow> json" where
  "tool_to_json t =
     json_object [(''name'', JStr (tool_name t)), (''description'', JStr (tool_description t)),
                  (''inputSchema'', tool_schema t)]"

definition tool_from_json :: "json \<Rightarrow> json_exc + tool" where
  "tool_from_json j =
     rbind (rbind (json_at j ''name'') get_string) (\<lambda>n.
     rbind (json_value get_string j ''description'' []) (\<lambda>d.
     rbind (json_at j ''inputSchema'') (\<lambda>s.
     Inr \<lparr>tool_name = n, tool_description = d, tool_schema = s\<rparr>)))"

definition resource_to_json :: "mcp_resource \<Rightarrow> json" where
  "resource_to_json r =
     json_put_opt ''mimeType'' (map_option JStr (res_mime r))
       (json_object [(''uri'', JStr (res_uri r)), (''name'', JStr (res_name r)),
                     (''description'', JStr (res_description r))])"

definition resource_from_json :: "json \<Rightarrow> json_exc + mcp_resource" where
  "resource_from_json j =
     rbind (rbind (json_at j ''uri'') get_string) (\<lambda>u.
     rbind (rbind (json_at j ''name'') get_string) (\<lambda>n.
     rbind (json_value get_string j ''description'' []) (\<lambda>d.
     rbind (if json_contains j ''mimeType''
            then rbind (rbind (json_at j ''mimeType'') get_string) (\<lambda>m. Inr (Some m)) else Inr None) (\<lambda>m.
     Inr \<lparr>res_uri = u, res_name = n, res_description = d, res_mime = m\<rparr>))))"

definition argument_to_json :: "prompt_argument \<Rightarrow> json" where
  "argument_to_json a =
     json_object [(''name'', JStr (arg_name a)), (''description'', JStr (arg_description a)),
                  (''required'', JBool (arg_required a))]"

definition argument_from_json :: "json \<Rightarrow> json_exc + prompt_argument" where
  "argument_from_json j =
     rbind (rbind (json_at j ''name'') get_string) (\<lambda>n.
     rbind (json_value get_string j ''description'' []) (\<lambda>d.
     rbind (json_value get_bool j ''required'' False) (\<lambda>r.
     Inr \<lparr>arg_name = n, arg_description = d, arg_required = r\<rparr>)))"

text \<open>\<open>get_to(std::vector<T>)\<close>.\<close>

fun get_vector :: "(json \<Rightarrow> json_exc + 'a) \<Rightarrow> json \<Rightarrow> json_exc + 'a list" where
  "get_vector f (JArr xs) = rmap f xs"
| "get_vector f _ = Inl (Type_error 302)"

definition prompt_to_json :: "mcp_prompt \<Rightarrow> json" where
  "prompt_to_json p =
     (let j = json_object [(''name'', JStr (prompt_name p)), (''description'', JStr (prompt_description p))]
      in if prompt_arguments p \<noteq> []
         then json_put ''arguments'' (JArr (map argument_to_json (prompt_arguments p))) j else j)"

definition prompt_from_json :: "json \<Rightarrow> json_exc + mcp_prompt" where
  "prompt_from_json j =
     rbind (rbind (json_at j ''name'') get_string) (\<lambda>n.
     rbind (json_value get_string j ''description'' []) (\<lambda>d.
     rbind (if json_contains j ''arguments''
            then rbind (json_at j ''arguments'') (get_vector argument_from_json) else Inr []) (\<lambda>as.
     Inr \<lparr>prompt_name = n, prompt_description = d, prompt_arguments = as\<rparr>)))"

subsection \<open>The contract of a codec\<close>

locale wire_codec =
  fixes enc :: "'a \<Rightarrow> json" and dec :: "json \<Rightarrow> json_exc + 'a" and canonical :: "'a \<Rightarrow> bool"
  assumes dec_enc: "canonical x \<Longrightarrow> dec (enc x) = Inr x"
begin

lemma enc_inj: "inj_on enc (Collect canonical)"
  by (rule inj_onI) (metis dec_enc mem_Collect_eq sum.inject(2))

lemma dec_enc_list: "(\<And>x. x \<in> set xs \<Longrightarrow> canonical x) \<Longrightarrow> get_vector dec (JArr (map enc xs)) = Inr xs"
  by (simp add: rmap_map dec_enc)

end

lemma ucast_scast_32_64 [simp]: "ucast (scast (w :: 32 word) :: 64 word) = w"
  by (rule bit_word_eqI) (auto simp: bit_simps)

named_theorems codec_defs \<open>the encoders and decoders of the protocol types\<close>

lemmas [codec_defs] =
  error_to_json_def error_from_json_def request_to_json_def request_from_json_def
  notification_to_json_def notification_from_json_def tool_to_json_def tool_from_json_def
  resource_to_json_def resource_from_json_def argument_to_json_def argument_from_json_def
  json_get_opt_def json_value_object

interpretation error_codec: wire_codec error_to_json error_from_json "\<lambda>_. True"
  by unfold_locales (auto simp: codec_defs)

interpretation request_codec: wire_codec request_to_json request_from_json "\<lambda>_. True"
  by unfold_locales (auto simp: codec_defs)

interpretation notification_codec: wire_codec notification_to_json notification_from_json "\<lambda>_. True"
  by unfold_locales (auto simp: codec_defs)

interpretation tool_codec: wire_codec tool_to_json tool_from_json "\<lambda>_. True"
  by unfold_locales (auto simp: codec_defs)

interpretation resource_codec: wire_codec resource_to_json resource_from_json "\<lambda>_. True"
  by unfold_locales (auto simp: codec_defs)

interpretation argument_codec: wire_codec argument_to_json argument_from_json "\<lambda>_. True"
  by unfold_locales (auto simp: codec_defs)

interpretation prompt_codec: wire_codec prompt_to_json prompt_from_json "\<lambda>_. True"
  using argument_codec.dec_enc_list
  by unfold_locales (auto simp: prompt_to_json_def prompt_from_json_def Let_def codec_defs)

text \<open>A response carries exactly one of a result and an error.\<close>

definition response_canonical :: "response \<Rightarrow> bool" where
  "response_canonical r \<longleftrightarrow> (resp_err r = None) \<noteq> (resp_result r = None)"

interpretation response_codec: wire_codec response_to_json response_from_json response_canonical
  by unfold_locales
    (auto simp: response_canonical_def response_to_json_def response_from_json_def error_codec.dec_enc
      Let_def split: option.splits)

end
