(* ===== verification/Message_Decoder.thy ===== *)
theory Message_Decoder
  imports Protocol
begin

text \<open>
  detail/message_decoder.hpp: classification of a parsed JSON value as a request, a
  notification or a response, or a diagnostic response (\<open>Inl\<close>). The conversions that the
  source runs inside its \<open>try\<close> block can throw in principle; the \<open>catch\<close> clause
  returns the diagnostic, which is the \<open>Inl\<close> case of \<open>decoded\<close>.
\<close>

definition is_request_id :: "json \<Rightarrow> bool" where
  "is_request_id v \<longleftrightarrow> is_string v \<or> is_number_integer v"

definition is_wire_error :: "json \<Rightarrow> bool" where
  "is_wire_error v =
     (if \<not> is_object v \<or> \<not> json_contains v ''code'' \<or> \<not> json_contains v ''message''
         \<or> (case json_at v ''message'' of Inl _ \<Rightarrow> True | Inr m \<Rightarrow> \<not> is_string m) then False
      else (case json_at v ''code'' of
              Inr (JUInt w) \<Rightarrow> uint w \<le> 2147483647
            | Inr (JInt w) \<Rightarrow> - 2147483648 \<le> sint w \<and> sint w \<le> 2147483647
            | _ \<Rightarrow> False))"

definition member_sat :: "(json \<Rightarrow> bool) \<Rightarrow> json \<Rightarrow> string \<Rightarrow> bool" where
  "member_sat p j k = (case json_at j k of Inl _ \<Rightarrow> False | Inr v \<Rightarrow> p v)"

definition decode_failure :: "json_rpc_id \<Rightarrow> response" where
  "decode_failure i =
     \<lparr>msg_jsonrpc = ''2.0'', resp_id = i, resp_result = None,
      resp_err = Some \<lparr>err_code = error_code_num invalid_request, err_message = ''Invalid Request'',
                       err_data = None\<rparr>\<rparr>"

definition decoded :: "response \<Rightarrow> ('a \<Rightarrow> incoming_message) \<Rightarrow> json_exc + 'a \<Rightarrow> response + incoming_message" where
  "decoded failure wrap r = (case r of Inl _ \<Rightarrow> Inl failure | Inr x \<Rightarrow> Inr (wrap x))"

definition decode_message :: "json \<Rightarrow> response + incoming_message" where
  "decode_message wire =
     (if \<not> is_object wire then Inl (decode_failure Id_null)
      else
        let failure = (if json_contains wire ''id'' \<and> member_sat is_request_id wire ''id''
                       then decode_failure (case json_at wire ''id'' of Inr v \<Rightarrow> read_json_rpc_id v | Inl _ \<Rightarrow> Id_null)
                       else decode_failure Id_null)
        in if \<not> json_contains wire ''jsonrpc'' \<or> \<not> member_sat is_string wire ''jsonrpc''
              \<or> \<not> member_sat (\<lambda>v. v = JStr ''2.0'') wire ''jsonrpc'' then Inl failure
        else if json_contains wire ''method'' then
          (if \<not> member_sat is_string wire ''method'' \<or> json_contains wire ''result'' \<or> json_contains wire ''error''
              \<or> (json_contains wire ''params'' \<and> \<not> member_sat is_object wire ''params''
                 \<and> \<not> member_sat is_array wire ''params'')
           then Inl failure
           else if json_contains wire ''id'' then
             (if \<not> member_sat is_request_id wire ''id'' then Inl failure
              else decoded failure In_request (request_from_json wire))
           else decoded failure In_notification (notification_from_json wire))
        else
          let has_result = json_contains wire ''result''; has_error = json_contains wire ''error''
          in if \<not> json_contains wire ''id'' \<or> has_result = has_error
                \<or> (\<not> member_sat is_request_id wire ''id'' \<and> \<not> (has_error \<and> member_sat is_null wire ''id''))
                \<or> (has_error \<and> \<not> member_sat is_wire_error wire ''error'')
             then Inl failure
             else decoded failure In_response (response_from_json wire))"

subsection \<open>The guards make every conversion succeed\<close>

lemma member_satD: "member_sat p j k \<Longrightarrow> \<exists>v. json_at j k = Inr v \<and> p v"
  by (auto simp: member_sat_def split: sum.splits)

lemma member_sat_at [simp]: "json_at j k = Inr v \<Longrightarrow> member_sat p j k = p v"
  by (simp add: member_sat_def)

lemma is_request_id_iff: "is_request_id v \<longleftrightarrow> read_json_rpc_id v \<noteq> Id_null"
  by (cases v) (simp_all add: is_request_id_def read_json_rpc_id_def)

lemma is_request_id_to_json [simp]: "is_request_id (id_to_json i) \<longleftrightarrow> i \<noteq> Id_null"
  by (simp add: is_request_id_iff)

lemma id_to_json_read: "is_request_id v \<Longrightarrow> id_to_json (read_json_rpc_id v) = v"
  by (cases v) (simp_all add: is_request_id_def read_json_rpc_id_def id_to_json_def)

lemma json_get_opt_Inr: "\<exists>v. json_get_opt j k = Inr v"
  by (auto simp: json_get_opt_def json_contains_iff)

lemma is_wire_errorD:
  assumes "is_wire_error v"
  shows "\<exists>code msg. json_at v ''code'' = Inr code \<and> is_number_integer code \<and>
           json_at v ''message'' = Inr (JStr msg) \<and>
           error_from_json v = Inr \<lparr>err_code = (case code of JInt w \<Rightarrow> ucast w | JUInt w \<Rightarrow> ucast w | _ \<Rightarrow> 0),
             err_message = msg, err_data = (if json_contains v ''data'' then Some (projr (json_at v ''data'')) else None)\<rparr>"
proof -
  obtain msg where msg: "json_at v ''message'' = Inr (JStr msg)"
    using assms by (auto simp: is_wire_error_def is_string_iff split: if_splits sum.splits)
  obtain code where code: "json_at v ''code'' = Inr code" "is_number_integer code"
    using assms by (auto simp: is_wire_error_def split: if_splits sum.splits json.splits)
  have "get_int32 code = Inr (case code of JInt w \<Rightarrow> ucast w | JUInt w \<Rightarrow> ucast w | _ \<Rightarrow> 0)"
    using code(2) by (cases code) simp_all
  then show ?thesis using msg code
    by (auto simp: error_from_json_def json_get_opt_def json_contains_iff)
qed

lemma is_wire_error_decodes: "is_wire_error v \<Longrightarrow> \<exists>e. error_from_json v = Inr e"
  using is_wire_errorD by blast

lemma request_decodes:
  assumes "member_sat is_string j ''jsonrpc''" "member_sat is_string j ''method''" "json_contains j ''id''"
  shows "\<exists>r. request_from_json j = Inr r"
  using assms json_get_opt_Inr [of j "''params''"]
  by (auto dest!: member_satD simp: request_from_json_def is_string_iff json_contains_iff)

lemma notification_decodes:
  assumes "member_sat is_string j ''jsonrpc''" "member_sat is_string j ''method''"
  shows "\<exists>r. notification_from_json j = Inr r"
  using assms json_get_opt_Inr [of j "''params''"]
  by (auto dest!: member_satD simp: notification_from_json_def is_string_iff)

lemma response_decodes:
  assumes "member_sat is_string j ''jsonrpc''" "json_contains j ''id''"
    and "json_contains j ''error'' \<Longrightarrow> member_sat is_wire_error j ''error''"
  shows "\<exists>r. response_from_json j = Inr r"
  using assms
  by (cases "json_contains j ''error''")
     (auto dest!: member_satD is_wire_error_decodes simp: response_from_json_def is_string_iff json_contains_iff Let_def)

lemma decoded_Inr_iff: "decoded f w r = Inr m \<longleftrightarrow> (\<exists>x. r = Inr x \<and> m = w x)"
  by (cases r) (auto simp: decoded_def)

subsection \<open>What is accepted\<close>

text \<open>The grammar of the three message kinds, as predicates on the value.\<close>

definition wire_base :: "json \<Rightarrow> bool" where
  "wire_base j \<longleftrightarrow> is_object j \<and> json_at j ''jsonrpc'' = Inr (JStr ''2.0'')"

definition wire_call :: "json \<Rightarrow> bool" where
  "wire_call j \<longleftrightarrow> wire_base j \<and> member_sat is_string j ''method'' \<and>
     \<not> json_contains j ''result'' \<and> \<not> json_contains j ''error'' \<and>
     (json_contains j ''params'' \<longrightarrow> member_sat is_structured j ''params'')"

definition wire_request :: "json \<Rightarrow> bool" where
  "wire_request j \<longleftrightarrow> wire_call j \<and> member_sat is_request_id j ''id''"

definition wire_notification :: "json \<Rightarrow> bool" where
  "wire_notification j \<longleftrightarrow> wire_call j \<and> \<not> json_contains j ''id''"

definition wire_response :: "json \<Rightarrow> bool" where
  "wire_response j \<longleftrightarrow> wire_base j \<and> \<not> json_contains j ''method'' \<and>
     (if json_contains j ''error''
      then \<not> json_contains j ''result'' \<and> member_sat is_wire_error j ''error'' \<and>
           member_sat (\<lambda>v. is_request_id v \<or> v = JNull) j ''id''
      else json_contains j ''result'' \<and> member_sat is_request_id j ''id'')"

text \<open>The id a diagnostic carries.\<close>

definition diagnostic_id :: "json \<Rightarrow> json_rpc_id" where
  "diagnostic_id j = (case json_at j ''id'' of Inr v \<Rightarrow> read_json_rpc_id v | Inl _ \<Rightarrow> Id_null)"

lemma is_null_iff: "is_null v \<longleftrightarrow> v = JNull"
  by (cases v) auto

lemma member_sat_disj: "member_sat (\<lambda>v. p v \<or> q v) j k \<longleftrightarrow> member_sat p j k \<or> member_sat q j k"
  by (simp add: member_sat_def split: sum.splits)

lemma member_sat_containsD: "member_sat p j k \<Longrightarrow> json_contains j k"
  by (auto simp: member_sat_def json_contains_iff split: sum.splits)

lemma wire_base_string: "wire_base j \<Longrightarrow> member_sat is_string j ''jsonrpc''"
  by (simp add: wire_base_def)

lemma diagnostic_id_failure:
  "(if json_contains j ''id'' \<and> member_sat is_request_id j ''id''
    then decode_failure (case json_at j ''id'' of Inr v \<Rightarrow> read_json_rpc_id v | Inl _ \<Rightarrow> Id_null)
    else decode_failure Id_null) = decode_failure (diagnostic_id j)"
  by (auto simp: diagnostic_id_def member_sat_def json_contains_iff is_request_id_iff split: sum.splits)

text \<open>The decoder as a case distinction on the grammar.\<close>

lemma jsonrpc_guard:
  "is_object j \<Longrightarrow> (\<not> json_contains j ''jsonrpc'' \<or> \<not> member_sat is_string j ''jsonrpc''
     \<or> \<not> member_sat (\<lambda>v. v = JStr ''2.0'') j ''jsonrpc'') \<longleftrightarrow> \<not> wire_base j"
  by (auto simp: wire_base_def json_contains_iff member_sat_def split: sum.splits)

lemma call_guard:
  "wire_base j \<Longrightarrow> json_contains j ''method'' \<Longrightarrow>
     (\<not> member_sat is_string j ''method'' \<or> json_contains j ''result'' \<or> json_contains j ''error''
      \<or> (json_contains j ''params'' \<and> \<not> member_sat is_object j ''params'' \<and> \<not> member_sat is_array j ''params''))
     \<longleftrightarrow> \<not> wire_call j"
  by (auto simp: wire_call_def is_structured_def [abs_def] member_sat_disj)

lemma response_guard:
  "wire_base j \<Longrightarrow> \<not> json_contains j ''method'' \<Longrightarrow>
     (\<not> json_contains j ''id'' \<or> json_contains j ''result'' = json_contains j ''error''
      \<or> (\<not> member_sat is_request_id j ''id'' \<and> \<not> (json_contains j ''error'' \<and> member_sat is_null j ''id''))
      \<or> (json_contains j ''error'' \<and> \<not> member_sat is_wire_error j ''error''))
     \<longleftrightarrow> \<not> wire_response j"
  by (auto simp: wire_response_def member_sat_disj is_null_iff [abs_def] dest: member_sat_containsD)

lemma decode_cases:
  "decode_message j =
     (if wire_request j then Inr (In_request (projr (request_from_json j)))
      else if wire_notification j then Inr (In_notification (projr (notification_from_json j)))
      else if wire_response j then Inr (In_response (projr (response_from_json j)))
      else Inl (decode_failure (if is_object j then diagnostic_id j else Id_null)))"
proof (cases "wire_base j")
  case base: True
  then have obj: "is_object j" by (simp add: wire_base_def)
  show ?thesis
  proof (cases "json_contains j ''method''")
    case True
    then have no_resp: "\<not> wire_response j" by (simp add: wire_response_def)
    have dec: "decode_message j =
       (if \<not> wire_call j then Inl (decode_failure (diagnostic_id j))
        else if json_contains j ''id'' then
          (if \<not> member_sat is_request_id j ''id'' then Inl (decode_failure (diagnostic_id j))
           else decoded (decode_failure (diagnostic_id j)) In_request (request_from_json j))
        else decoded (decode_failure (diagnostic_id j)) In_notification (notification_from_json j))"
      using True
      by (simp only: decode_message_def diagnostic_id_failure jsonrpc_guard [OF obj] call_guard [OF base True]
          Let_def base obj simp_thms if_True if_False)
    have str: "wire_call j \<Longrightarrow> member_sat is_string j ''jsonrpc'' \<and> member_sat is_string j ''method''"
      by (simp add: wire_call_def wire_base_string)
    show ?thesis
    proof (cases "wire_call j \<and> json_contains j ''id''")
      case True
      then obtain r where "request_from_json j = Inr r" using str request_decodes by blast
      then show ?thesis
        using True obj by (simp add: dec wire_request_def wire_notification_def no_resp decoded_def)
    next
      case False
      then show ?thesis
        using str notification_decodes [of j] obj
        by (auto simp: dec wire_request_def wire_notification_def no_resp decoded_def dest: member_sat_containsD)
    qed
  next
    case False
    have none: "\<not> wire_request j" "\<not> wire_notification j"
      using False by (auto simp: wire_request_def wire_notification_def wire_call_def dest: member_sat_containsD)
    have dec: "decode_message j =
       (if \<not> wire_response j then Inl (decode_failure (diagnostic_id j))
        else decoded (decode_failure (diagnostic_id j)) In_response (response_from_json j))"
      using False
      by (simp only: decode_message_def diagnostic_id_failure jsonrpc_guard [OF obj] response_guard [OF base False]
          Let_def base obj simp_thms if_True if_False)
    have "\<exists>r. response_from_json j = Inr r" if "wire_response j"
      using that
      by (intro response_decodes wire_base_string)
         (auto simp: wire_response_def dest: member_sat_containsD split: if_splits)
    then show ?thesis using obj none by (auto simp: dec decoded_def)
  qed
next
  case base: False
  then have none: "\<not> wire_request j" "\<not> wire_notification j" "\<not> wire_response j"
    by (simp_all add: wire_request_def wire_notification_def wire_call_def wire_response_def)
  show ?thesis
  proof (cases "is_object j")
    case True
    have "decode_message j = Inl (decode_failure (diagnostic_id j))"
      using base by (simp only: decode_message_def diagnostic_id_failure jsonrpc_guard [OF True] True Let_def
          not_True_eq_False not_False_eq_True if_True if_False)
    then show ?thesis using True none by simp
  qed (simp add: decode_message_def none)
qed

text \<open>The decoder inverts the encoders on messages that satisfy the protocol.\<close>

lemma decode_request_to_json:
  assumes "msg_jsonrpc r = ''2.0''" "req_id r \<noteq> Id_null" "pred_option is_structured (req_params r)"
  shows "decode_message (request_to_json r) = Inr (In_request r)"
proof -
  have "wire_request (request_to_json r)"
    using assms by (cases "req_params r")
      (auto simp: wire_request_def wire_call_def wire_base_def request_to_json_def)
  then show ?thesis by (simp add: decode_cases request_codec.dec_enc)
qed

lemma decode_notification_to_json:
  assumes "msg_jsonrpc n = ''2.0''" "pred_option is_structured (note_params n)"
  shows "decode_message (notification_to_json n) = Inr (In_notification n)"
proof -
  have "wire_notification (notification_to_json n)" "\<not> wire_request (notification_to_json n)"
    using assms by (cases "note_params n";
      auto simp: wire_request_def wire_notification_def wire_call_def wire_base_def notification_to_json_def
        dest: member_sat_containsD)+
  then show ?thesis by (simp add: decode_cases notification_codec.dec_enc)
qed

lemma sint_scast_32: "sint (scast (w :: 32 word) :: 64 word) = sint w"
  by (rule sint_up_scast) (simp add: is_up)

lemma error_to_json_wire: "is_wire_error (error_to_json e)"
  using sint_ge [of "err_code e"] sint_lt [of "err_code e"]
  by (simp add: is_wire_error_def error_to_json_def sint_scast_32)

lemma decode_response_to_json:
  assumes "msg_jsonrpc r = ''2.0''" "response_canonical r" "resp_err r = None \<longrightarrow> resp_id r \<noteq> Id_null"
  shows "decode_message (response_to_json r) = Inr (In_response r)"
proof -
  have id: "is_request_id (id_to_json i) \<or> id_to_json i = JNull" for i
    by (cases i) (simp_all add: is_request_id_def id_to_json_def)
  have "wire_response (response_to_json r)"
    using assms id [of "resp_id r"]
    by (auto simp: response_canonical_def wire_response_def wire_base_def response_to_json_def Let_def
        error_to_json_wire split: option.splits)
  moreover from this have "\<not> wire_request (response_to_json r)" "\<not> wire_notification (response_to_json r)"
    by (auto simp: wire_response_def wire_request_def wire_notification_def wire_call_def dest: member_sat_containsD)
  ultimately show ?thesis using assms(2) by (simp add: decode_cases response_codec.dec_enc)
qed

end
