(* ===== verification/Effects.thy ===== *)
theory Effects
  imports Protocol
begin

text \<open>
  Application code called by the library: handlers, the admission and filter hooks and the
  clock are \<open>std::function\<close> values that read and write state of their own and may throw.
  A call is a function of the application's state \<open>'a\<close>; the result is a thrown exception
  (\<open>Inl\<close>) or a value, with the new application state either way.
\<close>

datatype exn = Json_exn json_exc | User_exn

type_synonym ('a, 'r) eff = "'a \<Rightarrow> (exn + 'r) \<times> 'a"

definition eff_return :: "'r \<Rightarrow> ('a, 'r) eff" where
  "eff_return x = (\<lambda>a. (Inr x, a))"

definition eff_throw :: "exn \<Rightarrow> ('a, 'r) eff" where
  "eff_throw e = (\<lambda>a. (Inl e, a))"

definition eff_bind :: "('a, 'r) eff \<Rightarrow> ('r \<Rightarrow> ('a, 's) eff) \<Rightarrow> ('a, 's) eff" where
  "eff_bind m f = (\<lambda>a. case m a of (Inl e, a') \<Rightarrow> (Inl e, a') | (Inr x, a') \<Rightarrow> f x a')"

text \<open>A pure computation that can throw a JSON exception.\<close>

definition eff_json :: "json_exc + 'r \<Rightarrow> ('a, 'r) eff" where
  "eff_json r = (\<lambda>a. (case r of Inl e \<Rightarrow> Inl (Json_exn e) | Inr x \<Rightarrow> Inr x, a))"

lemma eff_simps [simp]:
  "eff_return x a = (Inr x, a)"
  "eff_throw e a = (Inl e, a)"
  "eff_json (Inr x) a = (Inr x, a)"
  "eff_json (Inl je) a = (Inl (Json_exn je), a)"
  by (simp_all add: eff_return_def eff_throw_def eff_json_def)

lemma eff_bind_apply:
  "eff_bind m f a = (case m a of (Inl e, a') \<Rightarrow> (Inl e, a') | (Inr x, a') \<Rightarrow> f x a')"
  by (simp add: eff_bind_def)

lemma eff_bind_Inr [simp]: "m a = (Inr x, a') \<Longrightarrow> eff_bind m f a = f x a'"
  by (simp add: eff_bind_def)

lemma eff_bind_Inl [simp]: "m a = (Inl e, a') \<Longrightarrow> eff_bind m f a = (Inl e, a')"
  by (simp add: eff_bind_def)

text \<open>
  What every successful run of a computation satisfies, by the structure of the
  computation: the rules of a small program logic for values.
\<close>

definition eff_ok :: "('a, 'r) eff \<Rightarrow> ('r \<Rightarrow> bool) \<Rightarrow> bool" where
  "eff_ok m P \<longleftrightarrow> (\<forall>a. case m a of (Inl _, _) \<Rightarrow> True | (Inr x, _) \<Rightarrow> P x)"

lemma eff_okD: "eff_ok m P \<Longrightarrow> m a = (Inr x, a') \<Longrightarrow> P x"
  by (auto simp: eff_ok_def split: prod.splits sum.splits dest!: spec [of _ a])

lemma eff_ok_return [intro]: "P x \<Longrightarrow> eff_ok (eff_return x) P"
  by (simp add: eff_ok_def)

lemma eff_ok_throw [intro]: "eff_ok (eff_throw e) P"
  by (simp add: eff_ok_def)

lemma eff_ok_bind: "eff_ok m Q \<Longrightarrow> (\<And>x. Q x \<Longrightarrow> eff_ok (f x) P) \<Longrightarrow> eff_ok (eff_bind m f) P"
  unfolding eff_ok_def eff_bind_def
  by (auto split: prod.splits sum.splits) (metis Inl_Inr_False Inr_inject Pair_inject case_prod_conv sum.case(2) sum.exhaust surj_pair)

lemma eff_ok_bind': "(\<And>x. eff_ok (f x) P) \<Longrightarrow> eff_ok (eff_bind m f) P"
  by (rule eff_ok_bind [of m "\<lambda>_. True"]) (auto simp: eff_ok_def split: prod.splits sum.splits)

record request_context =
  ctx_id :: json_rpc_id
  ctx_stop_requested :: bool

text \<open>
  The stop token of a context is represented by what it answers when the callback starts;
  the application state stands for anything it reads later.
\<close>

text \<open>The outcome of a handler: its own error value or a result.\<close>

type_synonym ('a, 'r) handler_call = "('a, handler_error + 'r) eff"

type_synonym 'a tool_handler = "json \<Rightarrow> request_context \<Rightarrow> ('a, tool_result) handler_call"
type_synonym 'a resource_handler = "request_context \<Rightarrow> ('a, resource_result) handler_call"
type_synonym 'a prompt_handler =
  "(string, string) omap \<Rightarrow> request_context \<Rightarrow> ('a, prompt_result) handler_call"

text \<open>server_options.hpp; an empty \<open>std::function\<close> is \<open>None\<close>.\<close>

record 'a server_options =
  max_pending_requests :: nat
  tool_burst :: nat
  tool_requests_per_second :: "64 word"
  allow_tool :: "(string \<Rightarrow> request_context \<Rightarrow> ('a, bool) eff) option"
  filter_output :: "(string \<Rightarrow> string \<Rightarrow> request_context \<Rightarrow> ('a, handler_error + string) eff) option"
  clock_now :: "('a, int) eff option"

record stdio_options =
  max_frame_bytes :: nat
  max_json_depth :: nat
  max_outbound_bytes :: nat
  flush_budget :: int

definition default_stdio_options :: stdio_options where
  "default_stdio_options =
     \<lparr>max_frame_bytes = 1048576, max_json_depth = 64, max_outbound_bytes = 4194304, flush_budget = 250\<rparr>"

end
