(* ===== verification/Float64.thy ===== *)
theory Float64
  imports Json "HOL-Library.Log_Nat"
begin

text \<open>
  The part of IEEE-754 binary64 arithmetic that the rate limiter uses: doubles that are
  nonnegative, by their exact rational value, and rounding to nearest (ties to even) of the
  exact result of an operation. Infinity is \<open>None\<close>.
\<close>

definition pow2 :: "int \<Rightarrow> rat" where
  "pow2 k = (if 0 \<le> k then 2 ^ nat k else 1 / 2 ^ nat (- k))"

text \<open>The exponent $e$ with $2^e \le q < 2^{e+1}$, for positive $q$.\<close>

definition bexp :: "rat \<Rightarrow> int" where
  "bexp q =
     (let (a, b) = quotient_of q; e = int (floorlog 2 (nat a)) - int (floorlog 2 (nat b))
      in if pow2 e \<le> q then e else e - 1)"

definition round_even :: "rat \<Rightarrow> int" where
  "round_even x =
     (let f = \<lfloor>x\<rfloor>; d = x - of_int f
      in if d < 1 / 2 then f else if 1 / 2 < d then f + 1 else if even f then f else f + 1)"

definition f64_ulp :: "rat \<Rightarrow> rat" where
  "f64_ulp q = pow2 (max (bexp q) (- 1022) - 52)"

definition f64_round :: "rat \<Rightarrow> rat option" where
  "f64_round q =
     (if q \<le> 0 then Some 0
      else let r = of_int (round_even (q / f64_ulp q)) * f64_ulp q
           in if r < 2 ^ 1024 then Some r else None)"

definition f64_add :: "rat \<Rightarrow> rat option \<Rightarrow> rat option" where
  "f64_add x y = (case y of None \<Rightarrow> None | Some y \<Rightarrow> f64_round (x + y))"

definition f64_min :: "rat \<Rightarrow> rat option \<Rightarrow> rat" where
  "f64_min x y = (case y of None \<Rightarrow> x | Some y \<Rightarrow> if y < x then y else x)"

text \<open>The value of a finite double given by its bits.\<close>

definition f64_value :: "64 word \<Rightarrow> rat" where
  "f64_value w =
     (let e = f64_exponent w;
          v = (if e = 0 then of_int (f64_fraction w) * pow2 (- 1074)
               else of_int (2 ^ 52 + f64_fraction w) * pow2 (e - 1075))
      in if f64_negative w then - v else v)"

subsection \<open>Rounding\<close>

lemma pow2_pos [simp]: "0 < pow2 k"
  by (simp add: pow2_def)

lemma pow2_nonzero [simp]: "pow2 k \<noteq> 0"
  by (simp add: pow2_def)

lemma pow2_powi: "pow2 k = 2 powi k"
  by (simp add: pow2_def power_int_def power_one_over)

lemma pow2_add: "pow2 (j + k) = pow2 j * pow2 k"
  by (simp add: pow2_powi power_int_add)

lemma pow2_of_nat: "pow2 (int n) = 2 ^ n"
  by (simp add: pow2_def)

lemma pow2_split: "j \<le> k \<Longrightarrow> pow2 k = 2 ^ nat (k - j) * pow2 j"
  using pow2_add [of "k - j" j] pow2_of_nat [of "nat (k - j)"] by simp

lemma pow2_mono: "j \<le> k \<Longrightarrow> pow2 j \<le> pow2 k"
  by (simp add: pow2_split [of j k])

lemma pow2_strict_mono: "j < k \<Longrightarrow> pow2 j < pow2 k"
  by (simp add: pow2_split [of j k])

lemma pow2_le_iff: "pow2 j \<le> pow2 k \<longleftrightarrow> j \<le> k"
  using pow2_mono [of j k] pow2_strict_mono [of k j] by (auto simp: not_le [symmetric])

lemma round_even_of_int [simp]: "round_even (of_int n) = n"
  by (simp add: round_even_def)

lemma round_even_nonneg: "0 \<le> x \<Longrightarrow> 0 \<le> round_even x"
  by (auto simp: round_even_def Let_def)

lemma f64_round_nonneg: "f64_round q = Some r \<Longrightarrow> 0 \<le> r"
  by (auto simp: f64_round_def f64_ulp_def Let_def round_even_nonneg less_imp_le split: if_splits)

text \<open>Between the powers of two that the bit lengths of numerator and denominator give.\<close>

lemma floorlog2_bounds:
  assumes "0 < (n :: nat)"
  shows "2 ^ (floorlog 2 n - 1) \<le> n" "n < 2 ^ floorlog 2 n" "0 < floorlog 2 n"
  using assms floorlog_bounds [of n 2] by (auto simp: floorlog_def)

lemma bexp_bounds:
  assumes "0 < q"
  shows "pow2 (bexp q) \<le> q" "q < pow2 (bexp q + 1)"
proof -
  obtain a b where ab: "quotient_of q = (a, b)" by force
  then have q: "q = of_int a / of_int b" and b: "0 < b"
    using quotient_of_div quotient_of_denom_pos by blast+
  with assms have a: "0 < a" by (simp add: zero_less_divide_iff)
  let ?A = "floorlog 2 (nat a)" and ?B = "floorlog 2 (nat b)"
  have A: "2 ^ (?A - 1) \<le> nat a" "nat a < 2 ^ ?A" "0 < ?A"
    and B: "2 ^ (?B - 1) \<le> nat b" "nat b < 2 ^ ?B" "0 < ?B"
    using floorlog2_bounds [of "nat a"] floorlog2_bounds [of "nat b"] a b by simp_all
  have a1: "pow2 (int ?A - 1) \<le> of_int a" and a2: "of_int a < pow2 (int ?A)"
  proof -
    have "(2::rat) ^ (?A - 1) \<le> of_nat (nat a)" "of_nat (nat a) < (2::rat) ^ ?A"
      using A by (metis of_nat_le_iff of_nat_numeral of_nat_power, metis of_nat_less_iff of_nat_numeral of_nat_power)
    then show "pow2 (int ?A - 1) \<le> of_int a" "of_int a < pow2 (int ?A)"
      using a A(3) by (simp_all add: pow2_def nat_diff_distrib)
  qed
  have b1: "pow2 (int ?B - 1) \<le> of_int b" and b2: "of_int b < pow2 (int ?B)"
  proof -
    have "(2::rat) ^ (?B - 1) \<le> of_nat (nat b)" "of_nat (nat b) < (2::rat) ^ ?B"
      using B by (metis of_nat_le_iff of_nat_numeral of_nat_power, metis of_nat_less_iff of_nat_numeral of_nat_power)
    then show "pow2 (int ?B - 1) \<le> of_int b" "of_int b < pow2 (int ?B)"
      using b B(3) by (simp_all add: pow2_def nat_diff_distrib)
  qed
  let ?e = "int ?A - int ?B"
  have lo: "pow2 (?e - 1) \<le> q"
  proof -
    have "pow2 (?e - 1) * of_int b \<le> pow2 (?e - 1) * pow2 (int ?B)" using b2 by simp
    also have "\<dots> = pow2 (int ?A - 1)" by (simp add: pow2_add [symmetric])
    finally show ?thesis using a1 b by (simp add: q pos_le_divide_eq)
  qed
  have hi: "q < pow2 (?e + 1)"
  proof -
    have "pow2 (int ?A) = pow2 (?e + 1) * pow2 (int ?B - 1)" by (simp add: pow2_add [symmetric])
    also have "\<dots> \<le> pow2 (?e + 1) * of_int b" using b1 by simp
    finally show ?thesis using a2 b by (simp add: q pos_divide_less_eq)
  qed
  show "pow2 (bexp q) \<le> q" "q < pow2 (bexp q + 1)"
    using lo hi by (auto simp: bexp_def ab Let_def)
qed

text \<open>
  A multiple of some $2^k$, $k \ge -1074$, below $2^{k+53}$ is representable: rounding
  leaves it alone.
\<close>

definition f64_representable :: "rat \<Rightarrow> bool" where
  "f64_representable q \<longleftrightarrow> (\<exists>n k. - 1074 \<le> k \<and> k \<le> 971 \<and> 0 \<le> n \<and> n < 2 ^ 53 \<and> q = of_int n * pow2 k)"

lemma f64_round_representable:
  assumes "f64_representable q"
  shows "f64_round q = Some q"
proof (cases "0 < q")
  case True
  obtain n k where nk: "- 1074 \<le> k" "k \<le> 971" "0 \<le> n" "n < 2 ^ 53" "q = of_int n * pow2 k"
    using assms by (auto simp: f64_representable_def)
  let ?u = "max (bexp q) (- 1022) - 52"
  have "of_int n < (2 :: rat) ^ 53" using nk(4) by (metis of_int_less_iff of_int_numeral of_int_power)
  then have lt: "q < pow2 (k + 53)"
    using pow2_of_nat [of 53] by (simp add: nk(5) pow2_add mult.commute)
  then have "pow2 (bexp q) < pow2 (k + 53)" using bexp_bounds(1) [OF True] by (rule le_less_trans [rotated])
  then have "bexp q < k + 53" by (meson not_le pow2_le_iff)
  then have "?u \<le> k" using nk(1) by simp
  define m where "m = nat (k - ?u)"
  have ulp: "pow2 k = 2 ^ m * f64_ulp q"
    unfolding m_def f64_ulp_def using \<open>?u \<le> k\<close> by (rule pow2_split)
  have "q = of_int n * pow2 k" by (rule nk(5))
  also have "\<dots> = of_int (n * 2 ^ m) * f64_ulp q" unfolding ulp by simp
  finally have qm: "q = of_int (n * 2 ^ m) * f64_ulp q" .
  moreover have "f64_ulp q \<noteq> 0" by (simp add: f64_ulp_def)
  ultimately have qd: "q / f64_ulp q = of_int (n * 2 ^ m)" by (metis nonzero_mult_div_cancel_right)
  then have "round_even (q / f64_ulp q) = n * 2 ^ m" by (metis round_even_of_int)
  then have "of_int (round_even (q / f64_ulp q)) * f64_ulp q = q" using qm by metis
  moreover have "q < 2 ^ 1024"
  proof -
    have "pow2 (k + 53) \<le> pow2 (int 1024)" using nk(2) by (simp add: pow2_le_iff)
    then show ?thesis using lt pow2_of_nat [of 1024] by simp
  qed
  ultimately show ?thesis using True by (simp add: f64_round_def)
next
  case False
  moreover have "0 \<le> q" using assms by (auto simp: f64_representable_def less_imp_le)
  ultimately show ?thesis by (simp add: f64_round_def)
qed

text \<open>Every result of rounding is representable.\<close>

lemma round_even_bounds: "\<lfloor>x\<rfloor> \<le> round_even x" "round_even x \<le> \<lfloor>x\<rfloor> + 1"
  by (auto simp: round_even_def Let_def)

lemma f64_round_result:
  assumes "f64_round q = Some r"
  shows "f64_representable r"
proof (cases "q \<le> 0")
  case True
  then show ?thesis
    using assms unfolding f64_representable_def
    by (intro exI [of _ 0]) (auto simp: f64_round_def)
next
  case False
  define k where "k = max (bexp q) (- 1022) - 52"
  define n where "n = round_even (q / pow2 k)"
  have r: "r = of_int n * pow2 k" "r < 2 ^ 1024"
    using assms False by (auto simp: f64_round_def f64_ulp_def k_def n_def Let_def split: if_splits)
  have "q < pow2 (bexp q + 1)" using bexp_bounds(2) [of q] False by simp
  also have "\<dots> \<le> pow2 (k + 53)" by (rule pow2_mono) (simp add: k_def)
  also have "\<dots> = 2 ^ 53 * pow2 k" using pow2_split [of k "k + 53"] by simp
  finally have "q / pow2 k < of_int (2 ^ 53)" by (simp add: pos_divide_less_eq)
  then have "\<lfloor>q / pow2 k\<rfloor> < 2 ^ 53" by (simp only: floor_less_iff)
  then have n: "n \<le> 2 ^ 53" using round_even_bounds(2) [of "q / pow2 k"] unfolding n_def by linarith
  have n0: "0 \<le> n" using False by (simp add: n_def round_even_nonneg less_imp_le)
  have k: "- 1074 \<le> k" by (simp add: k_def)
  have k971: "k \<le> 971"
  proof (rule ccontr)
    assume "\<not> k \<le> 971"
    then have "bexp q = k + 52" by (simp add: k_def)
    then have "2 ^ 52 * pow2 k \<le> q"
      using bexp_bounds(1) [of q] False pow2_split [of k "k + 52"] by simp
    then have "of_int (2 ^ 52) \<le> q / pow2 k" by (simp add: pos_le_divide_eq)
    then have "2 ^ 52 \<le> \<lfloor>q / pow2 k\<rfloor>" by (simp only: le_floor_iff)
    then have "2 ^ 52 \<le> n" using round_even_bounds(1) [of "q / pow2 k"] unfolding n_def by linarith
    then have "(2 :: rat) ^ 52 \<le> of_int n" by (metis of_int_le_iff of_int_numeral of_int_power)
    moreover have "pow2 972 \<le> pow2 k" using \<open>\<not> k \<le> 971\<close> by (intro pow2_mono) simp
    ultimately have "2 ^ 52 * pow2 972 \<le> r" unfolding r(1) by (intro mult_mono) (simp_all add: n0 less_imp_le)
    moreover have "2 ^ 52 * pow2 972 = 2 ^ 1024"
      using pow2_of_nat [of 972] by (simp add: power_add [symmetric] del: power_numeral)
    ultimately show False using r(2) by simp
  qed
  show ?thesis
  proof (cases "n < 2 ^ 53")
    case True
    then show ?thesis unfolding f64_representable_def using k k971 n0 r(1) by blast
  next
    case False
    then have n53: "n = 2 ^ 53" using n by simp
    have "k + 1 \<le> 971"
    proof (rule ccontr)
      assume "\<not> k + 1 \<le> 971"
      then have "k = 971" using k971 by simp
      then show False using r pow2_of_nat [of 971] by (simp add: n53)
    qed
    moreover have "r = of_int (2 ^ 52) * pow2 (k + 1)"
      using pow2_split [of k "k + 1"] by (simp add: r(1) n53)
    ultimately show ?thesis unfolding f64_representable_def using k
      by (intro exI [of _ "2 ^ 52"] exI [of _ "k + 1"]) simp
  qed
qed

end
