(* ===== verification/Utf8.thy ===== *)
theory Utf8
  imports Prelude
begin

text \<open>
  The UTF-8 decoder of the JSON serializer (\<open>serializer::decode\<close>, a table-driven DFA) and
  the reference it is compared with: the well-formed byte sequences of Unicode Table 3-7,
  given per lead byte by the ranges of its continuation bytes.
\<close>

unbundle bit_operations_syntax

definition UTF8_ACCEPT :: nat where "UTF8_ACCEPT = 0"

definition UTF8_REJECT :: nat where "UTF8_REJECT = 1"

definition utf8d :: "nat list" where
  "utf8d = [
    0,0,0,0,0,0,0,0,0,0,0,0,0,0,0,0,0,0,0,0,0,0,0,0,0,0,0,0,0,0,0,0,
    0,0,0,0,0,0,0,0,0,0,0,0,0,0,0,0,0,0,0,0,0,0,0,0,0,0,0,0,0,0,0,0,
    0,0,0,0,0,0,0,0,0,0,0,0,0,0,0,0,0,0,0,0,0,0,0,0,0,0,0,0,0,0,0,0,
    0,0,0,0,0,0,0,0,0,0,0,0,0,0,0,0,0,0,0,0,0,0,0,0,0,0,0,0,0,0,0,0,
    1,1,1,1,1,1,1,1,1,1,1,1,1,1,1,1,9,9,9,9,9,9,9,9,9,9,9,9,9,9,9,9,
    7,7,7,7,7,7,7,7,7,7,7,7,7,7,7,7,7,7,7,7,7,7,7,7,7,7,7,7,7,7,7,7,
    8,8,2,2,2,2,2,2,2,2,2,2,2,2,2,2,2,2,2,2,2,2,2,2,2,2,2,2,2,2,2,2,
    0xA,0x3,0x3,0x3,0x3,0x3,0x3,0x3,0x3,0x3,0x3,0x3,0x3,0x4,0x3,0x3,
    0xB,0x6,0x6,0x6,0x5,0x8,0x8,0x8,0x8,0x8,0x8,0x8,0x8,0x8,0x8,0x8,
    0x0,0x1,0x2,0x3,0x5,0x8,0x7,0x1,0x1,0x1,0x4,0x6,0x1,0x1,0x1,0x1,
    1,1,1,1,1,1,1,1,1,1,1,1,1,1,1,1,1,0,1,1,1,1,1,0,1,0,1,1,1,1,1,1,
    1,2,1,1,1,1,1,2,1,2,1,1,1,1,1,1,1,1,1,1,1,1,1,2,1,1,1,1,1,1,1,1,
    1,2,1,1,1,1,1,1,1,2,1,1,1,1,1,1,1,1,1,1,1,1,1,3,1,3,1,1,1,1,1,1,
    1,3,1,1,1,1,1,3,1,3,1,1,1,1,1,1,1,3,1,1,1,1,1,1,1,1,1,1,1,1,1,1]"

text \<open>One call of \<open>decode\<close>: the new state and the new code point accumulator.\<close>

definition utf8_decode :: "nat \<Rightarrow> 32 word \<Rightarrow> nat \<Rightarrow> nat \<times> 32 word" where
  "utf8_decode state codep b =
     (let type = utf8d ! b;
          codep' = (if state \<noteq> UTF8_ACCEPT then (of_nat b AND 0x3F) OR push_bit 6 codep
                    else drop_bit type 0xFF AND of_nat b);
          index = 256 + state * 16 + type
      in (utf8d ! index, codep'))"

subsection \<open>The tables\<close>

definition utf8_class :: "nat \<Rightarrow> nat" where
  "utf8_class b =
     (if b < 0x80 then 0 else if b < 0x90 then 1 else if b < 0xA0 then 9
      else if b < 0xC0 then 7 else if b < 0xC2 then 8 else if b < 0xE0 then 2
      else if b = 0xE0 then 10 else if b = 0xED then 4 else if b < 0xF0 then 3
      else if b = 0xF0 then 11 else if b < 0xF4 then 6 else if b = 0xF4 then 5 else 8)"

lemma utf8d_class_table: "take 256 utf8d = map utf8_class [0..<256]"
  by code_simp

lemma utf8d_class: "b < 256 \<Longrightarrow> utf8d ! b = utf8_class b"
proof -
  assume "b < 256"
  then have "utf8d ! b = take 256 utf8d ! b" by simp
  also have "\<dots> = utf8_class b" using \<open>b < 256\<close> by (simp add: utf8d_class_table)
  finally show ?thesis .
qed

definition utf8_trans :: "nat list" where
  "utf8_trans = [
    0,1,2,3,5,8,7,1,1,1,4,6,1,1,1,1,
    1,1,1,1,1,1,1,1,1,1,1,1,1,1,1,1,
    1,0,1,1,1,1,1,0,1,0,1,1,1,1,1,1,
    1,2,1,1,1,1,1,2,1,2,1,1,1,1,1,1,
    1,1,1,1,1,1,1,2,1,1,1,1,1,1,1,1,
    1,2,1,1,1,1,1,1,1,2,1,1,1,1,1,1,
    1,1,1,1,1,1,1,3,1,3,1,1,1,1,1,1,
    1,3,1,1,1,1,1,3,1,3,1,1,1,1,1,1,
    1,3,1,1,1,1,1,1,1,1,1,1,1,1,1,1]"

lemma utf8d_trans: "drop 256 utf8d = utf8_trans"
  by (simp add: utf8d_def utf8_trans_def)

lemma utf8d_next: "n < 144 \<Longrightarrow> utf8d ! (256 + n) = utf8_trans ! n"
proof -
  assume "n < 144"
  then have "drop 256 utf8d ! n = utf8d ! (256 + n)"
    by (intro nth_drop) (simp add: utf8d_def)
  then show ?thesis by (simp add: utf8d_trans)
qed

subsection \<open>The reference: well-formed sequences\<close>

type_synonym ranges = "(nat \<times> nat) list"

text \<open>The continuation ranges a lead byte requires, \<open>None\<close> for a byte that leads nothing.\<close>

definition utf8_tail :: "nat \<Rightarrow> ranges option" where
  "utf8_tail b =
     (if b < 0x80 then Some []
      else if 0xC2 \<le> b \<and> b \<le> 0xDF then Some [(0x80, 0xBF)]
      else if b = 0xE0 then Some [(0xA0, 0xBF), (0x80, 0xBF)]
      else if b = 0xED then Some [(0x80, 0x9F), (0x80, 0xBF)]
      else if 0xE1 \<le> b \<and> b \<le> 0xEF then Some [(0x80, 0xBF), (0x80, 0xBF)]
      else if b = 0xF0 then Some [(0x90, 0xBF), (0x80, 0xBF), (0x80, 0xBF)]
      else if 0xF1 \<le> b \<and> b \<le> 0xF3 then Some [(0x80, 0xBF), (0x80, 0xBF), (0x80, 0xBF)]
      else if b = 0xF4 then Some [(0x80, 0x8F), (0x80, 0xBF), (0x80, 0xBF)]
      else None)"

text \<open>\<open>follow rs s\<close>: what is left of \<open>s\<close> after one byte in each of the ranges.\<close>

fun follow :: "ranges \<Rightarrow> string \<Rightarrow> string option" where
  "follow [] s = Some s"
| "follow (r # rs) [] = None"
| "follow (r # rs) (c # s) = (if fst r \<le> byte c \<and> byte c \<le> snd r then follow rs s else None)"

lemma follow_length: "follow rs s = Some s' \<Longrightarrow> length s = length rs + length s'"
  by (induction rs s rule: follow.induct) (auto split: if_splits)

function utf8_valid :: "string \<Rightarrow> bool" where
  "utf8_valid [] = True"
| "utf8_valid (c # s) =
     (case utf8_tail (byte c) of None \<Rightarrow> False
      | Some rs \<Rightarrow> (case follow rs s of None \<Rightarrow> False | Some s' \<Rightarrow> utf8_valid s'))"
  by pat_completeness auto
termination
  by (relation "measure length") (auto dest: follow_length)

text \<open>The ranges a DFA state still expects; state 0 expects nothing, state 1 is rejection.\<close>

definition utf8_expect :: "nat \<Rightarrow> ranges" where
  "utf8_expect st =
     (if st = 2 then [(0x80, 0xBF)]
      else if st = 3 then [(0x80, 0xBF), (0x80, 0xBF)]
      else if st = 4 then [(0xA0, 0xBF), (0x80, 0xBF)]
      else if st = 5 then [(0x80, 0x9F), (0x80, 0xBF)]
      else if st = 6 then [(0x90, 0xBF), (0x80, 0xBF), (0x80, 0xBF)]
      else if st = 7 then [(0x80, 0xBF), (0x80, 0xBF), (0x80, 0xBF)]
      else if st = 8 then [(0x80, 0x8F), (0x80, 0xBF), (0x80, 0xBF)]
      else [])"

lemma utf8_class_less: "utf8_class b < 12"
  by (simp add: utf8_class_def)

lemma utf8_decode_state:
  "b < 256 \<Longrightarrow> st < 9 \<Longrightarrow> fst (utf8_decode st cp b) = utf8_trans ! (st * 16 + utf8_class b)"
  using utf8_class_less [of b] utf8d_next [of "st * 16 + utf8_class b"]
  by (simp add: utf8_decode_def Let_def utf8d_class add.assoc)

lemma utf8_trans_split:
  "utf8_trans ! (k + utf8_class b) =
     (if b < 0x80 then utf8_trans ! (k + 0) else if b < 0x90 then utf8_trans ! (k + 1)
      else if b < 0xA0 then utf8_trans ! (k + 9) else if b < 0xC0 then utf8_trans ! (k + 7)
      else if b < 0xC2 then utf8_trans ! (k + 8) else if b < 0xE0 then utf8_trans ! (k + 2)
      else if b = 0xE0 then utf8_trans ! (k + 10) else if b = 0xED then utf8_trans ! (k + 4)
      else if b < 0xF0 then utf8_trans ! (k + 3) else if b = 0xF0 then utf8_trans ! (k + 11)
      else if b < 0xF4 then utf8_trans ! (k + 6) else if b = 0xF4 then utf8_trans ! (k + 5)
      else utf8_trans ! (k + 8))"
  by (simp add: utf8_class_def)

text \<open>The transitions of every state, read off the table.\<close>

lemma utf8_trans_lead:
  "utf8_trans ! utf8_class b =
     (if b < 0x80 then 0 else if b < 0xC2 then 1 else if b < 0xE0 then 2 else if b = 0xE0 then 4
      else if b = 0xED then 5 else if b < 0xF0 then 3 else if b = 0xF0 then 6
      else if b < 0xF4 then 7 else if b = 0xF4 then 8 else 1)"
  using utf8_trans_split [of 0 b] by (simp add: utf8_trans_def)

lemma utf8_trans_cont:
  "utf8_trans ! (2 * 16 + utf8_class b) = (if 0x80 \<le> b \<and> b \<le> 0xBF then 0 else 1)"
  "utf8_trans ! (3 * 16 + utf8_class b) = (if 0x80 \<le> b \<and> b \<le> 0xBF then 2 else 1)"
  "utf8_trans ! (4 * 16 + utf8_class b) = (if 0xA0 \<le> b \<and> b \<le> 0xBF then 2 else 1)"
  "utf8_trans ! (5 * 16 + utf8_class b) = (if 0x80 \<le> b \<and> b \<le> 0x9F then 2 else 1)"
  "utf8_trans ! (6 * 16 + utf8_class b) = (if 0x90 \<le> b \<and> b \<le> 0xBF then 3 else 1)"
  "utf8_trans ! (7 * 16 + utf8_class b) = (if 0x80 \<le> b \<and> b \<le> 0xBF then 3 else 1)"
  "utf8_trans ! (8 * 16 + utf8_class b) = (if 0x80 \<le> b \<and> b \<le> 0x8F then 3 else 1)"
  by (simp_all add: utf8_trans_split) (simp_all add: utf8_trans_def)

text \<open>From the accepting state the DFA enters the state that expects the lead byte's ranges.\<close>

lemma utf8_lead_state:
  "b < 256 \<Longrightarrow> fst (utf8_decode 0 cp b) =
     (if b < 0x80 then 0 else if b < 0xC2 then 1 else if b < 0xE0 then 2 else if b = 0xE0 then 4
      else if b = 0xED then 5 else if b < 0xF0 then 3 else if b = 0xF0 then 6
      else if b < 0xF4 then 7 else if b = 0xF4 then 8 else 1)"
  using utf8_decode_state [of b 0 cp] utf8_trans_lead [of b] by simp

lemma utf8_lead:
  assumes "b < 256"
  shows "fst (utf8_decode 0 cp b) < 9"
    and "utf8_tail b = (if fst (utf8_decode 0 cp b) = 1 then None
                        else Some (utf8_expect (fst (utf8_decode 0 cp b))))"
  using assms by (simp_all add: utf8_lead_state) (simp_all add: utf8_tail_def utf8_expect_def)

text \<open>Inside a sequence it consumes exactly the expected range.\<close>

lemma utf8_cont:
  assumes "b < 256" and "st \<in> {2..8}"
  shows "fst (utf8_decode st cp b) =
    (if fst (hd (utf8_expect st)) \<le> b \<and> b \<le> snd (hd (utf8_expect st))
     then (if st = 2 then 0 else if st < 6 then 2 else 3) else 1)"
proof -
  have "st = 2 \<or> st = 3 \<or> st = 4 \<or> st = 5 \<or> st = 6 \<or> st = 7 \<or> st = 8"
    using assms(2) by auto
  then show ?thesis
    using utf8_trans_cont [of b] utf8_decode_state [OF assms(1), of st cp]
    by (elim disjE) (simp_all add: utf8_expect_def)
qed

lemma utf8_expect_tl:
  "st \<in> {2..8} \<Longrightarrow> utf8_expect (if st = 2 then 0 else if st < 6 then 2 else 3) = tl (utf8_expect st)"
  "st \<in> {2..8} \<Longrightarrow> utf8_expect st \<noteq> []"
  by (auto simp: utf8_expect_def)

lemma utf8_expect_Nil_iff: "st < 9 \<Longrightarrow> st \<noteq> 1 \<Longrightarrow> utf8_expect st = [] \<longleftrightarrow> st = 0"
  by (auto simp: utf8_expect_def)

end
