(* ===== verification/Serializer.thy ===== *)
theory Serializer
  imports Json Utf8
begin

text \<open>
  The serializer of nlohmann::json (class \<open>serializer\<close>): string escaping over the UTF-8
  DFA with its 512-byte staging buffer, the integer printer that fills a buffer from the
  back, and the recursive \<open>dump\<close>. An output adapter receives a sequence of writes,
  possibly cut short by an exception, so a run of the serializer is the list of the chunks
  written and the exception that ended it, if any. The error handler is always \<open>strict\<close>,
  the only one the library uses.
\<close>

unbundle bit_operations_syntax

subsection \<open>Writes to an output adapter\<close>

type_synonym writes = "string list \<times> json_exc option"

definition w_none :: writes where "w_none = ([], None)"

definition w_chars :: "string \<Rightarrow> writes" where "w_chars s = ([s], None)"

definition w_char :: "char \<Rightarrow> writes" where "w_char c = ([[c]], None)"

definition w_throw :: "json_exc \<Rightarrow> writes" where "w_throw e = ([], Some e)"

definition w_then :: "writes \<Rightarrow> writes \<Rightarrow> writes" where
  "w_then a b = (case snd a of Some e \<Rightarrow> a | None \<Rightarrow> (fst a @ fst b, snd b))"

definition w_seq :: "writes list \<Rightarrow> writes" where
  "w_seq ws = foldr w_then ws w_none"

text \<open>What a string adapter ends up with.\<close>

definition w_text :: "writes \<Rightarrow> json_exc + string" where
  "w_text w = (case snd w of None \<Rightarrow> Inr (concat (fst w)) | Some e \<Rightarrow> Inl e)"

lemma w_text_simps [simp]:
  "w_text w_none = Inr []"
  "w_text (w_chars s) = Inr s"
  "w_text (w_char c) = Inr [c]"
  "w_text (w_throw e) = Inl e"
  by (simp_all add: w_text_def w_none_def w_chars_def w_char_def w_throw_def)

lemma w_text_then [simp]:
  "w_text (w_then a b) = rbind (w_text a) (\<lambda>x. rbind (w_text b) (\<lambda>y. Inr (x @ y)))"
  by (cases "snd a"; cases "snd b") (simp_all add: w_text_def w_then_def)

lemma w_text_seq [simp]:
  "w_text (w_seq []) = Inr []"
  "w_text (w_seq (w # ws)) = rbind (w_text w) (\<lambda>x. rbind (w_text (w_seq ws)) (\<lambda>y. Inr (x @ y)))"
  by (simp_all add: w_seq_def)

subsection \<open>Strings\<close>

abbreviation backslash :: char where "backslash \<equiv> CHR 0x5C"

abbreviation quote :: char where "quote \<equiv> CHR 0x22"

definition hex_digit :: "nat \<Rightarrow> char" where
  "hex_digit n = (if n < 10 then char_of (48 + n) else char_of (87 + n))"

definition hex4 :: "nat \<Rightarrow> string" where
  "hex4 n = [hex_digit (n div 4096 mod 16), hex_digit (n div 256 mod 16),
             hex_digit (n div 16 mod 16), hex_digit (n mod 16)]"

definition u_escape :: "16 word \<Rightarrow> string" where
  "u_escape w = backslash # CHR ''u'' # hex4 (unat w)"

definition simple_escape :: "32 word \<Rightarrow> char option" where
  "simple_escape cp =
     (if cp = 0x08 then Some CHR ''b'' else if cp = 0x09 then Some CHR ''t''
      else if cp = 0x0A then Some CHR ''n'' else if cp = 0x0C then Some CHR ''f''
      else if cp = 0x0D then Some CHR ''r'' else if cp = 0x22 then Some quote
      else if cp = 0x5C then Some backslash else None)"

definition needs_u_escape :: "bool \<Rightarrow> 32 word \<Rightarrow> bool" where
  "needs_u_escape ensure_ascii cp \<longleftrightarrow> cp \<le> 0x1F \<or> (ensure_ascii \<and> 0x7F \<le> cp)"

text \<open>
  The bytes appended to the staging buffer when code point \<open>cp\<close>, whose last byte is
  \<open>c\<close>, has been accepted; with the terminating NUL that \<open>snprintf\<close> adds as a flag.
\<close>

definition escape_unit :: "bool \<Rightarrow> 32 word \<Rightarrow> char \<Rightarrow> string \<times> bool" where
  "escape_unit ensure_ascii cp c =
     (case simple_escape cp of
        Some e \<Rightarrow> ([backslash, e], False)
      | None \<Rightarrow>
          if needs_u_escape ensure_ascii cp then
            (if cp \<le> 0xFFFF then (u_escape (ucast cp), True)
             else (u_escape (ucast (0xD7C0 + drop_bit 10 cp)) @ u_escape (ucast (0xDC00 + (cp AND 0x3FF))), True))
          else ([c], False))"

text \<open>Storing into \<open>string_buffer\<close>, a \<open>std::array\<close> of 512 bytes.\<close>

definition sb_append :: "string \<Rightarrow> string \<times> bool \<Rightarrow> json_exc + string" where
  "sb_append buf u =
     (if length buf + length (fst u) + (if snd u then 1 else 0) \<le> 512 then Inr (buf @ fst u)
      else Inl Undefined_behaviour)"

fun dump_escaped_from :: "bool \<Rightarrow> nat \<Rightarrow> 32 word \<Rightarrow> string \<Rightarrow> string \<Rightarrow> writes" where
  "dump_escaped_from ea state codep buf [] =
     (if state = UTF8_ACCEPT then (if buf \<noteq> [] then w_chars buf else w_none)
      else w_throw (Type_error 316))"
| "dump_escaped_from ea state codep buf (c # s) =
     (let (state', codep') = utf8_decode state codep (byte c) in
      if state' = UTF8_ACCEPT then
        (case sb_append buf (escape_unit ea codep' c) of
           Inl e \<Rightarrow> w_throw e
         | Inr buf' \<Rightarrow>
             if 512 - length buf' < 13 then w_then (w_chars buf') (dump_escaped_from ea state' codep' [] s)
             else dump_escaped_from ea state' codep' buf' s)
      else if state' = UTF8_REJECT then w_throw (Type_error 316)
      else
        (case (if ea then Inr buf else sb_append buf ([c], False)) of
           Inl e \<Rightarrow> w_throw e
         | Inr buf' \<Rightarrow> dump_escaped_from ea state' codep' buf' s))"

definition dump_escaped :: "string \<Rightarrow> bool \<Rightarrow> writes" where
  "dump_escaped s ensure_ascii = dump_escaped_from ensure_ascii UTF8_ACCEPT 0 [] s"

subsection \<open>Integers\<close>

function count_digits_from :: "nat \<Rightarrow> nat \<Rightarrow> nat" where
  "count_digits_from x n =
     (if x < 10 then n else if x < 100 then n + 1 else if x < 1000 then n + 2
      else if x < 10000 then n + 3 else count_digits_from (x div 10000) (n + 4))"
  by pat_completeness auto
termination
  by (relation "measure fst") auto

definition count_digits :: "nat \<Rightarrow> nat" where
  "count_digits x = count_digits_from x 1"

definition digits_to_99 :: "string list" where
  "digits_to_99 = [
    ''00'',''01'',''02'',''03'',''04'',''05'',''06'',''07'',''08'',''09'',
    ''10'',''11'',''12'',''13'',''14'',''15'',''16'',''17'',''18'',''19'',
    ''20'',''21'',''22'',''23'',''24'',''25'',''26'',''27'',''28'',''29'',
    ''30'',''31'',''32'',''33'',''34'',''35'',''36'',''37'',''38'',''39'',
    ''40'',''41'',''42'',''43'',''44'',''45'',''46'',''47'',''48'',''49'',
    ''50'',''51'',''52'',''53'',''54'',''55'',''56'',''57'',''58'',''59'',
    ''60'',''61'',''62'',''63'',''64'',''65'',''66'',''67'',''68'',''69'',
    ''70'',''71'',''72'',''73'',''74'',''75'',''76'',''77'',''78'',''79'',
    ''80'',''81'',''82'',''83'',''84'',''85'',''86'',''87'',''88'',''89'',
    ''90'',''91'',''92'',''93'',''94'',''95'',''96'',''97'',''98'',''99'']"

text \<open>The loop that writes two digits at a time in front of \<open>ptr\<close>.\<close>

function fill_digits :: "nat \<Rightarrow> nat \<Rightarrow> string \<Rightarrow> string" where
  "fill_digits abs_value ptr buf =
     (if 100 \<le> abs_value then
        fill_digits (abs_value div 100) (ptr - 2)
          (buf[ptr - 1 := digits_to_99 ! (abs_value mod 100) ! 1,
               ptr - 2 := digits_to_99 ! (abs_value mod 100) ! 0])
      else if 10 \<le> abs_value then
        buf[ptr - 1 := digits_to_99 ! abs_value ! 1, ptr - 2 := digits_to_99 ! abs_value ! 0]
      else buf[ptr - 1 := char_of (48 + abs_value)])"
  by pat_completeness auto
termination
  by (relation "measure fst") auto

definition remove_sign :: "64 word \<Rightarrow> 64 word" where
  "remove_sign x = - (x + 1) + 1"

text \<open>
  \<open>nb\<close> is the content of \<open>number_buffer\<close> (64 bytes), whatever an earlier call left in it.
\<close>

definition dump_abs :: "string \<Rightarrow> bool \<Rightarrow> 64 word \<Rightarrow> string" where
  "dump_abs nb negative abs_value =
     (let nb' = (if negative then nb[0 := CHR ''-''] else nb);
          n_chars = (if negative then 1 else 0) + count_digits (unat abs_value)
      in take n_chars (fill_digits (unat abs_value) n_chars nb'))"

definition dump_unsigned :: "string \<Rightarrow> 64 word \<Rightarrow> string" where
  "dump_unsigned nb x = (if x = 0 then ''0'' else dump_abs nb False x)"

definition dump_signed :: "string \<Rightarrow> 64 word \<Rightarrow> string" where
  "dump_signed nb x =
     (if x = 0 then ''0''
      else if sint x < 0 then dump_abs nb True (remove_sign x) else dump_abs nb False x)"

subsection \<open>The recursive dump\<close>

text \<open>
  The conversion of a finite double to text is the argument \<open>fc\<close>, which \<open>float_text\<close> of the
  theory \<open>Dtoa\<close> models; the check for infinities and NaN around it is part of the model. The
  indentation character is the blank, as in every call of the library.
\<close>

type_synonym float_printer = "64 word \<Rightarrow> string"

definition fresh_number_buffer :: string where
  "fresh_number_buffer = replicate 64 (char_of (0 :: nat))"

definition dump_float :: "float_printer \<Rightarrow> 64 word \<Rightarrow> writes" where
  "dump_float fc x = (if \<not> f64_isfinite x then w_chars ''null'' else w_chars (fc x))"

definition indent_chars :: "nat \<Rightarrow> writes" where
  "indent_chars n = w_chars (replicate n CHR '' '')"

fun dump_bytes :: "bool \<Rightarrow> 8 word list \<Rightarrow> writes" where
  "dump_bytes pretty [] = w_none"
| "dump_bytes pretty [b] = w_chars (dump_unsigned fresh_number_buffer (ucast b))"
| "dump_bytes pretty (b # bs) =
     w_seq [w_chars (dump_unsigned fresh_number_buffer (ucast b)),
            if pretty then w_chars '', '' else w_char CHR '','', dump_bytes pretty bs]"

definition dump_subtype :: "64 word option \<Rightarrow> writes" where
  "dump_subtype st = (case st of None \<Rightarrow> w_chars ''null''
                      | Some t \<Rightarrow> w_chars (dump_unsigned fresh_number_buffer t))"

definition dump_binary :: "bool \<Rightarrow> nat \<Rightarrow> nat \<Rightarrow> 8 word list \<Rightarrow> 64 word option \<Rightarrow> writes" where
  "dump_binary pretty step ind bs st =
     (if pretty then
        w_seq [w_chars (CHR ''{'' # ''\<newline>''), indent_chars (ind + step),
               w_chars (quote # ''bytes'' @ quote # '': [''), dump_bytes True bs,
               w_chars (''],'' @ ''\<newline>''), indent_chars (ind + step),
               w_chars (quote # ''subtype'' @ quote # '': ''), dump_subtype st,
               w_chars ''\<newline>'', indent_chars ind, w_char CHR ''}'']
      else
        w_seq [w_chars (CHR ''{'' # quote # ''bytes'' @ quote # '':[''), dump_bytes False bs,
               w_chars (''],'' @ quote # ''subtype'' @ quote # '':''), dump_subtype st,
               w_char CHR ''}''])"

definition dump_key :: "bool \<Rightarrow> bool \<Rightarrow> string \<Rightarrow> writes" where
  "dump_key pretty ea k =
     w_seq [w_char quote, dump_escaped k ea, w_chars (quote # (if pretty then '': '' else '':''))]"

fun dump :: "float_printer \<Rightarrow> bool \<Rightarrow> bool \<Rightarrow> nat \<Rightarrow> nat \<Rightarrow> json \<Rightarrow> writes"
  and dump_members :: "float_printer \<Rightarrow> bool \<Rightarrow> bool \<Rightarrow> nat \<Rightarrow> nat \<Rightarrow> (string \<times> json) list \<Rightarrow> writes"
  and dump_elements :: "float_printer \<Rightarrow> bool \<Rightarrow> bool \<Rightarrow> nat \<Rightarrow> nat \<Rightarrow> json list \<Rightarrow> writes" where
  "dump fc pretty ea step ind (JObj m) =
     (if m = [] then w_chars ''{}''
      else if pretty then
        w_seq [w_chars (''{'' @ ''\<newline>''), dump_members fc pretty ea step (ind + step) m,
               w_chars ''\<newline>'', indent_chars ind, w_char CHR ''}'']
      else w_seq [w_char CHR ''{'', dump_members fc pretty ea step ind m, w_char CHR ''}''])"
| "dump fc pretty ea step ind (JArr xs) =
     (if xs = [] then w_chars ''[]''
      else if pretty then
        w_seq [w_chars (''['' @ ''\<newline>''), dump_elements fc pretty ea step (ind + step) xs,
               w_chars ''\<newline>'', indent_chars ind, w_char CHR '']'']
      else w_seq [w_char CHR ''['', dump_elements fc pretty ea step ind xs, w_char CHR '']''])"
| "dump fc pretty ea step ind (JStr s) = w_seq [w_char quote, dump_escaped s ea, w_char quote]"
| "dump fc pretty ea step ind (JBin bs st) = dump_binary pretty step ind bs st"
| "dump fc pretty ea step ind (JBool b) = (if b then w_chars ''true'' else w_chars ''false'')"
| "dump fc pretty ea step ind (JInt w) = w_chars (dump_signed fresh_number_buffer w)"
| "dump fc pretty ea step ind (JUInt w) = w_chars (dump_unsigned fresh_number_buffer w)"
| "dump fc pretty ea step ind (JFloat w) = dump_float fc w"
| "dump fc pretty ea step ind JDiscarded = w_chars ''<discarded>''"
| "dump fc pretty ea step ind JNull = w_chars ''null''"
| "dump_members fc pretty ea step ind [] = w_none"
| "dump_members fc pretty ea step ind ((k, v) # m) =
     w_seq [if pretty then indent_chars ind else w_none, dump_key pretty ea k,
            dump fc pretty ea step ind v,
            if m = [] then w_none else if pretty then w_chars ('','' @ ''\<newline>'') else w_char CHR '','',
            dump_members fc pretty ea step ind m]"
| "dump_elements fc pretty ea step ind [] = w_none"
| "dump_elements fc pretty ea step ind (x # xs) =
     w_seq [if pretty then indent_chars ind else w_none,
            dump fc pretty ea step ind x,
            if xs = [] then w_none else if pretty then w_chars ('','' @ ''\<newline>'') else w_char CHR '','',
            dump_elements fc pretty ea step ind xs]"

text \<open>\<open>os << j\<close> on a stream of width 0, and \<open>j.dump()\<close> with its default arguments.\<close>

definition stream_json :: "float_printer \<Rightarrow> json \<Rightarrow> writes" where
  "stream_json fc j = dump fc False False 0 0 j"

definition json_dump :: "float_printer \<Rightarrow> json \<Rightarrow> json_exc + string" where
  "json_dump fc j = w_text (dump fc False False 0 0 j)"

end
