(* ===== verification/Integer_Text.thy ===== *)
theory Integer_Text
  imports Serializer
begin

text \<open>
  Correctness of the serializer's integer printer: the digit count computed first is the
  number of digits, the backward fill writes exactly the decimal digits, and no byte left
  in \<open>number_buffer\<close> by an earlier call reaches the output.
\<close>

text \<open>The decimal notation, the reference.\<close>

fun dec :: "nat \<Rightarrow> string" where
  "dec n = (if n < 10 then [digit_char n] else dec (n div 10) @ [digit_char (n mod 10)])"

declare dec.simps [simp del]
declare count_digits_from.simps [simp del]
declare fill_digits.simps [simp del]

definition dec_int :: "int \<Rightarrow> string" where
  "dec_int i = (if i < 0 then CHR ''-'' # dec (nat (- i)) else dec (nat i))"

lemma dec_small: "n < 10 \<Longrightarrow> dec n = [digit_char n]"
  by (simp add: dec.simps [of n])

lemma dec_step: "10 \<le> n \<Longrightarrow> dec n = dec (n div 10) @ [digit_char (n mod 10)]"
  by (simp add: dec.simps [of n])

lemma dec_nonempty [simp]: "dec n \<noteq> []"
  by (simp add: dec.simps [of n])

lemma dec_digits: "c \<in> set (dec n) \<Longrightarrow> is_digit c"
proof (induction n rule: dec.induct)
  case (1 n)
  then show ?case
    by (cases "n < 10") (auto simp: dec_small dec_step)
qed

lemma dec_100: "100 \<le> n \<Longrightarrow> dec n = dec (n div 100) @ [digit_char (n mod 100 div 10), digit_char (n mod 10)]"
proof -
  assume "100 \<le> n"
  moreover have "n div 10 mod 10 = n mod 100 div 10"
    using mod_mult2_eq [of n 10 10] by simp
  ultimately show ?thesis
    by (simp add: dec_step [of n] dec_step [of "n div 10"] div_mult2_eq [symmetric])
qed

lemma dec_two: "10 \<le> n \<Longrightarrow> n < 100 \<Longrightarrow> dec n = [digit_char (n div 10), digit_char (n mod 10)]"
  by (simp add: dec_step [of n] dec_small)

lemma length_dec_div: "10 \<le> n \<Longrightarrow> length (dec n) = Suc (length (dec (n div 10)))"
  by (simp add: dec_step)

lemma length_dec_le: "n < 10 ^ k \<Longrightarrow> 0 < k \<Longrightarrow> length (dec n) \<le> k"
proof (induction k arbitrary: n)
  case (Suc k)
  show ?case
  proof (cases "n < 10")
    case False
    with Suc.prems have "n div 10 < 10 ^ k" by (auto simp: less_mult_imp_div_less mult.commute)
    moreover from False Suc.prems have "0 < k" by (cases k) auto
    ultimately show ?thesis using Suc.IH [of "n div 10"] False by (simp add: length_dec_div)
  qed (simp add: dec_small)
qed simp

subsection \<open>The digit count\<close>

lemma count_digits_from: "count_digits_from x n + 1 = n + length (dec x)"
proof (induction x n rule: count_digits_from.induct)
  case (1 x n)
  consider "x < 10" | "10 \<le> x" "x < 100" | "100 \<le> x" "x < 1000" | "1000 \<le> x" "x < 10000"
    | "10000 \<le> x"
    by linarith
  then show ?case
  proof cases
    case 5
    then have "length (dec x) = length (dec (x div 10000)) + 4"
      by (simp add: length_dec_div div_mult2_eq [symmetric])
    with 5 show ?thesis using "1.IH" by (simp add: count_digits_from.simps [of x n])
  qed (simp_all add: count_digits_from.simps [of x n] length_dec_div dec_small
        div_mult2_eq [symmetric])
qed

lemma count_digits_dec: "count_digits x = length (dec x)"
  using count_digits_from [of x 1] by (simp add: count_digits_def)

subsection \<open>The backward fill\<close>

lemma digits_to_99_table: "digits_to_99 = map (\<lambda>i. [digit_char (i div 10), digit_char (i mod 10)]) [0..<100]"
  by code_simp

lemma digits_to_99_nth:
  "i < 100 \<Longrightarrow> digits_to_99 ! i = [digit_char (i div 10), digit_char (i mod 10)]"
  by (simp add: digits_to_99_table)

lemma store_two:
  assumes "p' = Suc p" "p' < length buf"
  shows "drop p (buf[p' := b, p := a]) = a # b # drop (Suc p') buf"
    and "k \<le> p \<Longrightarrow> take k (buf[p' := b, p := a]) = take k buf"
  using assms by (simp_all add: Cons_nth_drop_Suc [symmetric] list_update_swap)

lemma fill_digits:
  "length (dec a) \<le> p \<Longrightarrow> p \<le> length buf \<Longrightarrow>
   fill_digits a p buf = take (p - length (dec a)) buf @ dec a @ drop p buf"
proof (induction a p buf rule: fill_digits.induct)
  case (1 a p buf)
  consider "100 \<le> a" | "10 \<le> a" "a < 100" | "a < 10" by linarith
  then show ?case
  proof cases
    case 1
    have "2 \<le> p" using "1.prems"(1) by (simp add: dec_100 [OF 1])
    then obtain q where q: "p = Suc (Suc q)" using le_Suc_ex [of 2 p] by auto
    let ?buf = "buf[Suc q := digit_char (a mod 10), q := digit_char (a mod 100 div 10)]"
    have len: "length (dec a) = length (dec (a div 100)) + 2" using 1 by (simp add: dec_100)
    then have "fill_digits a p buf =
        take (q - length (dec (a div 100))) ?buf @ dec (a div 100) @ drop q ?buf"
      using 1 "1.prems" "1.IH" q
      by (simp add: fill_digits.simps [of a "Suc (Suc q)" buf] digits_to_99_nth mod_mod_cancel)
    then show ?thesis
      using 1 "1.prems" len q store_two [of "Suc q" q buf] by (simp add: dec_100)
  next
    case 2
    have "2 \<le> p" using "1.prems"(1) by (simp add: dec_two [OF 2])
    then obtain q where q: "p = Suc (Suc q)" using le_Suc_ex [of 2 p] by auto
    have "fill_digits a p buf = take q (fill_digits a p buf) @ drop q (fill_digits a p buf)" by simp
    also have "\<dots> = take (p - length (dec a)) buf @ dec a @ drop p buf"
      using 2 q "1.prems" store_two [of "Suc q" q buf]
      by (simp add: fill_digits.simps [of a "Suc (Suc q)" buf] dec_two digits_to_99_nth)
    finally show ?thesis .
  next
    case 3
    then have p: "p - 1 < length buf" "Suc (p - 1) = p" using "1.prems" by (auto simp: dec_small)
    then show ?thesis using 3
      by (simp add: fill_digits.simps [of a p buf] dec_small upd_conv_take_nth_drop digit_char_def)
  qed
qed

lemma unat_less_20: "unat (x :: 64 word) < 10 ^ 20"
proof -
  have "unat x < 2 ^ 64" using unsigned_less [of x] by simp
  then show ?thesis by simp
qed

lemma dump_abs_dec:
  assumes "length nb = 64"
  shows "dump_abs nb negative x = (if negative then ''-'' else []) @ dec (unat x)"
proof -
  have len: "length (dec (unat x)) \<le> 20" using unat_less_20 by (rule length_dec_le) simp
  have nb: "nb \<noteq> []" using assms by auto
  show ?thesis
  proof (cases negative)
    case True
    have "take 1 (nb[0 := CHR ''-'']) = ''-''" using nb by (cases nb) auto
    then show ?thesis using True len assms
      by (simp add: dump_abs_def Let_def count_digits_dec fill_digits)
  next
    case False
    then show ?thesis using len assms
      by (simp add: dump_abs_def Let_def count_digits_dec fill_digits)
  qed
qed

lemma dec_0 [simp]: "dec 0 = ''0''"
  by (simp add: dec_small digit_char_def) code_simp

lemma dump_unsigned_dec: "length nb = 64 \<Longrightarrow> dump_unsigned nb x = dec (unat x)"
  by (simp add: dump_unsigned_def dump_abs_dec)

lemma uint_of_sint_64: "uint (x :: 64 word) = (if sint x < 0 then sint x + 2 ^ 64 else sint x)"
proof -
  have u: "uint x = sint x mod 2 ^ 64" by (simp add: uint_sint take_bit_eq_mod)
  have b: "- (2 ^ 63) \<le> sint x" "sint x < 2 ^ 63" using sint_ge [of x] sint_lt [of x] by simp_all
  show ?thesis
  proof (cases "sint x < 0")
    case True
    have "sint x mod 2 ^ 64 = (sint x + 2 ^ 64) mod 2 ^ 64" by simp
    also have "\<dots> = sint x + 2 ^ 64" using True b by (intro mod_pos_pos_trivial) auto
    finally show ?thesis using True u by simp
  next
    case False
    then show ?thesis using u b by simp
  qed
qed

lemma unat_remove_sign: "sint x < 0 \<Longrightarrow> unat (remove_sign x) = nat (- sint x)"
proof -
  assume neg: "sint x < 0"
  then have u: "uint x = sint x + 2 ^ 64" by (simp add: uint_of_sint_64)
  have "remove_sign x = - x" by (simp add: remove_sign_def)
  then have "uint (remove_sign x) = (- uint x) mod 2 ^ 64" by (simp add: uint_word_ariths)
  also have "(- uint x) mod 2 ^ 64 = (- uint x + 2 ^ 64) mod 2 ^ 64" by (rule mod_add_self2 [symmetric])
  also have "- uint x + 2 ^ 64 = - sint x" using u by simp
  also have "- sint x mod 2 ^ 64 = - sint x"
    using neg sint_ge [of x] by (intro mod_pos_pos_trivial) simp_all
  finally show ?thesis by (simp add: unat_eq_nat_uint)
qed

lemma unat_nonneg: "\<not> sint (x :: 64 word) < 0 \<Longrightarrow> unat x = nat (sint x)"
  by (simp add: uint_of_sint_64 unat_eq_nat_uint)

lemma dump_signed_dec:
  assumes "length nb = 64"
  shows "dump_signed nb x = dec_int (sint x)"
proof (cases "sint x < 0")
  case True
  then have "x \<noteq> 0" by auto
  then show ?thesis
    using True by (simp add: dump_signed_def dump_abs_dec [OF assms] dec_int_def unat_remove_sign)
next
  case False
  then show ?thesis
    by (simp add: dump_signed_def dump_abs_dec [OF assms] dec_int_def unat_nonneg)
qed

end
