(* ===== verification/Escaping.thy ===== *)
theory Escaping
  imports Integer_Text
begin

text \<open>
  Correctness of \<open>dump_escaped\<close>: on well-formed UTF-8 it writes the byte-wise escaping of
  the string, on anything else it throws \<open>type_error.316\<close>; the 512-byte staging buffer
  never overflows, and the flushes in between do not show in the text.
\<close>

unbundle bit_operations_syntax

text \<open>The reference: only control characters, the quote and the backslash are escaped.\<close>

definition escape_byte :: "char \<Rightarrow> string" where
  "escape_byte c =
     (case simple_escape (of_nat (byte c)) of
        Some e \<Rightarrow> [backslash, e]
      | None \<Rightarrow> if byte c < 32 then backslash # CHR ''u'' # hex4 (byte c) else [c])"

definition escape :: "string \<Rightarrow> string" where
  "escape s = concat (map escape_byte s)"

lemma escape_simps [simp]: "escape [] = []" "escape (c # s) = escape_byte c @ escape s"
  by (simp_all add: escape_def)

subsection \<open>The code point accumulator\<close>

lemma drop_bit_255: "drop_bit t (0xFF :: 32 word) = mask (8 - t)"
proof -
  have "(0xFF :: 32 word) = mask 8" by (simp add: mask_eq_exp_minus_1)
  moreover have "drop_bit t (mask 8 :: 32 word) = mask (8 - t)"
    by (rule bit_word_eqI) (auto simp: bit_simps)
  ultimately show ?thesis by metis
qed

lemma decode_cp_lead:
  assumes "b < 256" "t \<le> 8"
  shows "unat (drop_bit t 0xFF AND of_nat b :: 32 word) = b mod 2 ^ (8 - t)"
proof -
  have "drop_bit t 0xFF AND of_nat b = (take_bit (8 - t) (of_nat b) :: 32 word)"
    by (simp add: drop_bit_255 take_bit_eq_mask and.commute)
  moreover have "unat (of_nat b :: 32 word) = b"
    using assms by (simp add: unat_of_nat)
  ultimately show ?thesis
    by (simp add: unsigned_take_bit_eq) (simp add: take_bit_eq_mod)
qed

lemma decode_cp_cont:
  assumes "b < 256" "unat cp < 2 ^ 15"
  shows "unat ((of_nat b AND 0x3F) OR push_bit 6 cp :: 32 word) = b mod 64 + 64 * unat cp"
proof -
  have "(of_nat b AND 0x3F :: 32 word) = take_bit 6 (of_nat b)"
    by (simp add: take_bit_eq_mask mask_eq_exp_minus_1)
  moreover have "take_bit 6 (of_nat b) OR push_bit 6 cp = take_bit 6 (of_nat b) + push_bit 6 cp"
    by (rule disjunctive_add [symmetric]) (auto simp: bit_simps)
  moreover have "unat (take_bit 6 (of_nat b) :: 32 word) = b mod 64"
    using assms by (simp add: unsigned_take_bit_eq unat_of_nat) (simp add: take_bit_eq_mod)
  moreover have "unat (push_bit 6 cp) = 64 * unat cp"
    using assms by (simp add: push_bit_eq_mult unat_word_ariths mult.commute)
  ultimately show ?thesis
    using assms mod_less_divisor [of 64 b] by (simp add: unat_word_ariths)
qed

text \<open>What is known of the accumulator in each state.\<close>

definition cp_ok :: "nat \<Rightarrow> nat \<Rightarrow> bool" where
  "cp_ok st n \<longleftrightarrow>
     (st = 2 \<longrightarrow> 2 \<le> n \<and> n < 2 ^ 15) \<and> (st = 3 \<longrightarrow> 1 \<le> n \<and> n < 2 ^ 9) \<and>
     (st = 4 \<longrightarrow> n < 16) \<and> (st = 5 \<longrightarrow> 1 \<le> n \<and> n < 16) \<and> (st = 6 \<longrightarrow> n < 8) \<and>
     (st = 7 \<longrightarrow> 1 \<le> n \<and> n < 8) \<and> (st = 8 \<longrightarrow> 1 \<le> n \<and> n < 8)"

lemma utf8_decode_cp_lead:
  "b < 256 \<Longrightarrow> snd (utf8_decode 0 cp b) = drop_bit (utf8_class b) 0xFF AND of_nat b"
  by (simp add: utf8_decode_def Let_def UTF8_ACCEPT_def utf8d_class)

lemma lead_cp:
  assumes b: "b < 256" and d: "utf8_decode 0 cp b = (st', cp')" "st' \<noteq> 1"
  shows "st' = 0 \<Longrightarrow> b < 0x80 \<and> unat cp' = b" and "cp_ok st' (unat cp')"
proof -
  have st': "st' = (if b < 0x80 then 0 else if b < 0xC2 then 1 else if b < 0xE0 then 2
      else if b = 0xE0 then 4 else if b = 0xED then 5 else if b < 0xF0 then 3
      else if b = 0xF0 then 6 else if b < 0xF4 then 7 else if b = 0xF4 then 8 else 1)"
    using utf8_lead_state [OF b, of cp] d by simp
  have cp': "unat cp' = (if 8 \<le> utf8_class b then 0 else b mod 2 ^ (8 - utf8_class b))"
    using utf8_decode_cp_lead [OF b, of cp] d decode_cp_lead [OF b, of "utf8_class b"]
    by (simp add: drop_bit_255)
  show "st' = 0 \<Longrightarrow> b < 0x80 \<and> unat cp' = b"
    using b by (auto simp: st' cp' utf8_class_def split: if_splits)
  have mod: "b mod 64 = b - 192" if "192 \<le> b" using that b by (simp add: mod_if)
  have mod32: "b mod 32 = b - 224" if "224 \<le> b" using that b by (simp add: mod_if)
  have mod4: "b mod 4 = b - 240" if "240 \<le> b" "b < 244" using that by presburger
  show "cp_ok st' (unat cp')"
    using b d(2) by (auto simp: st' cp' utf8_class_def cp_ok_def mod mod32 mod4 split: if_splits)
qed

lemma cont_cp:
  assumes b: "b < 256" and st: "st \<in> {2..8}" and ok: "cp_ok st (unat cp)"
    and r: "fst (hd (utf8_expect st)) \<le> b" "b \<le> snd (hd (utf8_expect st))"
    and d: "utf8_decode st cp b = (st', cp')"
  shows "st' = 0 \<Longrightarrow> 0x80 \<le> unat cp'" and "cp_ok st' (unat cp')"
proof -
  have st': "st' = (if st = 2 then 0 else if st < 6 then 2 else 3)"
    using utf8_cont [OF b st, of cp] r d by simp
  have cases: "st = 2 \<or> st = 3 \<or> st = 4 \<or> st = 5 \<or> st = 6 \<or> st = 7 \<or> st = 8" using st by auto
  then have lt: "unat cp < 2 ^ 15" using ok by (auto simp: cp_ok_def)
  have "cp' = (of_nat b AND 0x3F) OR push_bit 6 cp"
    using d st by (auto simp: utf8_decode_def Let_def UTF8_ACCEPT_def)
  then obtain d where cp': "unat cp' = d + 64 * unat cp" and d: "d = b mod 64" "d < 64"
    using decode_cp_cont [OF b lt] by simp
  have st4: "st = 4 \<Longrightarrow> 32 \<le> d" and st6: "st = 6 \<Longrightarrow> 16 \<le> d"
    using r by (auto simp: d utf8_expect_def mod_if)
  show "st' = 0 \<Longrightarrow> 0x80 \<le> unat cp'"
    using ok by (auto simp: st' cp' cp_ok_def split: if_splits)
  show "cp_ok st' (unat cp')"
    using cases ok d(2) st4 st6 by (elim disjE) (simp_all add: st' cp' cp_ok_def)
qed

subsection \<open>One accepted code point\<close>

lemma simple_escape_high: "0x80 \<le> unat cp \<Longrightarrow> simple_escape cp = None"
  by (auto simp: simple_escape_def)

lemma escape_unit_high: "0x80 \<le> unat cp \<Longrightarrow> escape_unit False cp c = ([c], False)"
  by (simp add: escape_unit_def simple_escape_high needs_u_escape_def word_le_nat_alt)

lemma escape_unit_ascii:
  assumes "byte c < 0x80" "unat cp = byte c"
  shows "fst (escape_unit False cp c) = escape_byte c"
proof -
  have w: "unat (of_nat (byte c) :: 32 word) = byte c" "unat (of_nat (byte c) :: 16 word) = byte c"
    using assms(1) by (simp_all add: unat_of_nat)
  have cp: "cp = of_nat (byte c)" using assms(2) w(1) by (intro unsigned_word_eqI [where 'a = nat]) simp
  have "ucast (of_nat (byte c) :: 32 word) = (of_nat (byte c) :: 16 word)"
    using assms(1) by (intro unsigned_word_eqI [where 'a = nat]) (simp add: w unsigned_ucast_eq take_bit_eq_mod)
  then show ?thesis
    using w by (simp add: escape_unit_def escape_byte_def cp needs_u_escape_def u_escape_def word_le_nat_alt
        less_Suc_eq_le [symmetric] split: option.split)
qed

lemma escape_byte_length: "length (escape_byte c) \<le> 6"
  by (simp add: escape_byte_def hex4_def split: option.split)

lemma escape_byte_high: "0x80 \<le> byte c \<Longrightarrow> escape_byte c = [c]"
proof -
  assume "0x80 \<le> byte c"
  moreover have "unat (of_nat (byte c) :: 32 word) = byte c"
    by (simp add: unat_of_nat byte_mod)
  ultimately show ?thesis by (simp add: escape_byte_def simple_escape_high)
qed

subsection \<open>The loop\<close>

lemma follow_Cons:
  "rs \<noteq> [] \<Longrightarrow> follow rs (c # s) =
     (if fst (hd rs) \<le> byte c \<and> byte c \<le> snd (hd rs) then follow (tl rs) s else None)"
  by (cases rs) auto

lemma dump_escaped_from_correct:
  assumes "st = 0 \<or> st \<in> {2..8}" "cp_ok st (unat cp)"
    and "length buf + length (utf8_expect st) \<le> (if st = 0 then 499 else 503)"
  shows "w_text (dump_escaped_from False st cp buf s) =
    (case follow (utf8_expect st) s of
       None \<Rightarrow> Inl (Type_error 316)
     | Some s' \<Rightarrow> if utf8_valid s' then Inr (buf @ escape s) else Inl (Type_error 316))"
  using assms
proof (induction s arbitrary: st cp buf)
  case Nil
  then show ?case
    by (auto simp: UTF8_ACCEPT_def utf8_expect_def)
next
  case (Cons c s)
  let ?b = "byte c"
  obtain st' cp' where d: "utf8_decode st cp ?b = (st', cp')" by force
  show ?case
  proof (cases "st = 0")
    case True
    have exp0: "utf8_expect 0 = []" by (simp add: utf8_expect_def)
    have tail: "utf8_tail ?b = (if st' = 1 then None else Some (utf8_expect st'))"
      using utf8_lead(2) [of ?b cp] d True by simp
    have st'9: "st' < 9" using utf8_lead(1) [of ?b cp] d True by simp
    consider "st' = 1" | "st' = 0" | "st' \<in> {2..8}" using st'9 by fastforce
    then show ?thesis
    proof cases
      case 1
      then show ?thesis using True d tail exp0
        by (simp add: UTF8_ACCEPT_def UTF8_REJECT_def)
    next
      case 2
      then have b: "?b < 0x80" "unat cp' = ?b" using lead_cp(1) [of ?b cp st' cp'] d True by auto
      have len: "length buf + length (escape_byte c) + 1 \<le> 512"
        using Cons.prems(3) True escape_byte_length [of c] by simp
      let ?u = "escape_unit False cp' c"
      have sb: "sb_append buf ?u = Inr (buf @ escape_byte c)"
        using len escape_unit_ascii [OF b] by (auto simp: sb_append_def)
      have IH: "w_text (dump_escaped_from False 0 cp' buf' s) =
          (if utf8_valid s then Inr (buf' @ escape s) else Inl (Type_error 316))" if "length buf' \<le> 499" for buf'
        using Cons.IH [of 0 cp' buf'] that by (simp add: exp0 cp_ok_def)
      show ?thesis
        using 2 True d tail exp0 sb IH [of "[]"] IH [of "buf @ escape_byte c"]
        by (auto simp: UTF8_ACCEPT_def)
    next
      case 3
      have "length (utf8_expect st') \<le> 3" by (simp add: utf8_expect_def)
      moreover have sb: "sb_append buf ([c], False) = Inr (buf @ [c])"
        using Cons.prems(3) True by (simp add: sb_append_def)
      moreover have "cp_ok st' (unat cp')" using lead_cp(2) [of ?b cp st' cp'] d True 3 by auto
      ultimately have IH: "w_text (dump_escaped_from False st' cp' (buf @ [c]) s) =
          (case follow (utf8_expect st') s of None \<Rightarrow> Inl (Type_error 316)
           | Some s' \<Rightarrow> if utf8_valid s' then Inr ((buf @ [c]) @ escape s) else Inl (Type_error 316))"
        using Cons.IH [of st' cp' "buf @ [c]"] 3 Cons.prems(3) True by auto
      have high: "0x80 \<le> ?b"
        using 3 utf8_lead_state [of ?b cp] d True by (auto split: if_splits)
      show ?thesis
        using 3 True d tail exp0 sb IH high
        by (auto simp: UTF8_ACCEPT_def UTF8_REJECT_def escape_byte_high split: option.split)
    qed
  next
    case False
    then have st: "st \<in> {2..8}" using Cons.prems(1) by simp
    have nonempty: "utf8_expect st \<noteq> []" using utf8_expect_tl(2) [OF st] .
    let ?in = "fst (hd (utf8_expect st)) \<le> ?b \<and> ?b \<le> snd (hd (utf8_expect st))"
    have st': "st' = (if ?in then (if st = 2 then 0 else if st < 6 then 2 else 3) else 1)"
      using utf8_cont [of ?b st cp] st d by simp
    show ?thesis
    proof (cases ?in)
      case False
      then have "st' = 1" "follow (utf8_expect st) (c # s) = None"
        using st' follow_Cons [OF nonempty, of c s] by (simp_all only: if_False)
      then show ?thesis using d by (simp add: UTF8_ACCEPT_def UTF8_REJECT_def)
    next
      case True
      have high: "0x80 \<le> ?b" using True st by (auto simp: utf8_expect_def split: if_splits)
      have ok: "cp_ok st' (unat cp')" "st' = 0 \<Longrightarrow> 0x80 \<le> unat cp'"
        using cont_cp [of ?b st cp st' cp'] st Cons.prems(2) True d by auto
      have tl: "utf8_expect st' = tl (utf8_expect st)"
        using utf8_expect_tl(1) [OF st] st' True by simp
      have len: "length buf + length (utf8_expect st) \<le> 503" using Cons.prems(3) False by simp
      then have len1: "length buf + 1 \<le> 503" using nonempty by (cases "utf8_expect st") auto
      then have sb: "sb_append buf ([c], False) = Inr (buf @ [c])" by (simp add: sb_append_def)
      have st'_cases: "st' = 0 \<or> st' \<in> {2..8}" using st' True by auto
      show ?thesis
      proof (cases "st' = 0")
        case True
        have exp0: "utf8_expect 0 = []" by (simp add: utf8_expect_def)
        have IH: "w_text (dump_escaped_from False 0 cp' buf' s) =
          (if utf8_valid s then Inr (buf' @ escape s) else Inl (Type_error 316))" if "length buf' \<le> 499" for buf'
          using Cons.IH [of 0 cp' buf'] that by (simp add: exp0 cp_ok_def)
        show ?thesis
          using True \<open>?in\<close> d sb ok(2) tl exp0 nonempty high IH [of "[]"] IH [of "buf @ [c]"]
          by (auto simp: UTF8_ACCEPT_def follow_Cons escape_unit_high escape_byte_high)
      next
        case False
        then have "st' \<noteq> 1" "st' \<in> {2..8}" using st'_cases by auto
        moreover have "length (buf @ [c]) + length (utf8_expect st') \<le> 503"
          using len nonempty tl by (cases "utf8_expect st") auto
        ultimately have IH: "w_text (dump_escaped_from False st' cp' (buf @ [c]) s) =
          (case follow (utf8_expect st') s of None \<Rightarrow> Inl (Type_error 316)
           | Some s' \<Rightarrow> if utf8_valid s' then Inr ((buf @ [c]) @ escape s) else Inl (Type_error 316))"
          using Cons.IH [of st' cp' "buf @ [c]"] ok(1) False by auto
        show ?thesis
          using False \<open>st' \<noteq> 1\<close> \<open>?in\<close> d sb IH tl nonempty high
          by (auto simp: UTF8_ACCEPT_def UTF8_REJECT_def follow_Cons escape_byte_high split: option.split)
      qed
    qed
  qed
qed

lemma dump_escaped_correct:
  "w_text (dump_escaped s False) = (if utf8_valid s then Inr (escape s) else Inl (Type_error 316))"
  using dump_escaped_from_correct [of 0 0 "[]" s]
  by (simp add: dump_escaped_def UTF8_ACCEPT_def cp_ok_def utf8_expect_def)

end
