(* ===== verification/Rendering.thy ===== *)
theory Rendering
  imports Escaping
begin

text \<open>
  The compact rendering of a value (\<open>j.dump()\<close>, \<open>os << j\<close>) against a reference: the
  output of the serializer is \<open>render\<close> when every string of the value is well-formed
  UTF-8, and an exception otherwise. The rendering of a value is one line of well-formed
  UTF-8, which is what the newline-delimited framing relies on.
\<close>

fun join :: "string \<Rightarrow> string list \<Rightarrow> string" where
  "join sep [] = []"
| "join sep [x] = x"
| "join sep (x # y # xs) = x @ sep @ join sep (y # xs)"

definition render_string :: "string \<Rightarrow> string" where
  "render_string s = quote # escape s @ [quote]"

definition render_binary :: "8 word list \<Rightarrow> 64 word option \<Rightarrow> string" where
  "render_binary bs st =
     CHR ''{'' # render_string ''bytes'' @ '':['' @ join '','' (map (\<lambda>b. dec (unat b)) bs) @ ''],'' @
     render_string ''subtype'' @ '':'' @ (case st of None \<Rightarrow> ''null'' | Some t \<Rightarrow> dec (unat t)) @ ''}''"

fun render :: "float_printer \<Rightarrow> json \<Rightarrow> string" where
  "render fc (JObj m) = CHR ''{'' # join '','' (map (\<lambda>(k, v). render_string k @ '':'' @ render fc v) m) @ ''}''"
| "render fc (JArr xs) = CHR ''['' # join '','' (map (render fc) xs) @ '']''"
| "render fc (JStr s) = render_string s"
| "render fc (JBin bs st) = render_binary bs st"
| "render fc (JBool b) = (if b then ''true'' else ''false'')"
| "render fc (JInt w) = dec_int (sint w)"
| "render fc (JUInt w) = dec (unat w)"
| "render fc (JFloat w) = (if f64_isfinite w then fc w else ''null'')"
| "render fc JDiscarded = ''<discarded>''"
| "render fc JNull = ''null''"

fun strings_valid :: "json \<Rightarrow> bool" where
  "strings_valid (JObj m) = (\<forall>kv \<in> set m. utf8_valid (fst kv) \<and> strings_valid (snd kv))"
| "strings_valid (JArr xs) = (\<forall>x \<in> set xs. strings_valid x)"
| "strings_valid (JStr s) = utf8_valid s"
| "strings_valid _ = True"

subsection \<open>The serializer against the reference\<close>

lemma fresh_length: "length fresh_number_buffer = 64"
  by (simp add: fresh_number_buffer_def)

lemma join_Cons: "join sep (x # xs) = x @ (if xs = [] then [] else sep @ join sep xs)"
  by (cases xs) auto

lemma unat_ucast_8_64 [simp]: "unat (ucast (b :: 8 word) :: 64 word) = unat b"
  by (simp add: unsigned_ucast_eq take_bit_nat_eq_self order.strict_trans [OF unsigned_less])

lemma dump_bytes_compact: "w_text (dump_bytes False bs) = Inr (join '','' (map (\<lambda>b. dec (unat b)) bs))"
  by (induction bs rule: induct_list012)
     (simp_all add: dump_unsigned_dec [OF fresh_length] join_Cons)

lemma render_string_ascii: "render_string ''bytes'' = quote # ''bytes'' @ [quote]"
  "render_string ''subtype'' = quote # ''subtype'' @ [quote]"
  by code_simp+

lemma dump_binary_compact: "w_text (dump_binary False step ind bs st) = Inr (render_binary bs st)"
  by (simp add: dump_binary_def render_binary_def dump_bytes_compact render_string_ascii dump_subtype_def
      dump_unsigned_dec [OF fresh_length] split: option.split)

lemma dump_key_compact:
  "w_text (dump_key False False k) =
     (if utf8_valid k then Inr (render_string k @ '':'') else Inl (Type_error 316))"
  by (simp add: dump_key_def render_string_def dump_escaped_correct)

lemma dump_compact:
  "w_text (dump fc False False step ind j) =
     (if strings_valid j then Inr (render fc j) else Inl (Type_error 316))"
  and dump_members_compact:
  "w_text (dump_members fc False False step ind m) =
     (if strings_valid (JObj m)
      then Inr (join '','' (map (\<lambda>(k, v). render_string k @ '':'' @ render fc v) m)) else Inl (Type_error 316))"
  and dump_elements_compact:
  "w_text (dump_elements fc False False step ind xs) =
     (if strings_valid (JArr xs) then Inr (join '','' (map (render fc) xs)) else Inl (Type_error 316))"
proof (induction fc "False" "False" step ind j and fc "False" "False" step ind m and fc "False" "False" step ind xs
    rule: dump_dump_members_dump_elements.induct)
qed (auto simp: dump_escaped_correct render_string_def dump_binary_compact dump_key_compact join_Cons
      dump_signed_dec [OF fresh_length] dump_unsigned_dec [OF fresh_length] dump_float_def)

theorem json_dump_render:
  "json_dump fc j = (if strings_valid j then Inr (render fc j) else Inl (Type_error 316))"
  by (simp add: json_dump_def dump_compact)

subsection \<open>One line of well-formed UTF-8\<close>

definition printable :: "string \<Rightarrow> bool" where
  "printable s \<longleftrightarrow> (\<forall>c \<in> set s. 32 \<le> byte c)"

definition ascii :: "string \<Rightarrow> bool" where
  "ascii s \<longleftrightarrow> (\<forall>c \<in> set s. byte c < 128)"

lemma printable_simps [simp]:
  "printable []" "printable (c # s) \<longleftrightarrow> 32 \<le> byte c \<and> printable s"
  "printable (s @ t) \<longleftrightarrow> printable s \<and> printable t"
  by (auto simp: printable_def)

lemma ascii_simps [simp]:
  "ascii []" "ascii (c # s) \<longleftrightarrow> byte c < 128 \<and> ascii s" "ascii (s @ t) \<longleftrightarrow> ascii s \<and> ascii t"
  by (auto simp: ascii_def)

lemma follow_append: "follow rs s = Some s' \<Longrightarrow> follow rs (s @ t) = Some (s' @ t)"
  by (induction rs s rule: follow.induct) (auto split: if_splits)

lemma utf8_valid_append: "utf8_valid s \<Longrightarrow> utf8_valid (s @ t) = utf8_valid t"
proof (induction s rule: utf8_valid.induct)
  case (2 c s)
  then obtain rs s' where rs: "utf8_tail (byte c) = Some rs" "follow rs s = Some s'" "utf8_valid s'"
    by (auto split: option.splits)
  then show ?case using "2.IH" follow_append [OF rs(2), of t] by simp
qed simp

lemma utf8_valid_ascii: "ascii s \<Longrightarrow> utf8_valid s"
  by (induction s) (auto simp: utf8_tail_def)

lemma printable_no_newline: "printable s \<Longrightarrow> CHR ''\<newline>'' \<notin> set s"
  by (auto simp: printable_def dest: bspec)

lemma hex_digit_bounds: "n < 16 \<Longrightarrow> 32 \<le> byte (hex_digit n) \<and> byte (hex_digit n) < 128"
  by (auto simp: hex_digit_def)

lemma hex4_plain: "printable (hex4 n) \<and> ascii (hex4 n)"
  by (simp add: hex4_def hex_digit_bounds)

lemma simple_escape_plain: "simple_escape cp = Some e \<Longrightarrow> 32 \<le> byte e \<and> byte e < 128"
  by (auto simp: simple_escape_def split: if_splits)

lemma escape_byte_printable: "printable (escape_byte c)"
  using hex4_plain by (auto simp: escape_byte_def dest: simple_escape_plain split: option.splits)

lemma escape_byte_ascii: "byte c < 128 \<Longrightarrow> ascii (escape_byte c)"
  using hex4_plain by (auto simp: escape_byte_def dest: simple_escape_plain split: option.splits)

lemma escape_printable: "printable (escape s)"
  by (induction s) (auto simp: escape_byte_printable)

definition high_tail :: "ranges \<Rightarrow> bool" where
  "high_tail rs \<longleftrightarrow> (\<forall>r \<in> set rs. 128 \<le> fst r)"

lemma utf8_tail_high: "utf8_tail b = Some rs \<Longrightarrow> high_tail rs"
  by (auto simp: utf8_tail_def high_tail_def split: if_splits)

lemma follow_escape: "follow rs s = Some s' \<Longrightarrow> high_tail rs \<Longrightarrow> follow rs (escape s) = Some (escape s')"
  by (induction rs s rule: follow.induct)
     (auto simp: high_tail_def escape_byte_high split: if_splits)

lemma escape_valid: "utf8_valid s \<Longrightarrow> utf8_valid (escape s)"
proof (induction s rule: utf8_valid.induct)
  case (2 c s)
  then obtain rs s' where rs: "utf8_tail (byte c) = Some rs" "follow rs s = Some s'" "utf8_valid s'"
    by (auto split: option.splits)
  with 2 have IH: "utf8_valid (escape s')" by blast
  show ?case
  proof (cases "byte c < 128")
    case True
    then have "rs = []" using rs(1) by (simp add: utf8_tail_def)
    then have "s' = s" using rs(2) by simp
    then show ?thesis
      using IH utf8_valid_append [OF utf8_valid_ascii [OF escape_byte_ascii [OF True]]] by simp
  next
    case False
    then have "escape_byte c = [c]" by (simp add: escape_byte_high)
    moreover have "follow rs (escape s) = Some (escape s')"
      using rs utf8_tail_high by (blast intro: follow_escape)
    ultimately show ?thesis using rs IH by simp
  qed
qed simp

lemma digit_plain: "is_digit c \<Longrightarrow> 32 \<le> byte c \<and> byte c < 128"
  by (simp add: is_digit_def)

lemma dec_plain: "printable (dec n) \<and> ascii (dec n)"
  by (auto simp: printable_def ascii_def dest!: dec_digits digit_plain)

lemma dec_int_plain: "printable (dec_int i) \<and> ascii (dec_int i)"
  by (simp add: dec_int_def dec_plain)

text \<open>What is assumed of the float printer: printable ASCII.\<close>

definition plain_printer :: "float_printer \<Rightarrow> bool" where
  "plain_printer fc \<longleftrightarrow> (\<forall>w. printable (fc w) \<and> ascii (fc w))"

definition one_line :: "string \<Rightarrow> bool" where
  "one_line s \<longleftrightarrow> printable s \<and> utf8_valid s"

lemma one_line_append: "one_line s \<Longrightarrow> one_line t \<Longrightarrow> one_line (s @ t)"
  by (simp add: one_line_def utf8_valid_append)

lemma one_line_plain: "printable s \<Longrightarrow> ascii s \<Longrightarrow> one_line s"
  by (simp add: one_line_def utf8_valid_ascii)

lemma one_line_Cons: "32 \<le> byte c \<Longrightarrow> byte c < 128 \<Longrightarrow> one_line s \<Longrightarrow> one_line (c # s)"
  using one_line_append [of "[c]" s] by (simp add: one_line_plain)

lemma one_line_join: "one_line sep \<Longrightarrow> (\<And>x. x \<in> set xs \<Longrightarrow> one_line x) \<Longrightarrow> one_line (join sep xs)"
  by (induction sep xs rule: join.induct) (auto intro!: one_line_append simp: one_line_plain)

lemma one_line_string: "utf8_valid s \<Longrightarrow> one_line (render_string s)"
  unfolding render_string_def
  by (intro one_line_Cons one_line_append) (simp_all add: one_line_plain, simp add: one_line_def escape_valid escape_printable)

lemma one_line_dec: "one_line (dec n)" "one_line (dec_int i)"
  by (simp_all add: one_line_plain dec_plain dec_int_plain)

lemma one_line_binary: "one_line (render_binary bs st)"
  unfolding render_binary_def
  by (intro one_line_Cons one_line_append one_line_join one_line_string)
     (auto simp: one_line_plain one_line_dec intro: utf8_valid_ascii simp del: utf8_valid.simps split: option.split)

lemma render_one_line: "plain_printer fc \<Longrightarrow> strings_valid j \<Longrightarrow> one_line (render fc j)"
proof (induction j)
  case (JObj m)
  have "one_line (render_string k @ '':'' @ render fc v)" if "(k, v) \<in> set m" for k v
    using that JObj by (intro one_line_append one_line_string) (auto simp: one_line_plain)
  then have "one_line (join '','' (map (\<lambda>(k, v). render_string k @ '':'' @ render fc v) m))"
    by (intro one_line_join) (auto simp: one_line_plain)
  then show ?case
    by (auto intro!: one_line_Cons one_line_append simp: one_line_plain)
next
  case (JArr xs)
  then show ?case
    by (auto intro!: one_line_Cons one_line_append one_line_join simp: one_line_plain)
qed (auto simp: one_line_plain one_line_dec one_line_string one_line_binary plain_printer_def)

end
