(* ===== verification/Policy.thy ===== *)
theory Policy
  imports Effects Float64 Rendering
begin

text \<open>
  detail/server_policy.hpp: admission of a tool, the token bucket, the output filter and the
  encoded-size check. Clock readings are nanoseconds of the steady clock; token counts are
  doubles, with every operation rounded as the hardware rounds it.
\<close>

record policy_state =
  tokens :: rat
  last :: int
  clock_started :: bool

definition size_as_double :: "nat \<Rightarrow> rat" where
  "size_as_double n = (case f64_round (of_nat n) of Some q \<Rightarrow> q | None \<Rightarrow> 0)"

definition initial_policy :: "'a server_options \<Rightarrow> policy_state" where
  "initial_policy opts = \<lparr>tokens = size_as_double (tool_burst opts), last = 0, clock_started = False\<rparr>"

definition policy_allow ::
  "'a server_options \<Rightarrow> string \<Rightarrow> request_context \<Rightarrow> ('a, bool) eff" where
  "policy_allow opts name ctx =
     (case allow_tool opts of None \<Rightarrow> eff_return True | Some f \<Rightarrow> f name ctx)"

subsection \<open>The token bucket\<close>

text \<open>\<open>duration<double>(now - last).count()\<close>: nanoseconds as a double, divided by $10^9$.\<close>

definition elapsed_seconds :: "int \<Rightarrow> rat option" where
  "elapsed_seconds ns =
     (case f64_round (of_int ns) of None \<Rightarrow> None | Some d \<Rightarrow> f64_round (d / 10 ^ 9))"

definition refill :: "'a server_options \<Rightarrow> int \<Rightarrow> rat \<Rightarrow> rat" where
  "refill opts ns t =
     f64_min (size_as_double (tool_burst opts))
       (f64_add t (case elapsed_seconds ns of None \<Rightarrow> None
                   | Some e \<Rightarrow> f64_round (e * f64_value (tool_requests_per_second opts))))"

definition consume_at :: "'a server_options \<Rightarrow> int \<Rightarrow> policy_state \<Rightarrow> bool \<times> policy_state" where
  "consume_at opts now p =
     (let p = (if \<not> clock_started p then p\<lparr>last := now, clock_started := True\<rparr> else p);
          p = (if last p < now
               then p\<lparr>tokens := refill opts (now - last p) (tokens p), last := now\<rparr> else p)
      in if tokens p < 1 then (False, p)
         else (True, p\<lparr>tokens := (case f64_round (tokens p - 1) of Some q \<Rightarrow> q | None \<Rightarrow> 0)\<rparr>))"

definition policy_consume ::
  "'a server_options \<Rightarrow> policy_state \<Rightarrow> ('a, bool \<times> policy_state) eff" where
  "policy_consume opts p =
     (case clock_now opts of None \<Rightarrow> eff_throw User_exn
      | Some now \<Rightarrow> eff_bind now (\<lambda>t. eff_return (consume_at opts t p)))"

subsection \<open>Text and frames\<close>

definition control_char :: "char \<Rightarrow> bool" where
  "control_char c \<longleftrightarrow>
     (byte c < 32 \<and> c \<noteq> CHR ''\<newline>'' \<and> c \<noteq> CHR 0x09 \<and> c \<noteq> CHR 0x0D) \<or> byte c = 127"

definition no_float :: float_printer where "no_float w = []"

definition valid_text :: "string \<Rightarrow> bool" where
  "valid_text t \<longleftrightarrow> \<not> list_ex control_char t \<and> is_ok (json_dump no_float (JStr t))"

definition policy_filter ::
  "'a server_options \<Rightarrow> string \<Rightarrow> string \<Rightarrow> request_context \<Rightarrow> ('a, handler_error + string) eff" where
  "policy_filter opts op t ctx =
     (if \<not> valid_text t then eff_return (Inl \<lparr>public_message = ''Invalid output''\<rparr>)
      else case filter_output opts of
          None \<Rightarrow> eff_return (Inr t)
        | Some f \<Rightarrow>
            eff_bind (f op t ctx) (\<lambda>r.
              case r of
                Inl _ \<Rightarrow> eff_return (Inl \<lparr>public_message = ''Invalid output''\<rparr>)
              | Inr t' \<Rightarrow> if valid_text t' then eff_return (Inr t')
                          else eff_return (Inl \<lparr>public_message = ''Invalid output''\<rparr>)))"

text \<open>
  \<open>counting_buffer\<close>: each write is accepted as far as the limit allows; a short write sets
  \<open>badbit\<close>, which the stream turns into an exception.
\<close>

fun count_writes :: "nat \<Rightarrow> nat \<Rightarrow> string list \<Rightarrow> bool" where
  "count_writes limit sz [] = True"
| "count_writes limit sz (s # ss) =
     (let accepted = min (limit - sz) (length s)
      in accepted = length s \<and> count_writes limit (sz + accepted) ss)"

definition frame_fits :: "float_printer \<Rightarrow> json \<Rightarrow> nat \<Rightarrow> bool" where
  "frame_fits fc j limit \<longleftrightarrow>
     (let w = stream_json fc j in count_writes limit 0 (fst w) \<and> snd w = None)"

subsection \<open>Text\<close>

lemma valid_text_iff: "valid_text t \<longleftrightarrow> (\<forall>c \<in> set t. \<not> control_char c) \<and> utf8_valid t"
  by (auto simp: valid_text_def json_dump_render list_ex_iff is_ok_def split: sum.splits)

lemma policy_filter_valid:
  "eff_ok (policy_filter opts op t ctx) (\<lambda>r. case r of Inr t' \<Rightarrow> valid_text t' | Inl _ \<Rightarrow> True)"
  unfolding policy_filter_def
  by (auto intro!: eff_ok_return eff_ok_bind' split: option.split sum.split)

subsection \<open>Frames\<close>

lemma count_writes_iff: "sz \<le> limit \<Longrightarrow> count_writes limit sz ss \<longleftrightarrow> sz + length (concat ss) \<le> limit"
proof (induction limit sz ss rule: count_writes.induct)
  case (2 limit sz s ss)
  show ?case
  proof (cases "sz + length s \<le> limit")
    case True
    then have "min (limit - sz) (length s) = length s" by linarith
    then show ?thesis using 2 True by (simp add: Let_def add.assoc del: length_concat)
  next
    case False
    then have "min (limit - sz) (length s) \<noteq> length s" using 2(2) by linarith
    then show ?thesis using False by (simp add: Let_def del: length_concat)
  qed
qed simp

lemma frame_fits_iff:
  "frame_fits fc j limit \<longleftrightarrow> (case json_dump fc j of Inl _ \<Rightarrow> False | Inr t \<Rightarrow> length t \<le> limit)"
  by (auto simp: frame_fits_def Let_def count_writes_iff stream_json_def json_dump_def w_text_def split: option.splits)

lemma frame_fits_render: "frame_fits fc j limit \<longleftrightarrow> strings_valid j \<and> length (render fc j) \<le> limit"
  by (simp add: frame_fits_iff json_dump_render)

subsection \<open>The bucket\<close>

definition policy_inv :: "'a server_options \<Rightarrow> policy_state \<Rightarrow> bool" where
  "policy_inv opts p \<longleftrightarrow>
     0 \<le> tokens p \<and> tokens p \<le> size_as_double (tool_burst opts) \<and> f64_representable (tokens p)"

lemma size_as_double_exact: "n < 2 ^ 53 \<Longrightarrow> size_as_double n = of_nat n"
proof -
  assume "n < 2 ^ 53"
  then have "int n < 2 ^ 53" by (metis of_nat_less_iff of_nat_numeral of_nat_power)
  then have "f64_representable (of_nat n)"
    unfolding f64_representable_def by (intro exI [of _ "int n"] exI [of _ 0]) (simp add: pow2_def)
  then show ?thesis by (simp add: size_as_double_def f64_round_representable)
qed

lemma size_as_double_nonneg: "0 \<le> size_as_double n"
  by (auto simp: size_as_double_def dest: f64_round_nonneg split: option.split)

lemma representable_zero: "f64_representable 0"
  using f64_round_result [of 0 0] by (simp add: f64_round_def)

lemma size_as_double_representable: "f64_representable (size_as_double n)"
  using representable_zero by (auto simp: size_as_double_def dest: f64_round_result split: option.split)

lemma f64_min_le: "f64_min x y \<le> x"
  by (auto simp: f64_min_def split: option.split)

lemma refill_bounds: "0 \<le> refill opts ns t" "refill opts ns t \<le> size_as_double (tool_burst opts)"
proof -
  show "refill opts ns t \<le> size_as_double (tool_burst opts)" by (simp add: refill_def f64_min_le)
  show "0 \<le> refill opts ns t"
    by (auto simp: refill_def f64_min_def f64_add_def size_as_double_nonneg dest: f64_round_nonneg split: option.split)
qed

lemma refill_representable: "f64_representable (refill opts ns t)"
  by (auto simp: refill_def f64_min_def f64_add_def size_as_double_representable
      dest: f64_round_result split: option.split)

lemma policy_inv_initial: "policy_inv opts (initial_policy opts)"
  by (simp add: policy_inv_def initial_policy_def size_as_double_nonneg size_as_double_representable)

text \<open>Taking one token is exact: the difference of two doubles $t \ge 1$ and 1 is a double.\<close>

lemma representable_minus_one:
  assumes "f64_representable t" "1 \<le> t" "t < 2 ^ 53"
  shows "f64_representable (t - 1)"
proof -
  obtain n k where nk: "- 1074 \<le> k" "k \<le> 971" "0 \<le> n" "n < 2 ^ 53" "t = of_int n * pow2 k"
    using assms(1) by (auto simp: f64_representable_def)
  show ?thesis
  proof (cases "0 \<le> k")
    case True
    then have t: "t = of_int (n * 2 ^ nat k)" by (simp add: nk pow2_def)
    moreover have "0 \<le> n * 2 ^ nat k - 1" "n * 2 ^ nat k - 1 < 2 ^ 53"
    proof -
      have "(of_int 1 :: rat) \<le> of_int (n * 2 ^ nat k)" "(of_int (n * 2 ^ nat k) :: rat) < of_int (2 ^ 53)"
        using assms(2,3) unfolding t by simp_all
      then have "1 \<le> n * 2 ^ nat k" "n * 2 ^ nat k < 2 ^ 53" by (simp_all only: of_int_le_iff of_int_less_iff)
      then show "0 \<le> n * 2 ^ nat k - 1" "n * 2 ^ nat k - 1 < 2 ^ 53" by linarith+
    qed
    ultimately show ?thesis
      unfolding f64_representable_def
      by (intro exI [of _ "n * 2 ^ nat k - 1"] exI [of _ 0]) (simp add: pow2_def)
  next
    case False
    let ?d = "2 ^ nat (- k) :: int"
    have pk: "pow2 k = 1 / of_int ?d" using False by (simp add: pow2_def)
    have t1: "t - 1 = of_int (n - ?d) * pow2 k" by (simp add: nk pk field_simps)
    have "?d \<le> n"
    proof -
      have "(of_int ?d :: rat) \<le> of_int n" using assms(2) by (simp add: nk pk pos_le_divide_eq)
      then show ?thesis by linarith
    qed
    moreover have "0 < ?d" by simp
    ultimately show ?thesis
      unfolding f64_representable_def using nk t1
      by (intro exI [of _ "n - ?d"] exI [of _ k]) linarith
  qed
qed

definition bucket_exact :: "policy_state \<Rightarrow> bool" where
  "bucket_exact p \<longleftrightarrow> f64_representable (tokens p) \<and> tokens p < 2 ^ 53"

lemma take_token:
  "bucket_exact p \<Longrightarrow> 1 \<le> tokens p \<Longrightarrow>
     f64_round (tokens p - 1) = Some (tokens p - 1) \<and> bucket_exact (p\<lparr>tokens := tokens p - 1\<rparr>)"
  by (simp add: bucket_exact_def f64_round_representable representable_minus_one)

text \<open>Without the clock moving forward a call spends a whole token or is refused.\<close>

lemma consume_at_no_refill:
  assumes "clock_started p" "now \<le> last p" "bucket_exact p"
  shows "consume_at opts now p =
    (if tokens p < 1 then (False, p) else (True, p\<lparr>tokens := tokens p - 1\<rparr>))"
  using assms take_token [OF assms(3)] by (auto simp: consume_at_def)

text \<open>The answers to a sequence of calls at the given times.\<close>

fun consume_all :: "'a server_options \<Rightarrow> int list \<Rightarrow> policy_state \<Rightarrow> bool list \<times> policy_state" where
  "consume_all opts [] p = ([], p)"
| "consume_all opts (t # ts) p =
     (let (b, p') = consume_at opts t p; (bs, p'') = consume_all opts ts p' in (b # bs, p''))"

lemma consume_all_no_refill:
  assumes "clock_started p" "\<forall>t \<in> set ts. t \<le> last p" "bucket_exact p" "0 \<le> tokens p"
  shows "fst (consume_all opts ts p) =
    replicate (min (nat \<lfloor>tokens p\<rfloor>) (length ts)) True @ replicate (length ts - nat \<lfloor>tokens p\<rfloor>) False"
  using assms
proof (induction ts arbitrary: p)
  case (Cons t ts)
  show ?case
  proof (cases "tokens p < 1")
    case True
    then have "nat \<lfloor>tokens p\<rfloor> = 0" using Cons.prems(4) by linarith
    moreover have "fst (consume_all opts ts p) = replicate (length ts) False"
      using Cons.IH [of p] Cons.prems calculation by simp
    ultimately show ?thesis
      using Cons.prems True by (auto simp: consume_at_no_refill split: prod.split)
  next
    case False
    let ?p = "p\<lparr>tokens := tokens p - 1\<rparr>"
    have "nat \<lfloor>tokens p\<rfloor> = Suc (nat \<lfloor>tokens ?p\<rfloor>)" using False by simp linarith
    moreover have "fst (consume_all opts ts ?p) =
        replicate (min (nat \<lfloor>tokens ?p\<rfloor>) (length ts)) True @ replicate (length ts - nat \<lfloor>tokens ?p\<rfloor>) False"
      using Cons.prems False take_token [of p] by (intro Cons.IH) auto
    ultimately show ?thesis
      using Cons.prems False by (auto simp: consume_at_no_refill split: prod.split)
  qed
qed simp

text \<open>The bucket after the clock reading of a call, before a token is taken.\<close>

definition consume_clock :: "'a server_options \<Rightarrow> int \<Rightarrow> policy_state \<Rightarrow> policy_state" where
  "consume_clock opts now p =
     (let p = (if \<not> clock_started p then p\<lparr>last := now, clock_started := True\<rparr> else p)
      in if last p < now then p\<lparr>tokens := refill opts (now - last p) (tokens p), last := now\<rparr> else p)"

lemma consume_at_clock:
  "consume_at opts now p =
     (let p = consume_clock opts now p
      in if tokens p < 1 then (False, p)
         else (True, p\<lparr>tokens := (case f64_round (tokens p - 1) of Some q \<Rightarrow> q | None \<Rightarrow> 0)\<rparr>))"
  by (simp add: consume_at_def consume_clock_def Let_def)

lemma consume_clock_inv: "policy_inv opts p \<Longrightarrow> policy_inv opts (consume_clock opts now p)"
  by (simp add: consume_clock_def Let_def policy_inv_def refill_bounds refill_representable)

lemma consume_at_inv:
  assumes "policy_inv opts p" "tool_burst opts < 2 ^ 53"
  shows "policy_inv opts (snd (consume_at opts now p))"
proof -
  let ?p = "consume_clock opts now p"
  have inv: "policy_inv opts ?p" using assms(1) by (rule consume_clock_inv)
  moreover have "of_nat (tool_burst opts) < (2 :: rat) ^ 53"
    using assms(2) by (metis of_nat_less_iff of_nat_numeral of_nat_power)
  ultimately have "bucket_exact ?p"
    using assms(2) by (simp add: bucket_exact_def policy_inv_def size_as_double_exact)
  then show ?thesis
    using inv take_token [of ?p]
    by (auto simp: consume_at_clock Let_def policy_inv_def bucket_exact_def)
qed

end
