(* ===== verification/Executor.thy ===== *)
theory Executor
  imports Effects "HOL-Library.Multiset" "HOL-Library.Sublist"
begin

text \<open>
  detail/owned_executor.hpp: one worker thread, a bounded list of pending invocations,
  cancellation and shutdown. Every region executed under \<open>mutex_\<close> is one atomic operation;
  an invocation is an abstract value \<open>'c\<close>. Operations that destroy invocations outside the
  lock return them, because their destructors call back into the server.
\<close>

subsection \<open>Request identity\<close>

definition same_request_id :: "json_rpc_id \<Rightarrow> json_rpc_id \<Rightarrow> bool" where
  "same_request_id l r =
     (case (l, r) of
        (Id_int64 a, Id_int64 b) \<Rightarrow> sint a = sint b
      | (Id_int64 a, Id_uint64 b) \<Rightarrow> 0 \<le> sint a \<and> ucast a = b
      | (Id_uint64 a, Id_int64 b) \<Rightarrow> 0 \<le> sint b \<and> a = ucast b
      | (Id_uint64 a, Id_uint64 b) \<Rightarrow> uint a = uint b
      | (Id_string a, Id_string b) \<Rightarrow> a = b
      | _ \<Rightarrow> False)"

text \<open>The wire identity: a string or an integer, without its representation.\<close>

definition id_key :: "json_rpc_id \<Rightarrow> (string + int) option" where
  "id_key i =
     (case i of Id_string s \<Rightarrow> Some (Inl s) | Id_int64 w \<Rightarrow> Some (Inr (sint w))
      | Id_uint64 w \<Rightarrow> Some (Inr (uint w)) | Id_null \<Rightarrow> None)"

lemma sint_nonneg_uint: "0 \<le> sint (w :: 64 word) \<Longrightarrow> uint w = sint w"
proof -
  assume "0 \<le> sint w"
  moreover have "uint w = sint w mod 2 ^ 64" by (simp add: uint_sint take_bit_eq_mod)
  moreover have "sint w < 2 ^ 63" using sint_lt [of w] by simp
  ultimately show ?thesis by simp
qed

lemma same_request_id_key: "same_request_id a b \<longleftrightarrow> id_key a \<noteq> None \<and> id_key a = id_key b"
proof -
  have mixed: "0 \<le> sint v \<and> v = w \<longleftrightarrow> sint v = uint w" for v w :: "64 word"
    by (metis sint_nonneg_uint uint_ge_0 word_uint_eqI)
  have mixed': "0 \<le> sint v \<and> w = v \<longleftrightarrow> uint w = sint v" for v w :: "64 word"
    using mixed [of v w] by auto
  show ?thesis
    by (cases a; cases b) (simp_all add: same_request_id_def id_key_def mixed mixed')
qed

lemma same_request_id_sym: "same_request_id a b = same_request_id b a"
  by (metis same_request_id_key)

lemma same_request_id_refl: "same_request_id a a \<longleftrightarrow> a \<noteq> Id_null"
  by (cases a) (simp_all add: same_request_id_key id_key_def)

lemma same_request_id_trans: "same_request_id a b \<Longrightarrow> same_request_id b c \<Longrightarrow> same_request_id a c"
  by (metis same_request_id_key)

subsection \<open>State\<close>

record 'c work =
  work_id :: json_rpc_id
  work_stop :: bool
  work_call :: 'c

datatype 'c worker_phase = Waiting | Calling "'c work" | Releasing "'c work" | Exiting

record 'c executor =
  max_pending :: nat
  pending :: "'c work list"
  active :: "'c work option"
  stopping :: bool
  finished :: bool
  phase :: "'c worker_phase"
  joined :: bool

text \<open>A zero limit starts no thread.\<close>

definition new_executor :: "nat \<Rightarrow> 'c executor" where
  "new_executor n =
     \<lparr>max_pending = n, pending = [], active = None, stopping = (n = 0), finished = (n = 0),
      phase = (if n = 0 then Exiting else Waiting), joined = (n = 0)\<rparr>"

definition executor_error :: "sdk_errc \<Rightarrow> string \<Rightarrow> sdk_error + 'x" where
  "executor_error c m = Inl \<lparr>sdk_code = c, sdk_message = m\<rparr>"

subsection \<open>Operations\<close>

definition enqueue ::
  "json_rpc_id \<Rightarrow> 'c option \<Rightarrow> 'c executor \<Rightarrow> (sdk_error + unit) \<times> 'c executor" where
  "enqueue i call e =
     (case call of
        None \<Rightarrow> (executor_error invalid_state ''Invalid executor invocation'', e)
      | Some c \<Rightarrow>
          if i = Id_null then (executor_error invalid_state ''Invalid executor invocation'', e)
          else if stopping e then (executor_error invalid_state ''Executor admission is closed'', e)
          else if (case active e of None \<Rightarrow> False | Some w \<Rightarrow> same_request_id (work_id w) i)
            then (executor_error invalid_state ''Duplicate in-flight request ID'', e)
          else if list_ex (\<lambda>w. same_request_id (work_id w) i) (pending e)
            then (executor_error invalid_state ''Duplicate in-flight request ID'', e)
          else if max_pending e \<le> length (pending e)
            then (executor_error resource_exhausted ''Executor queue is full'', e)
          else (Inr (), e\<lparr>pending := pending e @ [\<lparr>work_id = i, work_stop = False, work_call = c\<rparr>]\<rparr>))"

fun take_first :: "('w \<Rightarrow> bool) \<Rightarrow> 'w list \<Rightarrow> 'w list \<times> 'w list" where
  "take_first p [] = ([], [])"
| "take_first p (w # ws) =
     (if p w then ([w], ws) else let (taken, rest) = take_first p ws in (taken, w # rest))"

text \<open>\<open>request_stop\<close> on the stop source of the active work.\<close>

definition stop_active :: "'c executor \<Rightarrow> 'c executor" where
  "stop_active e =
     (case active e of None \<Rightarrow> e
      | Some w \<Rightarrow> e\<lparr>active := Some (w\<lparr>work_stop := True\<rparr>),
           phase := (case phase e of Calling v \<Rightarrow> Calling (v\<lparr>work_stop := True\<rparr>) | ph \<Rightarrow> ph)\<rparr>)"

definition cancel :: "json_rpc_id \<Rightarrow> 'c executor \<Rightarrow> 'c work list \<times> 'c executor" where
  "cancel i e =
     (if (case active e of None \<Rightarrow> False | Some w \<Rightarrow> same_request_id (work_id w) i)
      then ([], stop_active e)
      else let (discarded, rest) = take_first (\<lambda>w. same_request_id (work_id w) i) (pending e)
           in (discarded, e\<lparr>pending := rest\<rparr>))"

definition stop_executor :: "'c executor \<Rightarrow> 'c work list \<times> 'c executor" where
  "stop_executor e = (pending e, stop_active (e\<lparr>stopping := True, pending := []\<rparr>))"

text \<open>
  The worker loop, one locked region at a time: leave the loop when stopping, take the front
  of the queue, drop \<open>active_\<close> after the call, drop the last reference to the invocation,
  publish \<open>finished_\<close>. \<open>None\<close>: the worker is blocked in its condition variable or gone.
\<close>

definition worker_wake :: "'c executor \<Rightarrow> 'c executor option" where
  "worker_wake e =
     (if phase e \<noteq> Waiting then None
      else if stopping e then Some (e\<lparr>phase := Exiting\<rparr>)
      else case pending e of
          [] \<Rightarrow> None
        | w # ws \<Rightarrow> Some (e\<lparr>pending := ws, active := Some w, phase := Calling w\<rparr>))"

definition worker_returned :: "'c executor \<Rightarrow> 'c executor option" where
  "worker_returned e =
     (case phase e of Calling w \<Rightarrow> Some (e\<lparr>active := None, phase := Releasing w\<rparr>) | _ \<Rightarrow> None)"

definition worker_release :: "'c executor \<Rightarrow> 'c executor option" where
  "worker_release e = (case phase e of Releasing w \<Rightarrow> Some (e\<lparr>phase := Waiting\<rparr>) | _ \<Rightarrow> None)"

definition worker_finish :: "'c executor \<Rightarrow> 'c executor option" where
  "worker_finish e =
     (if phase e = Exiting \<and> \<not> finished e then Some (e\<lparr>finished := True\<rparr>) else None)"

text \<open>
  \<open>wait\<close> and \<open>wait_for\<close>: \<open>None\<close> while they block. \<open>on_worker\<close>: the caller is the worker
  thread; \<open>join_fails\<close>: \<open>std::thread::join\<close> throws \<open>std::system_error\<close>.
\<close>

definition join_worker :: "bool \<Rightarrow> 'c executor \<Rightarrow> (sdk_error + unit) \<times> 'c executor" where
  "join_worker join_fails e =
     (if joined e then (Inr (), e)
      else if join_fails then (executor_error invalid_state ''Executor join failed'', e)
      else (Inr (), e\<lparr>joined := True\<rparr>))"

definition wait_executor ::
  "bool \<Rightarrow> bool \<Rightarrow> 'c executor \<Rightarrow> ((sdk_error + unit) \<times> 'c executor) option" where
  "wait_executor on_worker join_fails e =
     (if on_worker \<and> \<not> finished e then Some (executor_error invalid_state ''Worker cannot wait for itself'', e)
      else if \<not> finished e then None
      else Some (join_worker join_fails e))"

definition wait_executor_for ::
  "bool \<Rightarrow> bool \<Rightarrow> bool \<Rightarrow> 'c executor \<Rightarrow> ((sdk_error + bool) \<times> 'c executor) option" where
  "wait_executor_for on_worker expired join_fails e =
     (if on_worker \<and> \<not> finished e then Some (executor_error invalid_state ''Worker cannot wait for itself'', e)
      else if \<not> finished e then (if expired then Some (Inr False, e) else None)
      else Some (case join_worker join_fails e of
                   (Inl err, e') \<Rightarrow> (Inl err, e') | (Inr _, e') \<Rightarrow> (Inr True, e')))"

lemmas executor_ops [step_defs] =
  enqueue_def cancel_def stop_executor_def stop_active_def worker_wake_def worker_returned_def
  worker_release_def worker_finish_def executor_error_def

subsection \<open>Steps\<close>

text \<open>What a step does to the invocations, in the vocabulary of the specification.\<close>

datatype 'c exec_event = Accepted "'c work" | Started 'c | Discarded "'c work list" | Quiet

inductive exec_step :: "'c executor \<Rightarrow> 'c exec_event \<Rightarrow> 'c executor \<Rightarrow> bool" where
  step_enqueue: "enqueue i (Some c) e = (Inr (), e') \<Longrightarrow>
     exec_step e (Accepted \<lparr>work_id = i, work_stop = False, work_call = c\<rparr>) e'"
| step_rejected: "enqueue i call e = (Inl err, e') \<Longrightarrow> exec_step e Quiet e'"
| step_cancel: "cancel i e = (ws, e') \<Longrightarrow> exec_step e (Discarded ws) e'"
| step_stop: "stop_executor e = (ws, e') \<Longrightarrow> exec_step e (Discarded ws) e'"
| step_take: "worker_wake e = Some e' \<Longrightarrow> phase e' = Calling w \<Longrightarrow> exec_step e (Started (work_call w)) e'"
| step_leave: "worker_wake e = Some e' \<Longrightarrow> phase e' = Exiting \<Longrightarrow> exec_step e Quiet e'"
| step_returned: "worker_returned e = Some e' \<Longrightarrow> exec_step e Quiet e'"
| step_release: "worker_release e = Some e' \<Longrightarrow> exec_step e Quiet e'"
| step_finish: "worker_finish e = Some e' \<Longrightarrow> exec_step e Quiet e'"
| step_wait: "wait_executor ow jf e = Some (r, e') \<Longrightarrow> exec_step e Quiet e'"
| step_wait_for: "wait_executor_for ow ex jf e = Some (r', e') \<Longrightarrow> exec_step e Quiet e'"

inductive exec_run :: "'c executor \<Rightarrow> 'c exec_event list \<Rightarrow> 'c executor \<Rightarrow> bool" where
  run_refl: "exec_run e [] e"
| run_snoc: "exec_run e evs e' \<Longrightarrow> exec_step e' ev e'' \<Longrightarrow> exec_run e (evs @ [ev]) e''"

inductive_cases exec_stepE: "exec_step e ev e'"

subsection \<open>Invariant\<close>

definition all_ids :: "'c executor \<Rightarrow> json_rpc_id list" where
  "all_ids e = (case active e of None \<Rightarrow> [] | Some w \<Rightarrow> [work_id w]) @ map work_id (pending e)"

definition exec_inv :: "'c executor \<Rightarrow> bool" where
  "exec_inv e \<longleftrightarrow>
     length (pending e) \<le> max_pending e
     \<and> distinct (map id_key (all_ids e)) \<and> None \<notin> set (map id_key (all_ids e))
     \<and> (stopping e \<longrightarrow> pending e = [])
     \<and> (active e = (case phase e of Calling w \<Rightarrow> Some w | _ \<Rightarrow> None))
     \<and> (phase e = Exiting \<longrightarrow> stopping e)
     \<and> (finished e \<longrightarrow> phase e = Exiting)
     \<and> (joined e \<longrightarrow> finished e)"

lemma exec_inv_new: "exec_inv (new_executor n)"
  by (simp add: exec_inv_def new_executor_def all_ids_def)

lemma take_first_split:
  "take_first p ws = (taken, rest) \<Longrightarrow>
     (taken = [] \<and> rest = ws \<and> (\<forall>w \<in> set ws. \<not> p w)) \<or>
     (\<exists>as w bs. taken = [w] \<and> p w \<and> ws = as @ w # bs \<and> rest = as @ bs \<and> (\<forall>a \<in> set as. \<not> p a))"
proof (induction p ws arbitrary: taken rest rule: take_first.induct)
  case (2 p w ws)
  obtain t r where tr: "take_first p ws = (t, r)" by force
  show ?case
  proof (cases "p w")
    case True
    then show ?thesis using 2(2) by (auto intro!: exI [of _ "[]"])
  next
    case False
    then have "taken = t" "rest = w # r" using 2(2) tr by auto
    consider "t = []" "r = ws" "\<forall>w \<in> set ws. \<not> p w"
      | as v bs where "t = [v]" "p v" "ws = as @ v # bs" "r = as @ bs" "\<forall>a \<in> set as. \<not> p a"
      using "2.IH" [OF False tr] by blast
    then show ?thesis
    proof cases
      case 2
      then have "taken = [v]" "w # ws = (w # as) @ v # bs" "rest = (w # as) @ bs" "\<forall>a \<in> set (w # as). \<not> p a"
        using \<open>taken = t\<close> \<open>rest = w # r\<close> False by auto
      then show ?thesis using 2(2) by blast
    qed (use False \<open>taken = t\<close> \<open>rest = w # r\<close> in auto)
  qed
qed simp

lemma id_key_None: "id_key i = None \<longleftrightarrow> i = Id_null"
  by (cases i) (simp_all add: id_key_def)

lemma enqueue_cases:
  "enqueue i call e = (r, e') \<Longrightarrow>
     (\<exists>err. r = Inl err \<and> e' = e) \<or>
     (\<exists>c. call = Some c \<and> r = Inr () \<and> \<not> stopping e \<and>
          e' = e\<lparr>pending := pending e @ [\<lparr>work_id = i, work_stop = False, work_call = c\<rparr>]\<rparr>)"
  by (auto simp: enqueue_def executor_error_def split: option.splits if_splits)

lemma enqueue_admitted:
  assumes "enqueue i call e = (Inr (), e')"
  shows "\<not> stopping e" "length (pending e) < max_pending e" "i \<noteq> Id_null"
    "\<forall>j \<in> set (all_ids e). \<not> same_request_id j i"
  using assms
  by (auto simp: enqueue_def executor_error_def all_ids_def list_ex_iff split: option.splits if_splits)

lemma enqueue_inv:
  assumes inv: "exec_inv e" and r: "enqueue i call e = (r, e')"
  shows "exec_inv e'"
  using enqueue_cases [OF r]
proof (elim disjE exE conjE)
  fix c
  assume ok: "call = Some c" "r = Inr ()"
    and e': "e' = e\<lparr>pending := pending e @ [\<lparr>work_id = i, work_stop = False, work_call = c\<rparr>]\<rparr>"
  note adm = enqueue_admitted [OF r [unfolded ok(2)]]
  have ids: "all_ids e' = all_ids e @ [i]" by (simp add: e' all_ids_def)
  have "id_key i \<noteq> None" using adm(3) by (simp add: id_key_None)
  moreover have "id_key i \<notin> set (map id_key (all_ids e))"
  proof
    assume "id_key i \<in> set (map id_key (all_ids e))"
    then obtain j where "j \<in> set (all_ids e)" "id_key i = id_key j" by auto
    then show False using adm(4) \<open>id_key i \<noteq> None\<close> by (auto simp: same_request_id_key)
  qed
  ultimately show ?thesis
    using inv adm(1,2) ids unfolding exec_inv_def by (auto simp: e')
qed (use inv in simp)

lemma all_ids_stop_active: "exec_inv e \<Longrightarrow> all_ids (stop_active e) = all_ids e"
  by (auto simp: stop_active_def all_ids_def split: option.splits)

lemma stop_active_simps [simp]:
  "pending (stop_active e) = pending e" "stopping (stop_active e) = stopping e"
  "finished (stop_active e) = finished e" "max_pending (stop_active e) = max_pending e"
  "joined (stop_active e) = joined e"
  by (simp_all add: stop_active_def split: option.split)

lemma stop_active_inv: "exec_inv e \<Longrightarrow> exec_inv (stop_active e)"
proof -
  assume inv: "exec_inv e"
  have "active (stop_active e) = (case phase (stop_active e) of Calling w \<Rightarrow> Some w | _ \<Rightarrow> None)"
    using inv by (cases "phase e") (simp_all add: exec_inv_def stop_active_def)
  moreover have "phase (stop_active e) = Exiting \<longleftrightarrow> phase e = Exiting"
    by (cases "active e"; cases "phase e") (simp_all add: stop_active_def)
  ultimately show ?thesis
    using inv all_ids_stop_active [OF inv] unfolding exec_inv_def by simp
qed

lemma cancel_inv: "exec_inv e \<Longrightarrow> exec_inv (snd (cancel i e))"
proof -
  assume inv: "exec_inv e"
  obtain t r where tr: "take_first (\<lambda>w. same_request_id (work_id w) i) (pending e) = (t, r)" by force
  have "exec_inv (e\<lparr>pending := r\<rparr>)"
    using inv take_first_split [OF tr]
    by (auto simp: exec_inv_def all_ids_def split: option.splits)
  then show ?thesis using inv tr by (simp add: cancel_def stop_active_inv)
qed

lemma stop_executor_inv: "exec_inv e \<Longrightarrow> exec_inv (snd (stop_executor e))"
proof -
  assume "exec_inv e"
  then have "exec_inv (e\<lparr>stopping := True, pending := []\<rparr>)"
    by (auto simp: exec_inv_def all_ids_def split: option.splits)
  then show ?thesis by (simp add: stop_executor_def stop_active_inv)
qed

lemma worker_inv:
  "exec_inv e \<Longrightarrow> worker_wake e = Some e' \<Longrightarrow> exec_inv e'"
  "exec_inv e \<Longrightarrow> worker_returned e = Some e' \<Longrightarrow> exec_inv e'"
  "exec_inv e \<Longrightarrow> worker_release e = Some e' \<Longrightarrow> exec_inv e'"
  "exec_inv e \<Longrightarrow> worker_finish e = Some e' \<Longrightarrow> exec_inv e'"
  by (auto simp: exec_inv_def all_ids_def worker_wake_def worker_returned_def worker_release_def
      worker_finish_def split: if_splits list.splits worker_phase.splits option.splits)

lemma wait_inv:
  "exec_inv e \<Longrightarrow> wait_executor ow jf e = Some (r, e') \<Longrightarrow> exec_inv e'"
  "exec_inv e \<Longrightarrow> wait_executor_for ow ex jf e = Some (r', e') \<Longrightarrow> exec_inv e'"
  by (auto simp: exec_inv_def all_ids_def wait_executor_def wait_executor_for_def join_worker_def executor_error_def
      split: if_splits prod.splits sum.splits)

lemma exec_step_inv: "exec_step e ev e' \<Longrightarrow> exec_inv e \<Longrightarrow> exec_inv e'"
  by (erule exec_stepE)
     (blast intro: enqueue_inv, blast intro: enqueue_inv, metis snd_conv cancel_inv,
      metis snd_conv stop_executor_inv, (blast intro: worker_inv wait_inv)+)

interpretation exec: invariant_system "\<lambda>e e'. \<exists>ev. exec_step e ev e'" exec_inv
  by unfold_locales (blast intro: exec_step_inv)

lemma exec_run_star: "exec_run e evs e' \<Longrightarrow> (\<lambda>e e'. \<exists>ev. exec_step e ev e')\<^sup>*\<^sup>* e e'"
  by (induction rule: exec_run.induct) (auto intro: rtranclp.rtrancl_into_rtrancl)

lemma exec_run_inv: "exec_run (new_executor n) evs e \<Longrightarrow> exec_inv e"
  using exec.run_inv exec_run_star exec_inv_new by blast

subsection \<open>Order of execution\<close>

fun accepted :: "'c exec_event list \<Rightarrow> 'c list" where
  "accepted [] = []"
| "accepted (Accepted w # evs) = work_call w # accepted evs"
| "accepted (_ # evs) = accepted evs"

fun started :: "'c exec_event list \<Rightarrow> 'c list" where
  "started [] = []"
| "started (Started c # evs) = c # started evs"
| "started (_ # evs) = started evs"

fun discarded :: "'c exec_event list \<Rightarrow> 'c list" where
  "discarded [] = []"
| "discarded (Discarded ws # evs) = map work_call ws @ discarded evs"
| "discarded (_ # evs) = discarded evs"

lemma events_append [simp]:
  "accepted (xs @ ys) = accepted xs @ accepted ys"
  "started (xs @ ys) = started xs @ started ys"
  "discarded (xs @ ys) = discarded xs @ discarded ys"
proof -
  show "accepted (xs @ ys) = accepted xs @ accepted ys" by (induction xs rule: accepted.induct) simp_all
  show "started (xs @ ys) = started xs @ started ys" by (induction xs rule: started.induct) simp_all
  show "discarded (xs @ ys) = discarded xs @ discarded ys" by (induction xs rule: discarded.induct) simp_all
qed

definition queue_spec :: "'c exec_event list \<Rightarrow> 'c executor \<Rightarrow> bool" where
  "queue_spec evs e \<longleftrightarrow>
     subseq (started evs @ map work_call (pending e)) (accepted evs) \<and>
     mset (accepted evs) = mset (started evs) + mset (map work_call (pending e)) + mset (discarded evs)"

lemma queue_step:
  assumes "exec_step e ev e'" "queue_spec evs e"
  shows "queue_spec (evs @ [ev]) e'"
  using assms(1)
proof cases
  case (step_enqueue i c)
  then have "e' = e\<lparr>pending := pending e @ [\<lparr>work_id = i, work_stop = False, work_call = c\<rparr>]\<rparr>"
    using enqueue_cases [of i "Some c" e] by fastforce
  then show ?thesis
    using assms(2) step_enqueue(1) unfolding queue_spec_def
    by (auto simp flip: append_assoc intro: list_emb_append_mono)
next
  case (step_cancel i ws)
  obtain t r where tr: "take_first (\<lambda>w. same_request_id (work_id w) i) (pending e) = (t, r)" by force
  consider "ws = []" "pending e' = pending e" | "ws = t" "pending e' = r"
    using step_cancel(2) tr by (auto simp: cancel_def split: if_splits)
  then show ?thesis
  proof cases
    case 1
    then show ?thesis using assms(2) step_cancel(1) by (simp add: queue_spec_def)
  next
    case 2
    consider "ws = []" "pending e' = pending e"
      | as w bs where "ws = [w]" "pending e = as @ w # bs" "pending e' = as @ bs"
      using take_first_split [OF tr] 2 by blast
    then show ?thesis
    proof cases
      case 2
      have "subseq (started evs @ map work_call (as @ bs)) (started evs @ map work_call (as @ w # bs))"
        by (intro list_emb_append_mono) (auto intro: list_emb_append_mono)
      then show ?thesis
        using assms(2) step_cancel(1) 2 unfolding queue_spec_def
        by (auto intro: subseq_order.trans)
    qed (use assms(2) step_cancel(1) in \<open>simp add: queue_spec_def\<close>)
  qed
next
  case (step_stop ws)
  then have "ws = pending e" "pending e' = []" by (auto simp: stop_executor_def)
  moreover have "subseq (started evs) (started evs @ map work_call (pending e))"
    by (simp add: list_emb_prefix)
  ultimately show ?thesis
    using assms(2) step_stop(1) unfolding queue_spec_def
    by (auto intro: subseq_order.trans)
next
  case (step_take w)
  then have "\<exists>ws. pending e = w # ws \<and> pending e' = ws"
    by (auto simp: worker_wake_def split: if_splits list.splits)
  then show ?thesis using assms(2) step_take(1) by (auto simp: queue_spec_def)
next
  case (step_rejected i call err)
  then have "e' = e" using enqueue_cases [of i call e] by fastforce
  then show ?thesis using assms(2) step_rejected(1) by (simp add: queue_spec_def)
qed (use assms(2) in \<open>auto simp: queue_spec_def worker_wake_def worker_returned_def worker_release_def
       worker_finish_def wait_executor_def wait_executor_for_def join_worker_def executor_error_def
       split: if_splits list.splits worker_phase.splits prod.splits sum.splits\<close>)

lemma queue_run: "exec_run e evs e' \<Longrightarrow> queue_spec [] e \<Longrightarrow> queue_spec evs e'"
  by (induction rule: exec_run.induct) (auto intro: queue_step)

lemma exec_run_queue: "exec_run (new_executor n) evs e \<Longrightarrow> queue_spec evs e"
  by (erule queue_run) (simp add: queue_spec_def new_executor_def)

subsection \<open>Shutdown\<close>

lemma enqueue_stopping: "stopping e \<Longrightarrow> is_ok (fst (enqueue i call e)) = False"
  by (auto simp: enqueue_def executor_error_def split: option.split)

lemma exec_step_stopping: "exec_step e ev e' \<Longrightarrow> stopping e \<Longrightarrow> stopping e'"
  by (erule exec_stepE)
     (auto simp: enqueue_def executor_error_def cancel_def stop_executor_def worker_wake_def worker_returned_def
       worker_release_def worker_finish_def wait_executor_def wait_executor_for_def join_worker_def
       split: if_splits option.splits list.splits worker_phase.splits prod.splits sum.splits)

lemma exec_step_no_start:
  "exec_step e ev e' \<Longrightarrow> stopping e \<Longrightarrow> (\<forall>c. ev \<noteq> Started c) \<and> (\<forall>w. ev \<noteq> Accepted w)"
  by (erule exec_stepE)
     (auto simp: enqueue_def executor_error_def worker_wake_def split: if_splits option.splits list.splits)

text \<open>
  The worker on its own, once stop was requested and its callback (if any) has returned:
  it reaches \<open>finished\<close> in at most four steps.
\<close>

definition worker_next :: "'c executor \<Rightarrow> 'c executor option" where
  "worker_next e =
     (case phase e of
        Waiting \<Rightarrow> worker_wake e | Calling _ \<Rightarrow> worker_returned e
      | Releasing _ \<Rightarrow> worker_release e | Exiting \<Rightarrow> worker_finish e)"

fun worker_steps :: "nat \<Rightarrow> 'c executor \<Rightarrow> 'c executor" where
  "worker_steps 0 e = e"
| "worker_steps (Suc n) e = (case worker_next e of None \<Rightarrow> e | Some e' \<Rightarrow> worker_steps n e')"

lemma worker_steps_finish: "stopping e \<Longrightarrow> finished (worker_steps 4 e)"
  by (cases "phase e")
     (simp_all add: eval_nat_numeral worker_next_def worker_wake_def worker_returned_def worker_release_def
       worker_finish_def)

end
