(* ===== verification/Wire_Properties.thy ===== *)
theory Wire_Properties
  imports Message_Decoder Policy Executor
begin

text \<open>
  The properties of the wire format: what \<open>basic_json::dump\<close> writes, the frame limit, the
  protocol's codecs, the message decoder and the identity of request ids.
\<close>

subsection \<open>The serializer\<close>

text \<open>
  C5. Serialization is the compact rendering. \<open>dump()\<close> writes the reference rendering of
  the value (members in key order, no white space, decimal integers, minimal escapes) exactly
  when every string of the value is well-formed UTF-8, and throws \<open>type_error.316\<close> otherwise.
\<close>

theorem dump_is_rendering:
  "json_dump fc j = (if strings_valid j then Inr (render fc j) else Inl (Type_error 316))"
  by (rule json_dump_render)



text \<open>
  Strings. \<open>dump_escaped\<close> through its 512-byte staging buffer writes the byte-wise
  escaping of a well-formed UTF-8 string, whatever the length of the string, and throws on
  anything else.
\<close>

theorem dump_escaped_is_escape:
  "w_text (dump_escaped s False) = (if utf8_valid s then Inr (concat (map escape_byte s)) else Inl (Type_error 316))"
  by (simp only: dump_escaped_correct escape_def)

text \<open>
  Integers. The two-digits-at-a-time routine of \<open>dump_integer\<close>, filling its 64-byte
  buffer from the right with the table of pairs, writes the decimal numeral of every 64-bit
  integer, the most negative one included.
\<close>

theorem dump_integer_is_decimal:
  assumes "length nb = 64"
  shows "dump_unsigned nb x = dec (unat x) \<and> dump_signed nb y = dec_int (sint y)"
  using assms by (simp add: dump_unsigned_dec dump_signed_dec)

lemma dump_integer_is_decimal_witness:
  "dump_unsigned (replicate 64 CHR 0x00) 0xFFFFFFFFFFFFFFFF = ''18446744073709551615'' \<and>
   dump_signed (replicate 64 CHR 0x00) 0x8000000000000000 = ''-9223372036854775808''"
  using dump_integer_is_decimal [of "replicate 64 CHR 0x00" "0xFFFFFFFFFFFFFFFF" "0x8000000000000000"]
  by (simp add: dec_small dec_step dec_int_def digit_char_def char_of_def bit_0)

text \<open>
  C16. The frame limit. The preflight, which serializes into a counting buffer, accepts a value
  exactly when it can be dumped and its text is no longer than the limit.
\<close>

theorem preflight_is_length:
  "frame_fits fc j limit \<longleftrightarrow> (\<exists>t. json_dump fc j = Inr t \<and> length t \<le> limit)"
  by (auto simp: frame_fits_iff split: sum.split)

subsection \<open>Codecs\<close>

text \<open>
  C13. Round trips of the protocol types: reading back what was written gives the same error,
  request, notification, tool, resource and prompt, and the same response when it carries
  exactly one of a result and an error.
\<close>

theorem codecs_round_trip:
  assumes "(resp_err rsp = None) \<noteq> (resp_result rsp = None)"
  shows "error_from_json (error_to_json e) = Inr e \<and>
    request_from_json (request_to_json rq) = Inr rq \<and>
    notification_from_json (notification_to_json n) = Inr n \<and>
    response_from_json (response_to_json rsp) = Inr rsp \<and>
    tool_from_json (tool_to_json t) = Inr t \<and>
    resource_from_json (resource_to_json r) = Inr r \<and>
    prompt_from_json (prompt_to_json p) = Inr p"
  using assms
  by (simp add: error_codec.dec_enc request_codec.dec_enc notification_codec.dec_enc tool_codec.dec_enc
      resource_codec.dec_enc prompt_codec.dec_enc response_codec.dec_enc response_canonical_def)

lemma codecs_round_trip_witness:
  "response_from_json (response_to_json
     \<lparr>msg_jsonrpc = ''2.0'', resp_id = Id_uint64 7, resp_result = Some (JBool True), resp_err = None\<rparr>) =
   Inr \<lparr>msg_jsonrpc = ''2.0'', resp_id = Id_uint64 7, resp_result = Some (JBool True), resp_err = None\<rparr>"
  using codecs_round_trip [of "\<lparr>msg_jsonrpc = ''2.0'', resp_id = Id_uint64 7, resp_result = Some (JBool True), resp_err = None\<rparr>"]
  by simp

text \<open>
  C11. The decoder. A value is decoded as a request, a notification or a response exactly when
  it satisfies the grammar of that kind; every other value gives an invalid-request error that
  echoes the id when it can be read.
\<close>

theorem decode_message_iff:
  "((\<exists>r. decode_message j = Inr (In_request r)) \<longleftrightarrow> wire_request j) \<and>
   ((\<exists>n. decode_message j = Inr (In_notification n)) \<longleftrightarrow> wire_notification j) \<and>
   ((\<exists>r. decode_message j = Inr (In_response r)) \<longleftrightarrow> wire_response j) \<and>
   (decode_message j = Inl d \<longleftrightarrow>
     \<not> (wire_request j \<or> wire_notification j \<or> wire_response j) \<and>
     d = decode_failure (if is_object j then diagnostic_id j else Id_null))"
proof -
  have "\<not> (wire_request j \<and> wire_notification j)" "\<not> (wire_request j \<and> wire_response j)"
    "\<not> (wire_notification j \<and> wire_response j)"
    by (auto simp: wire_request_def wire_notification_def wire_response_def wire_call_def dest: member_sat_containsD)
  then show ?thesis by (auto simp: decode_cases)
qed

text \<open>
  C12. The decoder inverts the encoders on messages that keep the protocol: requests with a
  string or integer id, notifications, and responses with exactly one of a result and an error.
\<close>

theorem decoder_inverts_encoders:
  "(msg_jsonrpc r = ''2.0'' \<and> req_id r \<noteq> Id_null \<and> pred_option is_structured (req_params r) \<longrightarrow>
     decode_message (request_to_json r) = Inr (In_request r)) \<and>
   (msg_jsonrpc n = ''2.0'' \<and> pred_option is_structured (note_params n) \<longrightarrow>
     decode_message (notification_to_json n) = Inr (In_notification n)) \<and>
   (msg_jsonrpc p = ''2.0'' \<and> response_canonical p \<and> (resp_err p = None \<longrightarrow> resp_id p \<noteq> Id_null) \<longrightarrow>
     decode_message (response_to_json p) = Inr (In_response p))"
  by (simp add: decode_request_to_json decode_notification_to_json decode_response_to_json)

lemma decoder_inverts_encoders_witness:
  "decode_message (request_to_json
     \<lparr>msg_jsonrpc = ''2.0'', req_id = Id_string ''a'', req_method = ''ping'', req_params = Some (JObj [])\<rparr>) =
   Inr (In_request \<lparr>msg_jsonrpc = ''2.0'', req_id = Id_string ''a'', req_method = ''ping'', req_params = Some (JObj [])\<rparr>)"
  using decoder_inverts_encoders
    [of "\<lparr>msg_jsonrpc = ''2.0'', req_id = Id_string ''a'', req_method = ''ping'', req_params = Some (JObj [])\<rparr>"]
  by (simp add: is_structured_def)

definition integer_id :: "json_rpc_id \<Rightarrow> int option" where
  "integer_id i = (case i of Id_int64 w \<Rightarrow> Some (sint w) | Id_uint64 w \<Rightarrow> Some (uint w) | _ \<Rightarrow> None)"

text \<open>
  Request identity. \<open>same_request_id\<close> relates two ids exactly when they are the same
  string or the same integer, whichever of the signed and unsigned alternatives holds it, and
  a null id is related to nothing.
\<close>

theorem same_request_id_is_wire_identity:
  "same_request_id a b \<longleftrightarrow>
     (\<exists>s. a = Id_string s \<and> b = Id_string s) \<or>
     (\<exists>i. integer_id a = Some i \<and> integer_id b = Some i)"
  by (cases a; cases b) (auto simp: same_request_id_key id_key_def integer_id_def)

end
