(* ===== verification/Schema.thy ===== *)
theory Schema
  imports Effects Rendering
begin

text \<open>
  detail/schema_validator.hpp, the validation half: the checks and error mapping around the
  JSON Schema engine (jsoncons, not part of the repository). What a compiled evaluator
  answers for a serialized instance is a function \<open>string \<Rightarrow> engine_answer\<close>; how a schema
  is compiled (\<open>compile_schema\<close>) is a parameter of the server.
\<close>

datatype validation_failure_kind = instance_mismatch | invalid_instance | engine_failure

record validation_failure =
  vf_kind :: validation_failure_kind
  vf_instance_pointer :: string
  vf_schema_pointer :: string

text \<open>
  The engine parses the text and walks it; the first message it reports ends the walk. The
  answer: no message, a message (instance location, schema location fragment, keyword), or
  an exception.
\<close>

datatype engine_answer = Engine_valid | Engine_message string string string | Engine_throws

type_synonym schema_engine = "string \<Rightarrow> engine_answer"

text \<open>A moved-from \<open>compiled_schema\<close> has no evaluator.\<close>

record compiled_schema =
  cs_evaluator :: "schema_engine option"

type_synonym schema_compiler = "json \<Rightarrow> sdk_error + compiled_schema"

fun representable :: "json \<Rightarrow> bool" where
  "representable (JBin _ _) = False"
| "representable JDiscarded = False"
| "representable (JFloat w) = f64_isfinite w"
| "representable (JObj m) = (\<forall>kv \<in> set m. representable (snd kv))"
| "representable (JArr xs) = (\<forall>x \<in> set xs. representable x)"
| "representable _ = True"

definition diagnostic_pointer :: "string \<Rightarrow> string" where
  "diagnostic_pointer p =
     (if p \<noteq> [] \<and> hd p \<noteq> CHR ''/'' then []
      else if list_ex (\<lambda>c. byte c < 32 \<or> byte c = 127) p then [] else p)"

definition validate :: "float_printer \<Rightarrow> compiled_schema \<Rightarrow> json \<Rightarrow> validation_failure + unit" where
  "validate fc cs inst =
     (case cs_evaluator cs of
        None \<Rightarrow> Inl \<lparr>vf_kind = engine_failure, vf_instance_pointer = [], vf_schema_pointer = []\<rparr>
      | Some engine \<Rightarrow>
          if \<not> representable inst
          then Inl \<lparr>vf_kind = invalid_instance, vf_instance_pointer = [], vf_schema_pointer = []\<rparr>
          else case json_dump fc inst of
              Inl _ \<Rightarrow> Inl \<lparr>vf_kind = invalid_instance, vf_instance_pointer = [], vf_schema_pointer = []\<rparr>
            | Inr encoded \<Rightarrow>
                (case engine encoded of
                   Engine_throws \<Rightarrow> Inl \<lparr>vf_kind = engine_failure, vf_instance_pointer = [], vf_schema_pointer = []\<rparr>
                 | Engine_valid \<Rightarrow> Inr ()
                 | Engine_message location fragment keyword \<Rightarrow>
                     Inl \<lparr>vf_kind = instance_mismatch, vf_instance_pointer = diagnostic_pointer location,
                          vf_schema_pointer = diagnostic_pointer
                            (if keyword = ''type'' then fragment @ ''/type'' else fragment)\<rparr>))"

text \<open>Pointers handed out are empty or start with a slash and hold no control character.\<close>

lemma diagnostic_pointer_safe:
  "diagnostic_pointer p = [] \<or>
   (hd (diagnostic_pointer p) = CHR ''/'' \<and> (\<forall>c \<in> set (diagnostic_pointer p). 32 \<le> byte c \<and> byte c \<noteq> 127))"
  by (auto simp: diagnostic_pointer_def list_ex_iff not_less)

lemma validate_mismatch_iff:
  "(\<exists>f. validate fc cs j = Inl f \<and> vf_kind f = instance_mismatch) \<longleftrightarrow>
     representable j \<and> strings_valid j \<and>
     (\<exists>engine a b c. cs_evaluator cs = Some engine \<and> engine (render fc j) = Engine_message a b c)"
  by (auto simp: validate_def json_dump_render split: option.split engine_answer.split)

lemma validate_ok_iff:
  "validate fc cs j = Inr () \<longleftrightarrow>
     representable j \<and> strings_valid j \<and>
     (\<exists>engine. cs_evaluator cs = Some engine \<and> engine (render fc j) = Engine_valid)"
  by (auto simp: validate_def json_dump_render split: option.split engine_answer.split)

end
