(* ===== verification/Uri.thy ===== *)
theory Uri
  imports Integer_Text
begin

text \<open>
  \<open>server::valid_resource_uri\<close>: the RFC 3986 syntax check of resource identifiers. A
  \<open>std::string_view\<close> is a list of bytes; \<open>find\<close> is the index of the first occurrence.
\<close>

fun sv_find :: "char \<Rightarrow> string \<Rightarrow> nat option" where
  "sv_find c [] = None"
| "sv_find c (d # s) = (if c = d then Some 0 else map_option Suc (sv_find c s))"

fun sv_find2 :: "string \<Rightarrow> nat option" where
  "sv_find2 (c # d # s) =
     (if c = CHR '':'' \<and> d = CHR '':'' then Some 0 else map_option Suc (sv_find2 (d # s)))"
| "sv_find2 _ = None"

definition upto_find :: "nat option \<Rightarrow> string \<Rightarrow> string" where
  "upto_find i s = (case i of None \<Rightarrow> s | Some n \<Rightarrow> take n s)"

definition uri_alpha :: "char \<Rightarrow> bool" where
  "uri_alpha c \<longleftrightarrow> (97 \<le> byte c \<and> byte c \<le> 122) \<or> (65 \<le> byte c \<and> byte c \<le> 90)"

definition uri_hex :: "char \<Rightarrow> bool" where
  "uri_hex c \<longleftrightarrow> is_digit c \<or> (97 \<le> byte c \<and> byte c \<le> 102) \<or> (65 \<le> byte c \<and> byte c \<le> 70)"

definition uri_unreserved :: "char \<Rightarrow> bool" where
  "uri_unreserved c \<longleftrightarrow> uri_alpha c \<or> is_digit c \<or> c \<in> set ''-._~''"

definition sub_delims :: string where
  "sub_delims = [CHR ''!'', CHR 0x24, CHR ''&'', CHR 0x27, CHR ''('', CHR '')'', CHR ''*'', CHR ''+'',
                 CHR '','', CHR '';'', CHR ''='']"

fun uri_component :: "string \<Rightarrow> string \<Rightarrow> bool" where
  "uri_component extra [] = True"
| "uri_component extra (c # s) =
     (if c = CHR ''%'' then
        (case s of a # b # s' \<Rightarrow> uri_hex a \<and> uri_hex b \<and> uri_component extra s' | _ \<Rightarrow> False)
      else (uri_unreserved c \<or> c \<in> set sub_delims \<or> c \<in> set extra) \<and> uri_component extra s)"

text \<open>The dotted quad: \<open>i\<close> counts the octets read so far.\<close>

definition octet_value :: "string \<Rightarrow> nat" where
  "octet_value s = foldl (\<lambda>v c. v * 10 + (byte c - 48)) 0 s"

function ipv4_from :: "nat \<Rightarrow> string \<Rightarrow> bool" where
  "ipv4_from i s =
     (if 4 \<le> i then True
      else let dot = sv_find CHR ''.'' s; octet = upto_find dot s in
        if octet = [] \<or> 3 < length octet \<or> (1 < length octet \<and> hd octet = CHR ''0'') then False
        else if \<not> list_all is_digit octet then False
        else if 255 < octet_value octet \<or> (i < 3) \<noteq> (dot \<noteq> None) then False
        else ipv4_from (Suc i) (case dot of None \<Rightarrow> s | Some n \<Rightarrow> drop (Suc n) s))"
  by pat_completeness auto
termination
  by (relation "measure (\<lambda>(i, s). 4 - i)") auto

declare ipv4_from.simps [simp del]

text \<open>
  \<open>count_groups\<close>: the 16-bit groups of one side of an IPv6 address; \<open>None\<close> is the result
  \<open>false\<close>.
\<close>

function count_groups :: "bool \<Rightarrow> string \<Rightarrow> nat \<Rightarrow> nat option" where
  "count_groups tail part groups =
     (if part = [] then Some groups
      else let separator = sv_find CHR '':'' part; group = upto_find separator part in
        if group = [] then None
        else case
            (if CHR ''.'' \<in> set group then
               (if \<not> tail \<or> separator \<noteq> None then None
                else if ipv4_from 0 group then Some (groups + 2) else None)
             else if 4 < length group \<or> \<not> list_all uri_hex group then None
             else Some (groups + 1))
          of None \<Rightarrow> None
          | Some groups' \<Rightarrow>
              (case separator of None \<Rightarrow> Some groups'
               | Some n \<Rightarrow> if drop (Suc n) part = [] then None else count_groups tail (drop (Suc n) part) groups'))"
  by pat_completeness auto
termination
  by (relation "measure (\<lambda>(t, part, g). length part)") auto

declare count_groups.simps [simp del]

definition valid_ipv6 :: "string \<Rightarrow> bool" where
  "valid_ipv6 address =
     (case sv_find2 address of
        None \<Rightarrow> count_groups True address 0 = Some 8
      | Some n \<Rightarrow>
          if sv_find2 (drop (n + 2) address) \<noteq> None then False
          else case count_groups False (take n address) 0 of
              None \<Rightarrow> False
            | Some g \<Rightarrow> (case count_groups True (drop (n + 2) address) g of
                  None \<Rightarrow> False | Some g' \<Rightarrow> g' < 8))"

definition valid_ip_future :: "string \<Rightarrow> bool" where
  "valid_ip_future address =
     (case sv_find CHR ''.'' address of
        None \<Rightarrow> False
      | Some dot \<Rightarrow>
          if dot < 2 \<or> dot + 1 = length address then False
          else list_all uri_hex (take (dot - 1) (drop 1 address)) \<and>
               CHR ''%'' \<notin> set (drop (dot + 1) address) \<and> uri_component '':'' (drop (dot + 1) address))"

text \<open>The port after a host, \<open>None\<close> when the host is malformed.\<close>

definition host_port :: "string \<Rightarrow> string option" where
  "host_port authority =
     (if authority \<noteq> [] \<and> hd authority = CHR ''['' then
        (case sv_find CHR '']'' authority of
           None \<Rightarrow> None
         | Some end \<Rightarrow>
             let address = take (end - 1) (drop 1 authority);
                 suffix = drop (end + 1) authority
             in if \<not> (if address \<noteq> [] \<and> (hd address = CHR ''v'' \<or> hd address = CHR ''V'')
                       then valid_ip_future address else valid_ipv6 address)
                then None
                else if suffix \<noteq> [] \<and> hd suffix \<noteq> CHR '':'' then None
                else Some (if suffix \<noteq> [] then drop 1 suffix else []))
      else
        let separator = sv_find CHR '':'' authority
        in if \<not> uri_component [] (upto_find separator authority) then None
           else Some (case separator of None \<Rightarrow> [] | Some n \<Rightarrow> drop (n + 1) authority))"

definition valid_authority :: "string \<Rightarrow> bool" where
  "valid_authority authority =
     (case sv_find CHR ''@'' authority of
        Some at \<Rightarrow> uri_component '':'' (take at authority) \<and>
          (case host_port (drop (at + 1) authority) of None \<Rightarrow> False | Some port \<Rightarrow> list_all is_digit port)
      | None \<Rightarrow> (case host_port authority of None \<Rightarrow> False | Some port \<Rightarrow> list_all is_digit port))"

text \<open>The optional part after \<open>#\<close> or \<open>?\<close>: what is left of it, or \<open>None\<close> when malformed.\<close>

definition strip_suffix :: "char \<Rightarrow> string \<Rightarrow> string option" where
  "strip_suffix c rest =
     (case sv_find c rest of
        None \<Rightarrow> Some rest
      | Some n \<Rightarrow> if uri_component '':@/?'' (drop (n + 1) rest) then Some (take n rest) else None)"

definition valid_hier_part :: "string \<Rightarrow> bool" where
  "valid_hier_part rest =
     (if take 2 rest = ''//'' then
        let rest = drop 2 rest;
            slash = sv_find CHR ''/'' rest
        in valid_authority (upto_find slash rest) \<and>
           uri_component '':@/'' (case slash of None \<Rightarrow> [] | Some n \<Rightarrow> drop n rest)
      else uri_component '':@/'' rest)"

definition valid_resource_uri :: "string \<Rightarrow> bool" where
  "valid_resource_uri uri =
     (case sv_find CHR '':'' uri of
        None \<Rightarrow> False
      | Some colon \<Rightarrow>
          if colon = 0 \<or> \<not> uri_alpha (hd uri) then False
          else if \<not> list_all (\<lambda>c. uri_alpha c \<or> is_digit c \<or> c \<in> set ''+-.'') (take (colon - 1) (drop 1 uri))
          then False
          else case strip_suffix CHR ''#'' (drop (colon + 1) uri) of
              None \<Rightarrow> False
            | Some rest \<Rightarrow>
                (case strip_suffix CHR ''?'' rest of None \<Rightarrow> False | Some rest \<Rightarrow> valid_hier_part rest))"

subsection \<open>Splitting\<close>

lemma sv_find_Some: "sv_find c s = Some n \<Longrightarrow> s = take n s @ c # drop (Suc n) s \<and> n < length s \<and> c \<notin> set (take n s)"
  by (induction c s arbitrary: n rule: sv_find.induct) (auto split: if_splits)

lemma sv_find_None: "sv_find c s = None \<longleftrightarrow> c \<notin> set s"
  by (induction c s rule: sv_find.induct) auto

lemma sv_find_append: "c \<notin> set s \<Longrightarrow> sv_find c (s @ c # t) = Some (length s)"
  by (induction s) auto

lemma sv_find2_Some: "sv_find2 s = Some n \<Longrightarrow> s = take n s @ ''::'' @ drop (n + 2) s"
  by (induction s arbitrary: n rule: sv_find2.induct) (auto split: if_splits)

lemma set_split: "s = take n s @ c # drop (Suc n) s \<Longrightarrow> set s = set (take n s) \<union> insert c (set (drop (Suc n) s))"
  by (metis Un_insert_right list.simps(15) set_append)

subsection \<open>The repertoire\<close>

text \<open>
  The characters RFC 3986 allows in a URI: reserved, unreserved and the percent sign.
\<close>

definition uri_char :: "char \<Rightarrow> bool" where
  "uri_char c \<longleftrightarrow> uri_unreserved c \<or> c \<in> set sub_delims \<or> c \<in> set '':/?#[]@%''"

lemma uri_hex_char: "uri_hex c \<Longrightarrow> uri_char c"
  by (auto simp: uri_char_def uri_unreserved_def uri_hex_def uri_alpha_def)

lemma digit_uri_char: "is_digit c \<Longrightarrow> uri_char c"
  by (simp add: uri_char_def uri_unreserved_def)

lemma uri_char_literals [simp]:
  "uri_char CHR '':''" "uri_char CHR ''/''" "uri_char CHR ''?''" "uri_char CHR ''#''" "uri_char CHR ''[''"
  "uri_char CHR '']''" "uri_char CHR ''@''" "uri_char CHR ''%''" "uri_char CHR ''.''" "uri_char CHR ''v''"
  "uri_char CHR ''V''" "uri_char CHR ''+''" "uri_char CHR ''-''"
  by (simp_all add: uri_char_def uri_unreserved_def sub_delims_def uri_alpha_def)

lemma uri_char_intros: "uri_unreserved c \<Longrightarrow> uri_char c" "c \<in> set sub_delims \<Longrightarrow> uri_char c"
  by (simp_all add: uri_char_def)

lemma component_chars:
  "uri_component extra s \<Longrightarrow> set extra \<subseteq> Collect uri_char \<Longrightarrow> set s \<subseteq> Collect uri_char"
  by (induction extra s rule: uri_component.induct)
     (auto intro: uri_hex_char uri_char_intros split: if_splits list.splits)

lemma digits_chars: "list_all is_digit s \<Longrightarrow> set s \<subseteq> Collect uri_char"
  by (auto simp: list_all_iff digit_uri_char)

lemma hexes_chars: "list_all uri_hex s \<Longrightarrow> set s \<subseteq> Collect uri_char"
  by (auto simp: list_all_iff uri_hex_char)

lemma ipv4_chars: "ipv4_from i s \<Longrightarrow> i < 4 \<Longrightarrow> set s \<subseteq> Collect uri_char"
proof (induction i s rule: ipv4_from.induct)
  case (1 i s)
  let ?dot = "sv_find CHR ''.'' s"
  have oct: "list_all is_digit (upto_find ?dot s)" "(i < 3) = (?dot \<noteq> None)"
    and rest: "ipv4_from (Suc i) (case ?dot of None \<Rightarrow> s | Some n \<Rightarrow> drop (Suc n) s)"
    using 1(2,3) by (auto simp: ipv4_from.simps [of i s] Let_def split: if_splits)
  show ?case
  proof (cases ?dot)
    case None
    then show ?thesis using oct digits_chars by (simp add: upto_find_def)
  next
    case (Some n)
    then have "set (drop (Suc n) s) \<subseteq> Collect uri_char"
      using 1 oct rest by (auto simp: ipv4_from.simps [of i s] Let_def split: if_splits)
    moreover have "set (take n s) \<subseteq> Collect uri_char"
      using Some oct(1) digits_chars by (simp add: upto_find_def)
    ultimately show ?thesis
      using set_split [of s n "CHR ''.''"] sv_find_Some [OF Some] by auto
  qed
qed

lemma groups_chars: "count_groups tail part g = Some g' \<Longrightarrow> set part \<subseteq> Collect uri_char"
proof (induction tail part g arbitrary: g' rule: count_groups.induct)
  case (1 tail part g)
  show ?case
  proof (cases "part = []")
    case False
    let ?sep = "sv_find CHR '':'' part"
    let ?group = "upto_find ?sep part"
    note unf = count_groups.simps [of tail part g]
    have grp: "set ?group \<subseteq> Collect uri_char"
      using 1(2) False ipv4_chars [of 0 ?group] hexes_chars [of ?group]
      by (auto simp: unf Let_def split: if_splits)
    show ?thesis
    proof (cases ?sep)
      case None
      then show ?thesis using grp by (simp add: upto_find_def)
    next
      case (Some n)
      obtain h where "count_groups tail (drop (Suc n) part) h = Some g'"
        and h: "(if CHR ''.'' \<in> set ?group then (if \<not> tail \<or> ?sep \<noteq> None then None
                   else if ipv4_from 0 ?group then Some (g + 2) else None)
                 else if 4 < length ?group \<or> \<not> list_all uri_hex ?group then None else Some (g + 1)) = Some h"
        and "?group \<noteq> []" "drop (Suc n) part \<noteq> []"
        using 1(2) False Some by (simp add: unf Let_def split: if_splits option.splits)
      then have "set (drop (Suc n) part) \<subseteq> Collect uri_char"
        using "1.IH" [OF False refl refl _ h Some] by blast
      then show ?thesis
        using grp Some set_split [of part n "CHR '':''"] sv_find_Some [OF Some]
        by (auto simp: upto_find_def)
    qed
  qed simp
qed

lemma ipv6_chars: "valid_ipv6 a \<Longrightarrow> set a \<subseteq> Collect uri_char"
proof (cases "sv_find2 a")
  case None
  then show "valid_ipv6 a \<Longrightarrow> ?thesis" by (auto simp: valid_ipv6_def dest: groups_chars)
next
  case (Some n)
  assume "valid_ipv6 a"
  then have "set (take n a) \<subseteq> Collect uri_char" "set (drop (n + 2) a) \<subseteq> Collect uri_char"
    using Some by (auto simp: valid_ipv6_def dest: groups_chars split: option.splits if_splits)
  moreover have "set a = set (take n a) \<union> set ''::'' \<union> set (drop (n + 2) a)"
    using sv_find2_Some [OF Some] by (metis set_append sup_assoc)
  ultimately show ?thesis by auto
qed

lemma ip_future_chars:
  assumes "valid_ip_future a" "hd a = CHR ''v'' \<or> hd a = CHR ''V''" "a \<noteq> []"
  shows "set a \<subseteq> Collect uri_char"
proof -
  obtain dot where dot: "sv_find CHR ''.'' a = Some dot" "2 \<le> dot"
    and parts: "list_all uri_hex (take (dot - 1) (drop 1 a))" "uri_component '':'' (drop (dot + 1) a)"
    using assms(1) by (auto simp: valid_ip_future_def split: option.splits if_splits)
  have "take dot a = hd a # take (dot - 1) (drop 1 a)"
    using assms(3) dot(2) by (cases a) (auto simp: take_Cons')
  then have "set (take dot a) \<subseteq> Collect uri_char"
    using assms(2) hexes_chars [OF parts(1)] by auto
  moreover have "set (drop (Suc dot) a) \<subseteq> Collect uri_char"
    using component_chars [OF parts(2)] by simp
  ultimately show ?thesis
    using set_split [of a dot "CHR ''.''"] sv_find_Some [OF dot(1)] by auto
qed

lemma upto_find_split:
  "sv_find c s = Some n \<Longrightarrow> set s = set (take n s) \<union> insert c (set (drop (Suc n) s))"
  using set_split [of s n c] sv_find_Some [of c s n] by blast

lemma host_port_chars:
  assumes "host_port a = Some port" "list_all is_digit port"
  shows "set a \<subseteq> Collect uri_char"
proof (cases "a \<noteq> [] \<and> hd a = CHR ''[''")
  case True
  then obtain e where e: "sv_find CHR '']'' a = Some e"
    using assms(1) by (auto simp: host_port_def split: option.splits)
  let ?addr = "take (e - 1) (drop 1 a)" and ?suffix = "drop (e + 1) a"
  have "e \<noteq> 0" using True e by (cases a) auto
  then have tk: "take e a = CHR ''['' # ?addr" using True by (cases a) (auto simp: take_Cons')
  have addr: "set ?addr \<subseteq> Collect uri_char"
    using assms(1) True e ip_future_chars [of ?addr] ipv6_chars [of ?addr]
    by (auto simp: host_port_def Let_def split: if_splits)
  have "set ?suffix \<subseteq> Collect uri_char"
  proof (cases ?suffix)
    case (Cons c s)
    then have "c = CHR '':''" "port = s"
      using assms(1) True e by (auto simp: host_port_def Let_def split: if_splits)
    then show ?thesis using Cons digits_chars [OF assms(2)] by auto
  qed simp
  then show ?thesis using addr tk upto_find_split [OF e] by auto
next
  case False
  let ?sep = "sv_find CHR '':'' a"
  have c: "uri_component [] (upto_find ?sep a)" and p: "port = (case ?sep of None \<Rightarrow> [] | Some n \<Rightarrow> drop (n + 1) a)"
    using assms(1) False by (auto simp: host_port_def Let_def split: if_splits)
  show ?thesis
    using component_chars [OF c] p digits_chars [OF assms(2)] upto_find_split [of "CHR '':''" a]
    by (cases ?sep) (auto simp: upto_find_def)
qed

lemma authority_chars: "valid_authority a \<Longrightarrow> set a \<subseteq> Collect uri_char"
proof (cases "sv_find CHR ''@'' a")
  case None
  then show "valid_authority a \<Longrightarrow> ?thesis"
    by (auto simp: valid_authority_def dest: host_port_chars split: option.splits)
next
  case (Some n)
  assume "valid_authority a"
  then have "uri_component '':'' (take n a)" "set (drop (Suc n) a) \<subseteq> Collect uri_char"
    using Some by (auto simp: valid_authority_def dest: host_port_chars split: option.splits)
  then show ?thesis
    using component_chars [of "'':''" "take n a"] upto_find_split [OF Some] by auto
qed

lemma hier_chars: "valid_hier_part s \<Longrightarrow> set s \<subseteq> Collect uri_char"
proof (cases "take 2 s = ''//''")
  case True
  assume v: "valid_hier_part s"
  let ?r = "drop 2 s"
  let ?slash = "sv_find CHR ''/'' ?r"
  have a: "set (upto_find ?slash ?r) \<subseteq> Collect uri_char"
    and p: "uri_component '':@/'' (case ?slash of None \<Rightarrow> [] | Some n \<Rightarrow> drop n ?r)"
    using v True authority_chars by (auto simp: valid_hier_part_def Let_def)
  have "set ?r \<subseteq> Collect uri_char"
  proof (cases ?slash)
    case (Some n)
    then have "set (drop n ?r) \<subseteq> Collect uri_char" using component_chars [OF p] by simp
    moreover have "set ?r = set (take n ?r) \<union> set (drop n ?r)" by (metis append_take_drop_id set_append)
    ultimately show ?thesis using a Some by (simp add: upto_find_def)
  qed (use a in \<open>simp add: upto_find_def\<close>)
  moreover have "set s = set (take 2 s) \<union> set ?r" by (metis append_take_drop_id set_append)
  ultimately show ?thesis using True by simp
next
  case False
  then show "valid_hier_part s \<Longrightarrow> ?thesis"
    using component_chars [of "'':@/''" s] by (simp add: valid_hier_part_def)
qed

lemma strip_suffix_chars:
  assumes "strip_suffix c s = Some r" "uri_char c" "set r \<subseteq> Collect uri_char"
  shows "set s \<subseteq> Collect uri_char"
proof (cases "sv_find c s")
  case (Some n)
  then have "r = take n s" "uri_component '':@/?'' (drop (Suc n) s)"
    using assms(1) by (auto simp: strip_suffix_def split: if_splits)
  then show ?thesis
    using component_chars [of "'':@/?''" "drop (Suc n) s"] upto_find_split [OF Some] assms by auto
qed (use assms in \<open>simp add: strip_suffix_def\<close>)

lemma valid_uri_chars: "valid_resource_uri u \<Longrightarrow> set u \<subseteq> Collect uri_char"
proof -
  assume v: "valid_resource_uri u"
  then obtain n where n: "sv_find CHR '':'' u = Some n" "n \<noteq> 0" "uri_alpha (hd u)"
    and scheme: "list_all (\<lambda>c. uri_alpha c \<or> is_digit c \<or> c \<in> set ''+-.'') (take (n - 1) (drop 1 u))"
    by (auto simp: valid_resource_uri_def split: option.splits if_splits)
  then obtain r r' where r: "strip_suffix CHR ''#'' (drop (Suc n) u) = Some r" "strip_suffix CHR ''?'' r = Some r'"
      "valid_hier_part r'"
    using v by (auto simp: valid_resource_uri_def split: option.splits if_splits)
  then have rest: "set (drop (Suc n) u) \<subseteq> Collect uri_char"
    by (intro strip_suffix_chars [OF r(1)] strip_suffix_chars [OF r(2)] hier_chars) simp_all
  have "u \<noteq> []" using n(1) by auto
  then have tk: "take n u = hd u # take (n - 1) (drop 1 u)" using n(2) by (cases u) (auto simp: take_Cons')
  have "uri_char c" if "uri_alpha c" for c using that by (simp add: uri_char_def uri_unreserved_def)
  then have "set (take n u) \<subseteq> Collect uri_char"
    using n(3) scheme by (auto simp: tk list_all_iff digit_uri_char)
  then show ?thesis using rest upto_find_split [OF n(1)] by auto
qed

text \<open>The repertoire is printable ASCII without blank, quote or angle brackets.\<close>

lemma uri_char_ascii: "uri_char c \<Longrightarrow> 33 \<le> byte c \<and> byte c \<le> 126 \<and> c \<noteq> quote \<and> c \<noteq> backslash"
  by (auto simp: uri_char_def uri_unreserved_def sub_delims_def uri_alpha_def is_digit_def)

subsection \<open>The dotted quad\<close>

lemma octet_value_snoc: "octet_value (s @ [c]) = octet_value s * 10 + (byte c - 48)"
  by (simp add: octet_value_def)

lemma octet_value_dec: "octet_value (dec n) = n"
proof (induction n rule: dec.induct)
  case (1 n)
  then show ?case
    by (cases "n < 10") (simp_all add: dec_small dec_step octet_value_snoc, simp add: octet_value_def)
qed

lemma digit_char_byte: "is_digit c \<Longrightarrow> digit_char (byte c - 48) = c"
  by (simp add: is_digit_def digit_char_def)

lemma dec_octet_value:
  "s \<noteq> [] \<Longrightarrow> list_all is_digit s \<Longrightarrow> length s = 1 \<or> hd s \<noteq> CHR ''0'' \<Longrightarrow>
     dec (octet_value s) = s \<and> (hd s \<noteq> CHR ''0'' \<longrightarrow> 0 < octet_value s)"
proof (induction s rule: rev_induct)
  case (snoc c s)
  have c: "is_digit c" "byte c - 48 < 10" using snoc.prems(2) by (auto simp: is_digit_def)
  show ?case
  proof (cases "s = []")
    case True
    moreover have "octet_value [c] = byte c - 48" by (simp add: octet_value_def)
    moreover have "0 < byte c - 48" if "c \<noteq> CHR ''0''"
    proof -
      have "byte c \<noteq> byte (CHR ''0'')" using that unfolding byte_eq_iff .
      then have "byte c \<noteq> 48" by simp
      then show ?thesis using c(1) by (simp add: is_digit_def)
    qed
    ultimately show ?thesis using c(2) digit_char_byte [OF c(1)] by (simp add: dec_small)
  next
    case False
    then have "hd s \<noteq> CHR ''0''" using snoc.prems(3) by auto
    then have IH: "dec (octet_value s) = s" "0 < octet_value s"
      using snoc.IH snoc.prems(2) False by auto
    then have "10 \<le> octet_value (s @ [c])" by (simp add: octet_value_snoc)
    moreover have "octet_value (s @ [c]) div 10 = octet_value s" "octet_value (s @ [c]) mod 10 = byte c - 48"
      using c(2) by (simp_all add: octet_value_snoc)
    ultimately show ?thesis
      using IH digit_char_byte [OF c(1)] by (simp add: dec_step)
  qed
qed simp

lemma dec_hd_zero: "hd (dec n) = CHR ''0'' \<Longrightarrow> n = 0"
proof (induction n rule: dec.induct)
  case (1 n)
  show ?case
  proof (cases "n < 10")
    case True
    then have "byte (digit_char n) = 48" using 1(2) by (simp add: dec_small)
    then show ?thesis using True by simp
  next
    case False
    then show ?thesis using 1 by (simp add: dec_step)
  qed
qed

definition octet_ok :: "string \<Rightarrow> bool" where
  "octet_ok s \<longleftrightarrow> s \<noteq> [] \<and> length s \<le> 3 \<and> \<not> (1 < length s \<and> hd s = CHR ''0'') \<and> list_all is_digit s \<and>
     octet_value s \<le> 255"

lemma octet_ok_iff: "octet_ok s \<longleftrightarrow> (\<exists>n<256. s = dec n)"
proof
  assume ok: "octet_ok s"
  then have "length s = 1 \<or> hd s \<noteq> CHR ''0''" by (cases s; cases "tl s") (auto simp: octet_ok_def)
  then have "dec (octet_value s) = s" using ok dec_octet_value [of s] by (simp add: octet_ok_def)
  then show "\<exists>n<256. s = dec n" using ok unfolding octet_ok_def by (intro exI [of _ "octet_value s"]) auto
next
  assume "\<exists>n<256. s = dec n"
  then obtain n where n: "n < 256" "s = dec n" by blast
  have "length s \<le> 3" using n length_dec_le [of n 3] by simp
  moreover have "hd s = CHR ''0'' \<Longrightarrow> length s = 1" using dec_hd_zero [of n] n by auto
  ultimately show "octet_ok s"
    using n by (auto simp: octet_ok_def octet_value_dec list_all_iff dec_digits)
qed

lemma dec_no_dot: "CHR ''.'' \<notin> set (dec n)"
  by (auto dest!: dec_digits simp: is_digit_def)

lemma ipv4_last: "ipv4_from 3 s \<longleftrightarrow> octet_ok s"
proof (cases "sv_find CHR ''.'' s")
  case None
  then show ?thesis
    by (auto simp: ipv4_from.simps [of 3] ipv4_from.simps [of 4] octet_ok_def upto_find_def Let_def not_le)
next
  case (Some n)
  then have "CHR ''.'' \<in> set s" using sv_find_None [of "CHR ''.''" s] by auto
  then have "\<not> octet_ok s" using dec_no_dot by (auto simp: octet_ok_iff)
  then show ?thesis using Some by (simp add: ipv4_from.simps [of 3] Let_def)
qed

lemma ipv4_step:
  "i < 3 \<Longrightarrow> ipv4_from i s \<longleftrightarrow> (\<exists>n t. n < 256 \<and> s = dec n @ CHR ''.'' # t \<and> ipv4_from (Suc i) t)"
proof (cases "sv_find CHR ''.'' s")
  case None
  assume i: "i < 3"
  have "CHR ''.'' \<notin> set s" using None by (simp add: sv_find_None)
  then have "\<not> (\<exists>n t. s = dec n @ CHR ''.'' # t)" by auto
  then show ?thesis using None i by (simp add: ipv4_from.simps [of i s] Let_def)
next
  case (Some k)
  assume i: "i < 3"
  note sp = sv_find_Some [OF Some]
  have "ipv4_from i s \<longleftrightarrow> octet_ok (take k s) \<and> ipv4_from (Suc i) (drop (Suc k) s)"
    using Some i by (auto simp: ipv4_from.simps [of i s] Let_def octet_ok_def upto_find_def not_le)
  also have "\<dots> \<longleftrightarrow> (\<exists>n t. n < 256 \<and> s = dec n @ CHR ''.'' # t \<and> ipv4_from (Suc i) t)"
  proof
    assume "octet_ok (take k s) \<and> ipv4_from (Suc i) (drop (Suc k) s)"
    then show "\<exists>n t. n < 256 \<and> s = dec n @ CHR ''.'' # t \<and> ipv4_from (Suc i) t"
      using sp unfolding octet_ok_iff by metis
  next
    assume "\<exists>n t. n < 256 \<and> s = dec n @ CHR ''.'' # t \<and> ipv4_from (Suc i) t"
    then obtain n t where n: "n < 256" "s = dec n @ CHR ''.'' # t" "ipv4_from (Suc i) t" by blast
    then have "k = length (dec n)" using Some sv_find_append [OF dec_no_dot, of n t] by simp
    then show "octet_ok (take k s) \<and> ipv4_from (Suc i) (drop (Suc k) s)"
      using n by (auto simp: octet_ok_iff)
  qed
  finally show ?thesis .
qed

lemma ipv4_iff:
  "ipv4_from 0 s \<longleftrightarrow>
     (\<exists>a b c d. a < 256 \<and> b < 256 \<and> c < 256 \<and> d < 256 \<and>
        s = dec a @ ''.'' @ dec b @ ''.'' @ dec c @ ''.'' @ dec d)"
proof -
  have "ipv4_from 2 u \<longleftrightarrow> (\<exists>c d. c < 256 \<and> d < 256 \<and> u = dec c @ ''.'' @ dec d)" for u
  proof -
    have "Suc 2 = 3" by simp
    then have "ipv4_from 2 u \<longleftrightarrow> (\<exists>n t. n < 256 \<and> u = dec n @ CHR ''.'' # t \<and> octet_ok t)"
      using ipv4_step [of 2 u] by (simp add: ipv4_last)
    then show ?thesis by (auto simp: octet_ok_iff)
  qed
  then have two: "ipv4_from 2 u \<longleftrightarrow> (\<exists>c d. c < 256 \<and> d < 256 \<and> u = dec c @ ''.'' @ dec d)" for u .
  have one: "ipv4_from 1 u \<longleftrightarrow> (\<exists>b c d. b < 256 \<and> c < 256 \<and> d < 256 \<and> u = dec b @ ''.'' @ dec c @ ''.'' @ dec d)" for u
  proof -
    have "ipv4_from 1 u \<longleftrightarrow> (\<exists>n t. n < 256 \<and> u = dec n @ CHR ''.'' # t \<and> ipv4_from 2 t)"
      using ipv4_step [of 1 u] by (simp add: numeral_2_eq_2)
    then show ?thesis unfolding two by (metis append_Cons append_Nil)
  qed
  have "ipv4_from 0 s \<longleftrightarrow> (\<exists>n t. n < 256 \<and> s = dec n @ CHR ''.'' # t \<and> ipv4_from 1 t)"
    using ipv4_step [of 0 s] by simp
  then show ?thesis unfolding one by (metis append_Cons append_Nil)
qed

end
