(* ===== verification/Registry.thy ===== *)
theory Registry
  imports Policy Schema Uri
begin

text \<open>
  The registries of the server (server.hpp): tools, resources and prompts in key order, with
  the descriptor checks of \<open>register_tool\<close>, \<open>register_resource\<close> and
  \<open>register_prompt\<close>, and the lifecycle they depend on.
\<close>

datatype lifecycle = configuring | starting | running | stopping_down | stopped

instantiation lifecycle :: linorder
begin

fun lifecycle_rank :: "lifecycle \<Rightarrow> nat" where
  "lifecycle_rank configuring = 0"
| "lifecycle_rank starting = 1"
| "lifecycle_rank running = 2"
| "lifecycle_rank stopping_down = 3"
| "lifecycle_rank stopped = 4"

definition less_eq_lifecycle :: "lifecycle \<Rightarrow> lifecycle \<Rightarrow> bool" where
  "a \<le> b \<longleftrightarrow> lifecycle_rank a \<le> lifecycle_rank b"

definition less_lifecycle :: "lifecycle \<Rightarrow> lifecycle \<Rightarrow> bool" where
  "a < b \<longleftrightarrow> lifecycle_rank a < lifecycle_rank b"

instance
proof
  fix a b :: lifecycle
  show "a \<le> b \<Longrightarrow> b \<le> a \<Longrightarrow> a = b"
    by (cases a; cases b) (simp_all add: less_eq_lifecycle_def)
qed (auto simp: less_eq_lifecycle_def less_lifecycle_def)

end

record 'a registered_tool =
  rt_descriptor :: tool
  rt_handler :: "'a tool_handler"
  rt_validator :: compiled_schema

record 'a registered_resource =
  rr_descriptor :: mcp_resource
  rr_handler :: "'a resource_handler"

record 'a registered_prompt =
  rp_descriptor :: mcp_prompt
  rp_handler :: "'a prompt_handler"

record 'a registries =
  tools :: "(string, 'a registered_tool) omap"
  resources :: "(string, 'a registered_resource) omap"
  prompts :: "(string, 'a registered_prompt) omap"

definition no_registries :: "'a registries" where
  "no_registries = \<lparr>tools = [], resources = [], prompts = []\<rparr>"

definition local_error :: "string \<Rightarrow> sdk_error + 'x" where
  "local_error m = Inl \<lparr>sdk_code = invalid_state, sdk_message = m\<rparr>"

text \<open>\<open>safe_text\<close> repeats the checks of \<open>server_policy::valid_text\<close> on a \<open>std::string\<close>.\<close>

definition safe_text :: "string \<Rightarrow> bool" where
  "safe_text t \<longleftrightarrow> \<not> list_ex control_char t \<and> is_ok (json_dump no_float (JStr t))"

subsection \<open>Registration\<close>

text \<open>
  A registration sees the lifecycle and the registries; \<open>handler\<close> is \<open>None\<close> for an
  empty \<open>std::function\<close>.
\<close>

definition tool_descriptor_ok :: "'a registries \<Rightarrow> tool \<Rightarrow> bool" where
  "tool_descriptor_ok regs d \<longleftrightarrow>
     \<not> (tool_name d = [] \<or> \<not> safe_text (tool_name d) \<or> \<not> safe_text (tool_description d)
        \<or> om_contains (tools regs) (tool_name d)
        \<or> \<not> is_object (tool_schema d) \<or> \<not> json_contains (tool_schema d) ''type''
        \<or> json_at (tool_schema d) ''type'' \<noteq> Inr (JStr ''object'')
        \<or> (json_contains (tool_schema d) ''properties'' \<and>
           \<not> (case json_at (tool_schema d) ''properties'' of Inr p \<Rightarrow> is_object p | Inl _ \<Rightarrow> False)))"

definition register_tool ::
  "schema_compiler \<Rightarrow> lifecycle \<Rightarrow> tool \<Rightarrow> 'a tool_handler option \<Rightarrow> 'a registries
     \<Rightarrow> (sdk_error + unit) \<times> 'a registries" where
  "register_tool compile state d handler regs =
     (if state \<noteq> configuring then (local_error ''Registration is frozen'', regs)
      else case handler of
          None \<Rightarrow> (Inl \<lparr>sdk_code = invalid_schema, sdk_message = ''Invalid tool descriptor''\<rparr>, regs)
        | Some h \<Rightarrow>
            if \<not> tool_descriptor_ok regs d
            then (Inl \<lparr>sdk_code = invalid_schema, sdk_message = ''Invalid tool descriptor''\<rparr>, regs)
            else case compile (tool_schema d) of
                Inl err \<Rightarrow> (Inl err, regs)
              | Inr v \<Rightarrow>
                  (Inr (), regs\<lparr>tools := om_emplace (tool_name d)
                             \<lparr>rt_descriptor = d, rt_handler = h, rt_validator = v\<rparr> (tools regs)\<rparr>))"

definition resource_descriptor_ok :: "'a registries \<Rightarrow> mcp_resource \<Rightarrow> bool" where
  "resource_descriptor_ok regs d \<longleftrightarrow>
     \<not> (\<not> valid_resource_uri (res_uri d) \<or> res_name d = [] \<or> \<not> safe_text (res_name d)
        \<or> \<not> safe_text (res_description d)
        \<or> (case res_mime d of None \<Rightarrow> False | Some m \<Rightarrow> m = [] \<or> \<not> safe_text m)
        \<or> om_contains (resources regs) (res_uri d))"

definition register_resource ::
  "lifecycle \<Rightarrow> mcp_resource \<Rightarrow> 'a resource_handler option \<Rightarrow> 'a registries
     \<Rightarrow> (sdk_error + unit) \<times> 'a registries" where
  "register_resource state d handler regs =
     (if state \<noteq> configuring then (local_error ''Registration is frozen'', regs)
      else case handler of
          None \<Rightarrow> (local_error ''Invalid resource descriptor'', regs)
        | Some h \<Rightarrow>
            if \<not> resource_descriptor_ok regs d then (local_error ''Invalid resource descriptor'', regs)
            else (Inr (), regs\<lparr>resources := om_emplace (res_uri d)
                             \<lparr>rr_descriptor = d, rr_handler = h\<rparr> (resources regs)\<rparr>))"

text \<open>The loop over the arguments, with the set of names seen so far.\<close>

fun prompt_arguments_ok :: "(string, bool) omap \<Rightarrow> prompt_argument list \<Rightarrow> bool" where
  "prompt_arguments_ok names [] = True"
| "prompt_arguments_ok names (a # as) =
     (if arg_name a = [] \<or> \<not> safe_text (arg_name a) \<or> \<not> safe_text (arg_description a)
         \<or> om_contains names (arg_name a) then False
      else prompt_arguments_ok (om_emplace (arg_name a) (arg_required a) names) as)"

definition register_prompt ::
  "lifecycle \<Rightarrow> mcp_prompt \<Rightarrow> 'a prompt_handler option \<Rightarrow> 'a registries
     \<Rightarrow> (sdk_error + unit) \<times> 'a registries" where
  "register_prompt state d handler regs =
     (if state \<noteq> configuring then (local_error ''Registration is frozen'', regs)
      else case handler of
          None \<Rightarrow> (local_error ''Invalid prompt descriptor'', regs)
        | Some h \<Rightarrow>
            if prompt_name d = [] \<or> \<not> safe_text (prompt_name d) \<or> \<not> safe_text (prompt_description d)
               \<or> om_contains (prompts regs) (prompt_name d)
            then (local_error ''Invalid prompt descriptor'', regs)
            else if \<not> prompt_arguments_ok [] (prompt_arguments d)
            then (local_error ''Invalid prompt descriptor'', regs)
            else (Inr (), regs\<lparr>prompts := om_emplace (prompt_name d)
                             \<lparr>rp_descriptor = d, rp_handler = h\<rparr> (prompts regs)\<rparr>))"

subsection \<open>What the registries contain\<close>

lemma safe_text_iff: "safe_text t \<longleftrightarrow> (\<forall>c \<in> set t. \<not> control_char c) \<and> utf8_valid t"
  using valid_text_iff [of t] by (simp add: safe_text_def valid_text_def)

lemma prompt_arguments_ok_iff:
  "prompt_arguments_ok names as \<longleftrightarrow>
     (\<forall>a \<in> set as. arg_name a \<noteq> [] \<and> safe_text (arg_name a) \<and> safe_text (arg_description a)) \<and>
     distinct (map arg_name as) \<and> (\<forall>a \<in> set as. \<not> om_contains names (arg_name a))"
proof (induction names as rule: prompt_arguments_ok.induct)
  case (2 names a as)
  show ?case
  proof (cases "arg_name a = [] \<or> \<not> safe_text (arg_name a) \<or> \<not> safe_text (arg_description a)
         \<or> om_contains names (arg_name a)")
    case False
    then have "om_contains (om_emplace (arg_name a) (arg_required a) names) k \<longleftrightarrow>
        k = arg_name a \<or> om_contains names k" for k
      by (auto simp: om_contains_def map_of_om_emplace)
    then show ?thesis using False 2 [OF False] by (auto intro: rev_image_eqI)
  qed auto
qed simp

definition tool_entry_ok :: "string \<times> 'a registered_tool \<Rightarrow> bool" where
  "tool_entry_ok kt \<longleftrightarrow>
     (let k = fst kt; d = rt_descriptor (snd kt)
      in k = tool_name d \<and> k \<noteq> [] \<and> safe_text k \<and> safe_text (tool_description d)
         \<and> json_at (tool_schema d) ''type'' = Inr (JStr ''object''))"

definition resource_entry_ok :: "string \<times> 'a registered_resource \<Rightarrow> bool" where
  "resource_entry_ok kr \<longleftrightarrow>
     (let k = fst kr; d = rr_descriptor (snd kr)
      in k = res_uri d \<and> valid_resource_uri k \<and> res_name d \<noteq> [] \<and> safe_text (res_name d)
         \<and> safe_text (res_description d) \<and> pred_option (\<lambda>m. m \<noteq> [] \<and> safe_text m) (res_mime d))"

definition prompt_entry_ok :: "string \<times> 'a registered_prompt \<Rightarrow> bool" where
  "prompt_entry_ok kp \<longleftrightarrow>
     (let k = fst kp; d = rp_descriptor (snd kp)
      in k = prompt_name d \<and> k \<noteq> [] \<and> safe_text k \<and> safe_text (prompt_description d)
         \<and> prompt_arguments_ok [] (prompt_arguments d))"

definition registries_inv :: "'a registries \<Rightarrow> bool" where
  "registries_inv regs \<longleftrightarrow>
     om_wf (tools regs) \<and> om_wf (resources regs) \<and> om_wf (prompts regs)
     \<and> list_all tool_entry_ok (tools regs) \<and> list_all resource_entry_ok (resources regs)
     \<and> list_all prompt_entry_ok (prompts regs)"

lemma registries_inv_empty: "registries_inv no_registries"
  by (simp add: registries_inv_def no_registries_def)

lemma in_set_om_emplace: "x \<in> set (om_emplace k v m) \<Longrightarrow> x = (k, v) \<or> x \<in> set m"
  by (auto simp: om_emplace_def dest: in_set_om_put split: if_splits)

lemma list_all_om_emplace: "p (k, v) \<Longrightarrow> list_all p m \<Longrightarrow> list_all p (om_emplace k v m)"
  by (auto simp: list_all_iff dest: in_set_om_emplace)

lemma register_tool_cases:
  "register_tool compile st d h regs = (r, regs') \<Longrightarrow>
     (regs' = regs \<and> \<not> is_ok r) \<or>
     (\<exists>f v. r = Inr () \<and> st = configuring \<and> h = Some f \<and> tool_descriptor_ok regs d \<and> compile (tool_schema d) = Inr v \<and>
        regs' = regs\<lparr>tools := om_emplace (tool_name d) \<lparr>rt_descriptor = d, rt_handler = f, rt_validator = v\<rparr> (tools regs)\<rparr>)"
  by (auto simp: register_tool_def local_error_def split: if_splits option.splits sum.splits)

lemma register_resource_cases:
  "register_resource st d h regs = (r, regs') \<Longrightarrow>
     (regs' = regs \<and> \<not> is_ok r) \<or>
     (\<exists>f. r = Inr () \<and> st = configuring \<and> h = Some f \<and> resource_descriptor_ok regs d \<and>
        regs' = regs\<lparr>resources := om_emplace (res_uri d) \<lparr>rr_descriptor = d, rr_handler = f\<rparr> (resources regs)\<rparr>)"
  by (auto simp: register_resource_def local_error_def split: if_splits option.splits)

lemma register_prompt_cases:
  "register_prompt st d h regs = (r, regs') \<Longrightarrow>
     (regs' = regs \<and> \<not> is_ok r) \<or>
     (\<exists>f. r = Inr () \<and> st = configuring \<and> h = Some f \<and>
        prompt_name d \<noteq> [] \<and> safe_text (prompt_name d) \<and> safe_text (prompt_description d) \<and>
        \<not> om_contains (prompts regs) (prompt_name d) \<and> prompt_arguments_ok [] (prompt_arguments d) \<and>
        regs' = regs\<lparr>prompts := om_emplace (prompt_name d) \<lparr>rp_descriptor = d, rp_handler = f\<rparr> (prompts regs)\<rparr>)"
  by (auto simp: register_prompt_def local_error_def split: if_splits option.splits)

lemma register_tool_inv:
  assumes "register_tool compile st d h regs = (r, regs')" "registries_inv regs"
  shows "registries_inv regs'"
  using register_tool_cases [OF assms(1)] assms(2)
  by (auto simp: registries_inv_def tool_descriptor_ok_def tool_entry_ok_def intro!: list_all_om_emplace)

lemma register_resource_inv:
  assumes "register_resource st d h regs = (r, regs')" "registries_inv regs"
  shows "registries_inv regs'"
  using register_resource_cases [OF assms(1)] assms(2)
  by (auto simp: registries_inv_def resource_descriptor_ok_def resource_entry_ok_def
      intro!: list_all_om_emplace split: option.splits)

lemma register_prompt_inv:
  assumes "register_prompt st d h regs = (r, regs')" "registries_inv regs"
  shows "registries_inv regs'"
  using register_prompt_cases [OF assms(1)] assms(2)
  by (auto simp: registries_inv_def prompt_entry_ok_def intro!: list_all_om_emplace)

text \<open>A successful registration can be looked up, and changes no other entry.\<close>

lemma register_tool_lookup:
  assumes "register_tool compile st d h regs = (Inr (), regs')"
  shows "\<exists>f v. h = Some f \<and> compile (tool_schema d) = Inr v \<and> map_of (tools regs) (tool_name d) = None \<and>
    map_of (tools regs') = (map_of (tools regs))(tool_name d \<mapsto> \<lparr>rt_descriptor = d, rt_handler = f, rt_validator = v\<rparr>) \<and>
    resources regs' = resources regs \<and> prompts regs' = prompts regs"
  using register_tool_cases [OF assms]
  by (auto simp: tool_descriptor_ok_def om_contains_def om_emplace_def)

end
