(* ===== verification/Dispatch.thy ===== *)
theory Dispatch
  imports Registry
begin

text \<open>
  \<open>server::application\<close> (server.hpp): the methods served after initialization. It runs on
  the application worker, outside the server mutex, and works on the application state and
  the policy state; whatever a hook or a handler throws leaves it as \<open>Inl\<close>, and what was
  changed before stays changed.
\<close>

type_synonym 'a worker_state = "'a \<times> policy_state"

definition on_app :: "('a, 'r) eff \<Rightarrow> ('a worker_state, 'r) eff" where
  "on_app m = (\<lambda>(a, p). case m a of (r, a') \<Rightarrow> (r, (a', p)))"

definition consume :: "'a server_options \<Rightarrow> ('a worker_state, bool) eff" where
  "consume opts = (\<lambda>(a, p). case policy_consume opts p a of
     (Inl e, a') \<Rightarrow> (Inl e, (a', p)) | (Inr (b, p'), a') \<Rightarrow> (Inr b, (a', p')))"

subsection \<open>Replies\<close>

definition reply_result :: "json_rpc_id \<Rightarrow> json \<Rightarrow> response" where
  "reply_result i r = \<lparr>msg_jsonrpc = ''2.0'', resp_id = i, resp_result = Some r, resp_err = None\<rparr>"

definition failure :: "json_rpc_id \<Rightarrow> 32 word \<Rightarrow> string \<Rightarrow> response" where
  "failure i code m =
     \<lparr>msg_jsonrpc = ''2.0'', resp_id = i, resp_result = None,
      resp_err = Some \<lparr>err_code = code, err_message = m, err_data = None\<rparr>\<rparr>"

definition failure_code :: "json_rpc_id \<Rightarrow> error_code \<Rightarrow> string \<Rightarrow> response" where
  "failure_code i c m = failure i (error_code_num c) m"

definition with_reason :: "string \<Rightarrow> response \<Rightarrow> response" where
  "with_reason why r =
     r\<lparr>resp_err := map_option (\<lambda>e. e\<lparr>err_data := Some (json_object [(''reason'', JStr why)])\<rparr>) (resp_err r)\<rparr>"

definition text_item :: "string \<Rightarrow> json" where
  "text_item t = json_object [(''type'', JStr ''text''), (''text'', JStr t)]"

definition tool_failure :: "json_rpc_id \<Rightarrow> response" where
  "tool_failure i =
     reply_result i (json_object [(''content'', JArr [text_item ''Tool output rejected'']), (''isError'', JBool True)])"

subsection \<open>Parameters\<close>

definition member :: "(json \<Rightarrow> bool) \<Rightarrow> json \<Rightarrow> string \<Rightarrow> bool" where
  "member p j k \<longleftrightarrow> json_contains j k \<and> (case json_at j k of Inr v \<Rightarrow> p v | Inl _ \<Rightarrow> False)"

text \<open>\<open>(*params)["cursor"]\<close>: absent or a string, in an object or nothing at all.\<close>

definition list_params_bad :: "json option \<Rightarrow> bool" where
  "list_params_bad params =
     (case params of None \<Rightarrow> False
      | Some p \<Rightarrow> \<not> is_object p \<or> (json_contains p ''cursor'' \<and> \<not> member is_string p ''cursor''))"

definition call_params_bad :: "json option \<Rightarrow> bool" where
  "call_params_bad params =
     (case params of None \<Rightarrow> True
      | Some p \<Rightarrow> \<not> is_object p \<or> \<not> member is_string p ''name''
                 \<or> (json_contains p ''arguments'' \<and> \<not> member is_object p ''arguments''))"

text \<open>A string member, and the \<open>arguments\<close> with their default, once the guards have passed.\<close>

definition string_member :: "json option \<Rightarrow> string \<Rightarrow> string" where
  "string_member params k =
     (case params of Some p \<Rightarrow> (case json_at p k of Inr (JStr s) \<Rightarrow> s | _ \<Rightarrow> []) | None \<Rightarrow> [])"

definition call_arguments :: "json option \<Rightarrow> json" where
  "call_arguments params =
     (case params of Some p \<Rightarrow> (case json_value Inr p ''arguments'' (JObj []) of Inr v \<Rightarrow> v | Inl _ \<Rightarrow> JObj [])
      | None \<Rightarrow> JObj [])"

subsection \<open>Tools\<close>

text \<open>The handler and what is made of its result.\<close>

definition run_tool ::
  "'a server_options \<Rightarrow> 'a registered_tool \<Rightarrow> request \<Rightarrow> request_context \<Rightarrow> json \<Rightarrow> ('a worker_state, response) eff" where
  "run_tool opts t req ctx arguments =
     eff_bind (on_app (rt_handler t arguments ctx)) (\<lambda>result.
     eff_bind (on_app (policy_filter opts (req_method req)
         (case result of Inr r \<Rightarrow> tool_text r | Inl e \<Rightarrow> public_message e) ctx))
       (\<lambda>filtered. case filtered of
           Inl _ \<Rightarrow> eff_return (tool_failure (req_id req))
         | Inr text \<Rightarrow>
             let r = json_object [(''content'', JArr [text_item text])]
             in eff_return (reply_result (req_id req)
                  (if is_ok result then r else json_put ''isError'' (JBool True) r))))"

definition call_tool ::
  "float_printer \<Rightarrow> 'a server_options \<Rightarrow> 'a registries \<Rightarrow> request \<Rightarrow> request_context \<Rightarrow> ('a worker_state, response) eff" where
  "call_tool fc opts regs req ctx =
     (let i = req_id req; name = string_member (req_params req) ''name'' in
      if call_params_bad (req_params req) then eff_return (failure_code i invalid_params ''Invalid tool parameters'')
      else case map_of (tools regs) name of
          None \<Rightarrow> eff_return (failure_code i invalid_params ''Unknown tool'')
        | Some t \<Rightarrow>
            eff_bind (on_app (policy_allow opts name ctx)) (\<lambda>allowed.
            if \<not> allowed then eff_return (with_reason ''access_denied'' (failure i (- 32050) ''Access denied''))
            else eff_bind (consume opts) (\<lambda>admitted.
            if \<not> admitted then eff_return (with_reason ''rate_limited'' (failure i (- 32051) ''Rate limited''))
            else let arguments = call_arguments (req_params req) in
              case validate fc (rt_validator t) arguments of
                Inl f \<Rightarrow>
                  if vf_kind f \<noteq> instance_mismatch then eff_return (failure_code i internal_error ''Internal error'')
                  else eff_bind (on_app (policy_filter opts (req_method req) ''Tool arguments do not match schema'' ctx))
                    (\<lambda>text. case text of
                        Inl _ \<Rightarrow> eff_return (tool_failure i)
                      | Inr text \<Rightarrow> eff_return (reply_result i
                          (json_object [(''content'', JArr [text_item text]), (''isError'', JBool True)])))
              | Inr _ \<Rightarrow>
                  run_tool opts t req ctx arguments)))"

definition list_tools :: "'a registries \<Rightarrow> request \<Rightarrow> response" where
  "list_tools regs req =
     (if list_params_bad (req_params req)
      then failure_code (req_id req) invalid_params ''Invalid tool parameters''
      else reply_result (req_id req)
        (json_object [(''tools'', JArr (map (\<lambda>(k, t). tool_to_json (rt_descriptor t)) (tools regs)))]))"

subsection \<open>Prompts\<close>

definition list_prompts :: "'a registries \<Rightarrow> request \<Rightarrow> response" where
  "list_prompts regs req =
     (if list_params_bad (req_params req)
      then failure_code (req_id req) invalid_params ''Invalid prompt parameters''
      else reply_result (req_id req)
        (json_object [(''prompts'', JArr (map (\<lambda>(k, p). prompt_to_json (rp_descriptor p)) (prompts regs)))]))"

text \<open>The arguments given, as strings; \<open>None\<close> as soon as one is not a declared string.\<close>

fun prompt_values :: "prompt_argument list \<Rightarrow> (string \<times> json) list \<Rightarrow> (string, string) omap \<Rightarrow> (string, string) omap option" where
  "prompt_values declared [] vals = Some vals"
| "prompt_values declared ((k, v) # kvs) vals =
     (case v of
        JStr s \<Rightarrow> if \<not> list_ex (\<lambda>a. arg_name a = k) declared then None
                  else prompt_values declared kvs (om_emplace k s vals)
      | _ \<Rightarrow> None)"

definition required_present :: "prompt_argument list \<Rightarrow> (string, string) omap \<Rightarrow> bool" where
  "required_present declared vals \<longleftrightarrow>
     \<not> list_ex (\<lambda>a. arg_required a \<and> \<not> om_contains vals (arg_name a)) declared"

definition role_name :: "prompt_role \<Rightarrow> string" where
  "role_name r = (if r = role_user then ''user'' else ''assistant'')"

fun prompt_messages ::
  "'a server_options \<Rightarrow> string \<Rightarrow> request_context \<Rightarrow> prompt_message list \<Rightarrow> json list
     \<Rightarrow> ('a worker_state, json list option) eff" where
  "prompt_messages opts op ctx [] done = eff_return (Some done)"
| "prompt_messages opts op ctx (m # ms) done =
     (if pm_role m \<noteq> role_user \<and> pm_role m \<noteq> role_assistant then eff_return None
      else eff_bind (on_app (policy_filter opts op (pm_text m) ctx)) (\<lambda>text.
        case text of
          Inl _ \<Rightarrow> eff_return None
        | Inr text \<Rightarrow> prompt_messages opts op ctx ms
            (done @ [json_object [(''role'', JStr (role_name (pm_role m))), (''content'', text_item text)]])))"

definition get_prompt ::
  "'a server_options \<Rightarrow> 'a registries \<Rightarrow> request \<Rightarrow> request_context \<Rightarrow> ('a worker_state, response) eff" where
  "get_prompt opts regs req ctx =
     (let i = req_id req; internal = eff_return (failure_code (req_id req) internal_error ''Internal error'') in
      if call_params_bad (req_params req) then eff_return (failure_code i invalid_params ''Invalid prompt parameters'')
      else case map_of (prompts regs) (string_member (req_params req) ''name'') of
          None \<Rightarrow> eff_return (failure_code i invalid_params ''Unknown prompt'')
        | Some p \<Rightarrow>
            let declared = prompt_arguments (rp_descriptor p) in
            case prompt_values declared (case call_arguments (req_params req) of JObj m \<Rightarrow> m | _ \<Rightarrow> []) [] of
              None \<Rightarrow> eff_return (failure_code i invalid_params ''Invalid prompt arguments'')
            | Some vals \<Rightarrow>
                if \<not> required_present declared vals
                then eff_return (failure_code i invalid_params ''Invalid prompt arguments'')
                else eff_bind (on_app (rp_handler p vals ctx)) (\<lambda>result.
                  case result of
                    Inl _ \<Rightarrow> internal
                  | Inr r \<Rightarrow>
                      eff_bind (prompt_messages opts (req_method req) ctx (pr_messages r) []) (\<lambda>messages.
                      case messages of
                        None \<Rightarrow> internal
                      | Some ms \<Rightarrow>
                          let result = json_object [(''messages'', JArr ms)] in
                          case pr_description r of
                            None \<Rightarrow> eff_return (reply_result i result)
                          | Some d \<Rightarrow>
                              eff_bind (on_app (policy_filter opts (req_method req) d ctx)) (\<lambda>text.
                              case text of
                                Inl _ \<Rightarrow> internal
                              | Inr text \<Rightarrow> eff_return (reply_result i (json_put ''description'' (JStr text) result))))))"

subsection \<open>Resources\<close>

definition list_templates :: "request \<Rightarrow> response" where
  "list_templates req =
     (if list_params_bad (req_params req)
      then failure_code (req_id req) invalid_params ''Invalid resource parameters''
      else reply_result (req_id req) (json_object [(''resourceTemplates'', JArr [])]))"

definition list_resources :: "'a registries \<Rightarrow> request \<Rightarrow> response" where
  "list_resources regs req =
     (if list_params_bad (req_params req)
      then failure_code (req_id req) invalid_params ''Invalid resource parameters''
      else reply_result (req_id req)
        (json_object [(''resources'', JArr (map (\<lambda>(k, r). resource_to_json (rr_descriptor r)) (resources regs)))]))"

definition read_params_bad :: "json option \<Rightarrow> bool" where
  "read_params_bad params =
     (case params of None \<Rightarrow> True
      | Some p \<Rightarrow> \<not> is_object p \<or> \<not> member is_string p ''uri'' \<or> \<not> valid_resource_uri (string_member params ''uri''))"

definition read_resource ::
  "'a server_options \<Rightarrow> 'a registries \<Rightarrow> request \<Rightarrow> request_context \<Rightarrow> ('a worker_state, response) eff" where
  "read_resource opts regs req ctx =
     (let i = req_id req; internal = eff_return (failure_code (req_id req) internal_error ''Internal error'') in
      if read_params_bad (req_params req) then eff_return (failure_code i invalid_params ''Invalid resource parameters'')
      else case map_of (resources regs) (string_member (req_params req) ''uri'') of
          None \<Rightarrow> eff_return (failure i (- 32002) ''Resource not found'')
        | Some r \<Rightarrow>
            eff_bind (on_app (rr_handler r ctx)) (\<lambda>result.
            case result of
              Inl _ \<Rightarrow> internal
            | Inr res \<Rightarrow>
                eff_bind (on_app (policy_filter opts (req_method req) (resource_text res) ctx)) (\<lambda>text.
                case text of
                  Inl _ \<Rightarrow> internal
                | Inr text \<Rightarrow>
                    let d = rr_descriptor r;
                        content = json_object [(''uri'', JStr (res_uri d)), (''text'', JStr text)]
                    in eff_return (reply_result i (json_object [(''contents'',
                         JArr [json_put_opt ''mimeType'' (map_option JStr (res_mime d)) content])])))))"

subsection \<open>The dispatcher\<close>

definition application ::
  "float_printer \<Rightarrow> 'a server_options \<Rightarrow> 'a registries \<Rightarrow> request \<Rightarrow> request_context \<Rightarrow> ('a worker_state, response) eff" where
  "application fc opts regs req ctx =
     (let m = req_method req in
      if m = ''tools/list'' then eff_return (list_tools regs req)
      else if m = ''tools/call'' then call_tool fc opts regs req ctx
      else if m = ''prompts/list'' then eff_return (list_prompts regs req)
      else if m = ''prompts/get'' then get_prompt opts regs req ctx
      else if m = ''resources/templates/list'' then eff_return (list_templates req)
      else if m = ''resources/list'' then eff_return (list_resources regs req)
      else if m = ''resources/read'' then read_resource opts regs req ctx
      else eff_return (failure_code (req_id req) method_not_found ''Method not found''))"

text \<open>The invocation's \<open>try\<close> block around it.\<close>

definition run_application ::
  "float_printer \<Rightarrow> 'a server_options \<Rightarrow> 'a registries \<Rightarrow> request \<Rightarrow> request_context \<Rightarrow> 'a worker_state
     \<Rightarrow> response \<times> 'a worker_state" where
  "run_application fc opts regs req ctx w =
     (case application fc opts regs req ctx w of
        (Inr reply, w') \<Rightarrow> (reply, w')
      | (Inl _, w') \<Rightarrow> (failure_code (req_id req) internal_error ''Internal error'', w'))"

end
