(* ===== verification/Dispatch_Correct.thy ===== *)
theory Dispatch_Correct
  imports Dispatch
begin

text \<open>
  What holds of every reply of the dispatcher: it answers the request's id with exactly one
  of a result and one of a fixed list of errors, its texts passed the output filter, and a
  handler runs only after every guard before it.
\<close>

subsection \<open>The shape of a reply\<close>

definition public_errors :: "(32 word \<times> string) list" where
  "public_errors =
     [(error_code_num invalid_params, ''Invalid tool parameters''),
      (error_code_num invalid_params, ''Unknown tool''),
      (error_code_num invalid_params, ''Invalid prompt parameters''),
      (error_code_num invalid_params, ''Unknown prompt''),
      (error_code_num invalid_params, ''Invalid prompt arguments''),
      (error_code_num invalid_params, ''Invalid resource parameters''),
      (error_code_num internal_error, ''Internal error''),
      (error_code_num method_not_found, ''Method not found''),
      (- 32050, ''Access denied''), (- 32051, ''Rate limited''), (- 32002, ''Resource not found'')]"

definition reply_ok :: "json_rpc_id \<Rightarrow> response \<Rightarrow> bool" where
  "reply_ok i r \<longleftrightarrow>
     resp_id r = i \<and> msg_jsonrpc r = ''2.0'' \<and> response_canonical r \<and>
     (case resp_err r of None \<Rightarrow> True | Some e \<Rightarrow> (err_code e, err_message e) \<in> set public_errors)"

lemma reply_ok_result [simp]: "reply_ok i (reply_result i j)"
  by (simp add: reply_ok_def reply_result_def response_canonical_def)

lemma reply_ok_failure: "(c, m) \<in> set public_errors \<Longrightarrow> reply_ok i (failure i c m)"
  by (simp add: reply_ok_def failure_def response_canonical_def)

lemma reply_ok_reason: "reply_ok i r \<Longrightarrow> reply_ok i (with_reason why r)"
  by (auto simp: reply_ok_def with_reason_def response_canonical_def split: option.splits)

lemma reply_ok_tool_failure [simp]: "reply_ok i (tool_failure i)"
  by (simp add: tool_failure_def)

lemma public_members [simp]:
  "(error_code_num invalid_params, ''Invalid tool parameters'') \<in> set public_errors"
  "(error_code_num invalid_params, ''Unknown tool'') \<in> set public_errors"
  "(error_code_num invalid_params, ''Invalid prompt parameters'') \<in> set public_errors"
  "(error_code_num invalid_params, ''Unknown prompt'') \<in> set public_errors"
  "(error_code_num invalid_params, ''Invalid prompt arguments'') \<in> set public_errors"
  "(error_code_num invalid_params, ''Invalid resource parameters'') \<in> set public_errors"
  "(error_code_num internal_error, ''Internal error'') \<in> set public_errors"
  "(error_code_num method_not_found, ''Method not found'') \<in> set public_errors"
  "(- 32050, ''Access denied'') \<in> set public_errors"
  "(- 32051, ''Rate limited'') \<in> set public_errors"
  "(- 32002, ''Resource not found'') \<in> set public_errors"
  unfolding public_errors_def by (simp_all only: list.set insert_iff simp_thms)

lemmas reply_ok_intros = reply_ok_result reply_ok_tool_failure reply_ok_failure reply_ok_reason

lemma list_tools_ok: "reply_ok (req_id req) (list_tools regs req)"
  by (simp add: list_tools_def failure_code_def reply_ok_intros)

lemma list_prompts_ok: "reply_ok (req_id req) (list_prompts regs req)"
  by (simp add: list_prompts_def failure_code_def reply_ok_intros)

lemma list_templates_ok: "reply_ok (req_id req) (list_templates req)"
  by (simp add: list_templates_def failure_code_def reply_ok_intros)

lemma list_resources_ok: "reply_ok (req_id req) (list_resources regs req)"
  by (simp add: list_resources_def failure_code_def reply_ok_intros)

lemma call_tool_ok: "eff_ok (call_tool fc opts regs req ctx) (reply_ok (req_id req))"
  unfolding call_tool_def run_tool_def Let_def failure_code_def
  by (auto intro!: eff_ok_return eff_ok_bind' reply_ok_intros split: option.split sum.split)

lemma get_prompt_ok: "eff_ok (get_prompt opts regs req ctx) (reply_ok (req_id req))"
  unfolding get_prompt_def Let_def failure_code_def
  by (auto intro!: eff_ok_return eff_ok_bind' reply_ok_intros split: option.split sum.split)

lemma read_resource_ok: "eff_ok (read_resource opts regs req ctx) (reply_ok (req_id req))"
  unfolding read_resource_def Let_def failure_code_def
  by (auto intro!: eff_ok_return eff_ok_bind' reply_ok_intros split: option.split sum.split)

lemma application_ok: "eff_ok (application fc opts regs req ctx) (reply_ok (req_id req))"
  unfolding application_def Let_def failure_code_def
  by (auto intro!: eff_ok_return call_tool_ok get_prompt_ok read_resource_ok list_tools_ok list_prompts_ok
      list_templates_ok list_resources_ok reply_ok_intros)

lemma run_application_ok: "reply_ok (req_id req) (fst (run_application fc opts regs req ctx w))"
  using eff_okD [OF application_ok [of fc opts regs req ctx]]
  by (auto simp: run_application_def failure_code_def reply_ok_intros split: prod.split sum.split)

subsection \<open>Filtered texts\<close>

lemma on_app_ok:
  fixes m :: "('a, 'r) eff"
  shows "eff_ok m P \<Longrightarrow> eff_ok (on_app m) P"
  unfolding eff_ok_def on_app_def
proof (intro allI)
  fix w :: "'a worker_state"
  assume *: "\<forall>a. case m a of (Inl _, _) \<Rightarrow> True | (Inr x, _) \<Rightarrow> P x"
  obtain a p where w: "w = (a, p)" by force
  show "case (\<lambda>(a, p). case m a of (r, a') \<Rightarrow> (r, (a', p))) w of (Inl _, _) \<Rightarrow> True | (Inr x, _) \<Rightarrow> P x"
    using spec [OF *, of a] by (auto simp: w split: prod.splits sum.splits)
qed

lemma filter_ok: "eff_ok (on_app (policy_filter opts op t ctx)) (\<lambda>r. case r of Inr t' \<Rightarrow> valid_text t' | Inl _ \<Rightarrow> True)"
  by (rule on_app_ok [OF policy_filter_valid])

text \<open>The result of a tool call: one text item with text that passed the filter.\<close>

definition tool_result_ok :: "response \<Rightarrow> bool" where
  "tool_result_ok r \<longleftrightarrow>
     (case resp_result r of None \<Rightarrow> True
      | Some j \<Rightarrow> (\<exists>t. valid_text t \<and> json_at j ''content'' = Inr (JArr [text_item t])) \<and>
                 (\<forall>k. json_contains j k \<longrightarrow> k = ''content'' \<or> k = ''isError''))"

lemma valid_text_constant: "valid_text ''Tool output rejected''"
  by (simp add: valid_text_iff control_char_def) (simp add: utf8_tail_def)

lemma tool_result_failure [simp]: "tool_result_ok (failure i c m)" "tool_result_ok (with_reason why (failure i c m))"
  by (simp_all add: tool_result_ok_def failure_def with_reason_def)

lemma tool_result_tool_failure [simp]: "tool_result_ok (tool_failure i)"
  using valid_text_constant by (auto simp: tool_result_ok_def tool_failure_def reply_result_def split: if_splits)

lemma tool_result_text [simp]:
  "valid_text t \<Longrightarrow> tool_result_ok (reply_result i (json_object [(''content'', JArr [text_item t])]))"
  "valid_text t \<Longrightarrow> tool_result_ok (reply_result i
     (json_object [(''content'', JArr [text_item t]), (''isError'', JBool True)]))"
  "valid_text t \<Longrightarrow> tool_result_ok (reply_result i
     (json_put ''isError'' (JBool True) (json_object [(''content'', JArr [text_item t])])))"
  by (auto simp: tool_result_ok_def reply_result_def split: if_splits)

lemma call_tool_text: "eff_ok (call_tool fc opts regs req ctx) tool_result_ok"
  unfolding call_tool_def run_tool_def Let_def failure_code_def
  by (auto intro!: eff_ok_return eff_ok_bind' eff_ok_bind [OF filter_ok] split: option.split sum.split)

subsection \<open>Guards\<close>

text \<open>
  All of what must hold before the handler of a tool is invoked, in the state \<open>w\<close>; the
  state the handler starts in is \<open>w2\<close>.
\<close>

definition tool_admitted ::
  "float_printer \<Rightarrow> 'a server_options \<Rightarrow> 'a registries \<Rightarrow> request \<Rightarrow> request_context \<Rightarrow> 'a worker_state
     \<Rightarrow> ('a registered_tool \<times> 'a worker_state) option" where
  "tool_admitted fc opts regs req ctx w =
     (if call_params_bad (req_params req) then None
      else case map_of (tools regs) (string_member (req_params req) ''name'') of
          None \<Rightarrow> None
        | Some t \<Rightarrow>
            (case on_app (policy_allow opts (string_member (req_params req) ''name'') ctx) w of
               (Inr True, w1) \<Rightarrow>
                 (case consume opts w1 of
                    (Inr True, w2) \<Rightarrow>
                      if validate fc (rt_validator t) (call_arguments (req_params req)) = Inr () then Some (t, w2) else None
                  | _ \<Rightarrow> None)
             | _ \<Rightarrow> None))"

lemma tool_admittedD:
  assumes "tool_admitted fc opts regs req ctx w = Some (t, w2)"
  shows "\<not> call_params_bad (req_params req)"
    "map_of (tools regs) (string_member (req_params req) ''name'') = Some t"
    "\<exists>w1. on_app (policy_allow opts (string_member (req_params req) ''name'') ctx) w = (Inr True, w1) \<and>
          consume opts w1 = (Inr True, w2)"
    "validate fc (rt_validator t) (call_arguments (req_params req)) = Inr ()"
  using assms
  by (auto simp: tool_admitted_def split: if_splits option.splits prod.splits sum.splits bool.splits)

lemma call_tool_admitted:
  assumes "tool_admitted fc opts regs req ctx w = Some (t, w2)"
  shows "call_tool fc opts regs req ctx w = run_tool opts t req ctx (call_arguments (req_params req)) w2"
proof -
  obtain w1 where "on_app (policy_allow opts (string_member (req_params req) ''name'') ctx) w = (Inr True, w1)"
    "consume opts w1 = (Inr True, w2)"
    using tool_admittedD(3) [OF assms] by blast
  then show ?thesis
    using tool_admittedD(1,2,4) [OF assms] by (simp add: call_tool_def Let_def)
qed

text \<open>Unless the call is admitted, the handlers do not matter.\<close>

definition with_handlers :: "(string \<Rightarrow> 'a tool_handler) \<Rightarrow> 'a registries \<Rightarrow> 'a registries" where
  "with_handlers h regs = regs\<lparr>tools := map (\<lambda>(k, t). (k, t\<lparr>rt_handler := h k\<rparr>)) (tools regs)\<rparr>"

lemma map_of_with_handlers:
  "map_of (tools (with_handlers h regs)) k = map_option (\<lambda>t. t\<lparr>rt_handler := h k\<rparr>) (map_of (tools regs) k)"
proof -
  have "map_of (map (\<lambda>(k, t). (k, t\<lparr>rt_handler := h k\<rparr>)) ts) k = map_option (\<lambda>t. t\<lparr>rt_handler := h k\<rparr>) (map_of ts k)"
    for ts :: "(string, 'a registered_tool) omap"
    by (induction ts) auto
  then show ?thesis by (simp add: with_handlers_def)
qed

lemma call_tool_not_admitted:
  assumes "tool_admitted fc opts regs req ctx w = None"
  shows "call_tool fc opts (with_handlers h regs) req ctx w = call_tool fc opts regs req ctx w"
proof -
  let ?name = "string_member (req_params req) ''name''"
  show ?thesis
  proof (cases "call_params_bad (req_params req) \<or> map_of (tools regs) ?name = None")
    case True
    then show ?thesis by (auto simp: call_tool_def Let_def map_of_with_handlers)
  next
    case False
    then obtain t where t: "map_of (tools regs) ?name = Some t" and ok: "\<not> call_params_bad (req_params req)" by auto
    obtain r1 w1 where r1: "on_app (policy_allow opts ?name ctx) w = (r1, w1)" by (metis surj_pair)
    obtain r2 w2 where r2: "consume opts w1 = (r2, w2)" by (metis surj_pair)
    consider (thrown) e where "r1 = Inl e" | (denied) "r1 = Inr False" | (thrown2) e where "r1 = Inr True" "r2 = Inl e"
      | (limited) "r1 = Inr True" "r2 = Inr False"
      | (invalid) f where "r1 = Inr True" "r2 = Inr True" "validate fc (rt_validator t) (call_arguments (req_params req)) = Inl f"
      using assms t ok r1 r2
      by (cases r1; cases r2; cases "validate fc (rt_validator t) (call_arguments (req_params req))")
         (auto simp: tool_admitted_def split: if_splits bool.splits)
    then show ?thesis
      by cases (use t ok r1 r2 in \<open>simp_all add: call_tool_def Let_def map_of_with_handlers\<close>)
  qed
qed

text \<open>Denial happens before a token is spent.\<close>

lemma consume_policy: "consume opts (a, p) = (r, (a', p')) \<Longrightarrow> p' = p \<or> (\<exists>t. p' = snd (consume_at opts t p))"
  by (auto simp: consume_def policy_consume_def eff_bind_apply split: prod.splits sum.splits option.splits)
     (metis snd_conv)

lemma call_tool_denied:
  assumes "\<not> call_params_bad (req_params req)"
    and "map_of (tools regs) (string_member (req_params req) ''name'') = Some t"
    and "policy_allow opts (string_member (req_params req) ''name'') ctx a = (Inr False, a')"
  shows "call_tool fc opts regs req ctx (a, p) =
    (Inr (with_reason ''access_denied'' (failure (req_id req) (- 32050) ''Access denied'')), (a', p))"
  using assms by (simp add: call_tool_def Let_def eff_bind_apply on_app_def)

subsection \<open>Prompt arguments\<close>

lemma prompt_values_some:
  "prompt_values declared kvs vals = Some vals' \<Longrightarrow>
     (\<forall>kv \<in> set kvs. is_string (snd kv) \<and> fst kv \<in> arg_name ` set declared)
     \<and> dom (map_of vals') = dom (map_of vals) \<union> fst ` set kvs"
proof (induction declared kvs vals arbitrary: vals' rule: prompt_values.induct)
  case (2 declared k v kvs vals)
  then obtain s where v: "v = JStr s" and decl: "list_ex (\<lambda>a. arg_name a = k) declared"
    and rest: "prompt_values declared kvs (om_emplace k s vals) = Some vals'"
    by (auto split: json.splits if_splits)
  have "dom (map_of (om_emplace k s vals)) = insert k (dom (map_of vals))"
    by (auto simp: map_of_om_emplace dom_def)
  then show ?case
    using "2.IH" [OF v _ rest] decl v by (auto simp: list_ex_iff)
qed simp

lemma prompt_values_none:
  "prompt_values declared kvs vals = None \<longleftrightarrow>
     (\<exists>kv \<in> set kvs. \<not> is_string (snd kv) \<or> fst kv \<notin> arg_name ` set declared)"
  by (induction declared kvs vals rule: prompt_values.induct)
     (auto simp: list_ex_iff split: json.splits if_splits)

subsection \<open>Listing\<close>

lemma list_tools_complete:
  assumes "\<not> list_params_bad (req_params req)"
  shows "\<exists>r. resp_result (list_tools regs req) = Some r \<and>
    json_at r ''tools'' = Inr (JArr (map (tool_to_json \<circ> rt_descriptor \<circ> snd) (tools regs)))"
  using assms by (auto simp: list_tools_def reply_result_def intro!: map_cong)

end
