(* ===== verification/Server.thy ===== *)
theory Server
  imports Dispatch_Correct Executor Message_Decoder
begin

text \<open>
  class server (server.hpp). Each region executed under \<open>mutex_\<close> is one operation on the
  server record; what a thread does between two regions is in its program counter. The
  transport behind the server is a \<open>link\<close>: its frame limit, its \<open>send\<close> on a state of its
  own, the float printer of the serializer and the schema compiler.
\<close>

datatype connection = await_initialize | await_initialized | ready | closing

record operation =
  op_id :: json_rpc_id
  op_cancelled :: bool
  op_refs :: nat

record invocation =
  inv_request :: request
  inv_op :: nat

text \<open>Where the reader thread is inside \<open>receive\<close>.\<close>

datatype reader_pc =
    R_idle
  | R_stop "nat option"
  | R_cancel json_rpc_id
  | R_enqueue request nat
  | R_reject request nat
  | R_return nat

text \<open>Where the thread that called \<open>start\<close> is.\<close>

datatype main_pc = M_none | M_install | M_transport | M_finish | M_abort

text \<open>Where the worker is inside the invocation it is running.\<close>

datatype worker_pc = W_none | W_check | W_apply | W_reply response | W_stop | W_done

record ('a, 't) server =
  info_name :: string
  info_version :: string
  options :: "'a server_options"
  state :: lifecycle
  protocol :: connection
  registries :: "'a registries"
  ops :: "operation list"
  inflight :: "nat list"
  exec :: "invocation executor option"
  reader :: reader_pc
  worker :: worker_pc
  main :: main_pc
  transport_up :: bool
  stop_calls :: nat
  app :: "'a worker_state"
  link_state :: 't

record 't link =
  link_fc :: float_printer
  link_limit :: nat
  link_send :: "json \<Rightarrow> 't \<Rightarrow> (sdk_error + unit) \<times> 't"
  link_compile :: schema_compiler

definition new_server :: "string \<Rightarrow> string \<Rightarrow> 'a server_options \<Rightarrow> 'a \<Rightarrow> 't \<Rightarrow> ('a, 't) server" where
  "new_server name version opts a t =
     \<lparr>info_name = name, info_version = version, options = opts, state = configuring,
      protocol = await_initialize, registries = no_registries, ops = [], inflight = [], exec = None,
      reader = R_idle, worker = W_none, main = M_none, transport_up = False, stop_calls = 0, app = (a, initial_policy opts), link_state = t\<rparr>"

definition serving :: "('a, 't) server \<Rightarrow> bool" where
  "serving s \<longleftrightarrow> state s = starting \<or> state s = running"

subsection \<open>Sending\<close>

text \<open>
  \<open>emit\<close>: the frame handed to the transport (none when even the fallback is too large),
  whether the caller may go on, and the transport afterwards.
\<close>

definition emit :: "'t link \<Rightarrow> response \<Rightarrow> string \<Rightarrow> 't \<Rightarrow> bool \<times> json option \<times> 't" where
  "emit l reply m t =
     (let wire = response_to_json reply in
      if frame_fits (link_fc l) wire (link_limit l)
      then (case link_send l wire t of (r, t') \<Rightarrow> (is_ok r, Some wire, t'))
      else let failed_initialization = (m = ''initialize'' \<and> resp_result reply \<noteq> None);
               reply' = (if m = ''tools/call'' \<and> resp_result reply \<noteq> None then tool_failure (resp_id reply)
                         else failure_code (resp_id reply) internal_error ''Internal error'');
               wire' = response_to_json reply'
           in if \<not> frame_fits (link_fc l) wire' (link_limit l) then (False, None, t)
              else (case link_send l wire' t of (r, t') \<Rightarrow> (is_ok r \<and> \<not> failed_initialization, Some wire', t')))"

subsection \<open>Initialization\<close>

definition init_params_ok :: "json option \<Rightarrow> bool" where
  "init_params_ok params =
     (case params of None \<Rightarrow> False
      | Some p \<Rightarrow> is_object p \<and> member is_string p ''protocolVersion'' \<and> member is_object p ''capabilities''
          \<and> member is_object p ''clientInfo''
          \<and> (case json_at p ''clientInfo'' of
               Inr c \<Rightarrow> member is_string c ''name'' \<and> member is_string c ''version'' | Inl _ \<Rightarrow> False))"

definition capabilities :: "'a registries \<Rightarrow> json" where
  "capabilities regs =
     (let c = JObj [];
          c = (if prompts regs \<noteq> [] then json_put ''prompts'' (JObj []) c else c);
          c = (if resources regs \<noteq> [] then json_put ''resources'' (JObj []) c else c)
      in if tools regs \<noteq> [] then json_put ''tools'' (JObj []) c else c)"

definition initialize :: "request \<Rightarrow> ('a, 't) server \<Rightarrow> response \<times> ('a, 't) server" where
  "initialize req s =
     (if protocol s \<noteq> await_initialize
      then (failure_code (req_id req) invalid_request ''Initialization already attempted'', s)
      else if \<not> init_params_ok (req_params req)
      then (failure_code (req_id req) invalid_params ''Invalid initialize parameters'', s)
      else (reply_result (req_id req)
              (json_object [(''protocolVersion'', JStr ''2025-11-25''),
                 (''capabilities'', capabilities (registries s)),
                 (''serverInfo'', json_object [(''name'', JStr (info_name s)), (''version'', JStr (info_version s))])]),
            s\<lparr>protocol := await_initialized\<rparr>))"

subsection \<open>Regions of the reader\<close>

definition inflight_ids :: "('a, 't) server \<Rightarrow> json_rpc_id list" where
  "inflight_ids s = map (\<lambda>k. op_id (ops s ! k)) (inflight s)"

definition in_flight :: "json_rpc_id \<Rightarrow> ('a, 't) server \<Rightarrow> bool" where
  "in_flight i s \<longleftrightarrow> list_ex (\<lambda>j. same_request_id j i) (inflight_ids s)"

definition emit_control :: "'t link \<Rightarrow> response \<Rightarrow> string \<Rightarrow> ('a, 't) server \<Rightarrow> json option \<times> ('a, 't) server" where
  "emit_control l reply m s =
     (case emit l reply m (link_state s) of
        (ok, w, t) \<Rightarrow> (w, s\<lparr>link_state := t, reader := (if ok then R_idle else R_stop None)\<rparr>))"

definition receive_request :: "'t link \<Rightarrow> request \<Rightarrow> ('a, 't) server \<Rightarrow> json option \<times> ('a, 't) server" where
  "receive_request l req s =
     (if \<not> serving s \<or> protocol s = closing then (None, s)
      else if in_flight (req_id req) s then
        (case emit l (failure_code Id_null invalid_request ''Duplicate in-flight request ID'') [] (link_state s) of
           (ok, w, t) \<Rightarrow> (w, s\<lparr>link_state := t, protocol := closing, reader := R_stop None\<rparr>))
      else if req_method req = ''ping'' then
        emit_control l (reply_result (req_id req) (JObj [])) (req_method req) s
      else if req_method req = ''initialize'' then
        (case initialize req s of (reply, s') \<Rightarrow> emit_control l reply (req_method req) s')
      else if protocol s \<noteq> ready then
        emit_control l (failure_code (req_id req) invalid_request ''Server is not initialized'') [] s
      else (None, s\<lparr>ops := ops s @ [\<lparr>op_id = req_id req, op_cancelled = False, op_refs = 1\<rparr>],
                    inflight := inflight s @ [length (ops s)],
                    reader := R_enqueue req (length (ops s))\<rparr>))"

definition update_op :: "(operation \<Rightarrow> operation) \<Rightarrow> nat \<Rightarrow> ('a, 't) server \<Rightarrow> ('a, 't) server" where
  "update_op f k s = s\<lparr>ops := (ops s)[k := f (ops s ! k)]\<rparr>"

definition cancel_params :: "json option \<Rightarrow> json_rpc_id option" where
  "cancel_params params =
     (case params of None \<Rightarrow> None
      | Some p \<Rightarrow> if is_object p \<and> member is_request_id p ''requestId''
                    \<and> (\<not> json_contains p ''reason'' \<or> member is_string p ''reason'')
                 then (case json_at p ''requestId'' of Inr v \<Rightarrow> Some (read_json_rpc_id v) | Inl _ \<Rightarrow> None)
                 else None)"

definition notify :: "notification \<Rightarrow> ('a, 't) server \<Rightarrow> ('a, 't) server" where
  "notify n s =
     (if \<not> serving s then s
      else if note_method n = ''notifications/initialized'' then
        (if protocol s = await_initialized \<and> (case note_params n of None \<Rightarrow> True | Some p \<Rightarrow> is_object p)
         then s\<lparr>protocol := ready\<rparr> else s)
      else if note_method n = ''notifications/cancelled'' then
        (case cancel_params (note_params n) of
           None \<Rightarrow> s
         | Some i \<Rightarrow>
             (case find (\<lambda>k. same_request_id (op_id (ops s ! k)) i) (inflight s) of
                None \<Rightarrow> s
              | Some k \<Rightarrow> (update_op (\<lambda>p. p\<lparr>op_cancelled := True\<rparr>) k s)\<lparr>reader := R_cancel (op_id (ops s ! k))\<rparr>))
      else s)"

text \<open>The first region of \<open>receive\<close>; the reader is idle before it.\<close>

definition receive :: "'t link \<Rightarrow> json \<Rightarrow> ('a, 't) server \<Rightarrow> json option \<times> ('a, 't) server" where
  "receive l wire s =
     (case decode_message wire of
        Inl diagnostic \<Rightarrow>
          if is_object wire \<and> json_contains wire ''method'' \<and> \<not> json_contains wire ''id'' then (None, s)
          else if serving s then emit_control l diagnostic [] s
          else (None, s)
      | Inr (In_notification n) \<Rightarrow> (None, notify n s)
      | Inr (In_request req) \<Rightarrow> receive_request l req s
      | Inr (In_response _) \<Rightarrow> (None, s))"

text \<open>\<open>complete\<close>, run by the destructor of the last reference to a completion.\<close>

definition drop_ref :: "nat \<Rightarrow> ('a, 't) server \<Rightarrow> ('a, 't) server" where
  "drop_ref k s =
     (let s' = update_op (\<lambda>p. p\<lparr>op_refs := op_refs p - 1\<rparr>) k s
      in if op_refs (ops s' ! k) = 0 then s'\<lparr>inflight := filter (\<lambda>j. j \<noteq> k) (inflight s')\<rparr> else s')"

definition add_ref :: "nat \<Rightarrow> ('a, 't) server \<Rightarrow> ('a, 't) server" where
  "add_ref k s = update_op (\<lambda>p. p\<lparr>op_refs := op_refs p + 1\<rparr>) k s"

text \<open>The call of \<open>enqueue\<close>: the invocation holds a reference of its own while it exists.\<close>

definition receive_enqueue :: "request \<Rightarrow> nat \<Rightarrow> ('a, 't) server \<Rightarrow> ('a, 't) server" where
  "receive_enqueue req k s =
     (case exec s of
        None \<Rightarrow> s
      | Some e \<Rightarrow>
          (case enqueue (req_id req) (Some \<lparr>inv_request = req, inv_op = k\<rparr>) e of
             (Inr _, e') \<Rightarrow> (add_ref k s)\<lparr>exec := Some e', reader := R_return k\<rparr>
           | (Inl _, e') \<Rightarrow> s\<lparr>exec := Some e', reader := R_reject req k\<rparr>))"

definition receive_reject :: "'t link \<Rightarrow> request \<Rightarrow> nat \<Rightarrow> ('a, 't) server \<Rightarrow> json option \<times> ('a, 't) server" where
  "receive_reject l req k s =
     (if \<not> op_cancelled (ops s ! k) \<and> serving s then
        (case emit l (with_reason ''queue_full'' (failure (req_id req) (- 32052) ''Request queue is full'')) []
                (link_state s) of
           (ok, w, t) \<Rightarrow>
             (w, s\<lparr>link_state := t, reader := (if ok then R_return k else R_stop (Some k))\<rparr>))
      else (None, s\<lparr>reader := R_return k\<rparr>))"

definition receive_return :: "nat \<Rightarrow> ('a, 't) server \<Rightarrow> ('a, 't) server" where
  "receive_return k s = drop_ref k (s\<lparr>reader := R_idle\<rparr>)"

definition receive_cancel :: "json_rpc_id \<Rightarrow> ('a, 't) server \<Rightarrow> ('a, 't) server" where
  "receive_cancel i s =
     (case exec s of None \<Rightarrow> s\<lparr>reader := R_idle\<rparr>
      | Some e \<Rightarrow> (case cancel i e of
          (ws, e') \<Rightarrow> fold (\<lambda>w. drop_ref (inv_op (work_call w))) ws (s\<lparr>exec := Some e', reader := R_idle\<rparr>)))"

subsection \<open>Stopping\<close>

text \<open>
  The locked part of \<open>stop\<close>; \<open>stop_calls\<close> counts the calls that found an executor and have
  yet to stop it.
\<close>

definition stop_locked :: "('a, 't) server \<Rightarrow> ('a, 't) server" where
  "stop_locked s =
     (if state s = stopped then s
      else s\<lparr>state := stopping_down, protocol := closing,
             ops := map (\<lambda>k. if k \<in> set (inflight s) then (ops s ! k)\<lparr>op_cancelled := True\<rparr> else ops s ! k)
                      [0..<length (ops s)],
             stop_calls := (if exec s = None then stop_calls s else stop_calls s + 1)\<rparr>)"

definition stop_unlocked :: "('a, 't) server \<Rightarrow> ('a, 't) server" where
  "stop_unlocked s =
     (case exec s of None \<Rightarrow> s\<lparr>stop_calls := stop_calls s - 1\<rparr>
      | Some e \<Rightarrow> (case stop_executor e of
          (ws, e') \<Rightarrow> fold (\<lambda>w. drop_ref (inv_op (work_call w))) ws
                       (s\<lparr>exec := Some e', stop_calls := stop_calls s - 1\<rparr>)))"

subsection \<open>Registration, start and wait\<close>

definition server_register_tool ::
  "'t link \<Rightarrow> tool \<Rightarrow> 'a tool_handler option \<Rightarrow> ('a, 't) server \<Rightarrow> (sdk_error + unit) \<times> ('a, 't) server" where
  "server_register_tool l d h s =
     (case register_tool (link_compile l) (state s) d h (registries s) of (r, regs) \<Rightarrow> (r, s\<lparr>registries := regs\<rparr>))"

definition server_register_resource ::
  "mcp_resource \<Rightarrow> 'a resource_handler option \<Rightarrow> ('a, 't) server \<Rightarrow> (sdk_error + unit) \<times> ('a, 't) server" where
  "server_register_resource d h s =
     (case register_resource (state s) d h (registries s) of (r, regs) \<Rightarrow> (r, s\<lparr>registries := regs\<rparr>))"

definition server_register_prompt ::
  "mcp_prompt \<Rightarrow> 'a prompt_handler option \<Rightarrow> ('a, 't) server \<Rightarrow> (sdk_error + unit) \<times> ('a, 't) server" where
  "server_register_prompt d h s =
     (case register_prompt (state s) d h (registries s) of (r, regs) \<Rightarrow> (r, s\<lparr>registries := regs\<rparr>))"

definition limits_ok :: "('a, 't) server \<Rightarrow> bool" where
  "limits_ok s \<longleftrightarrow>
     \<not> (info_name s = [] \<or> info_version s = [] \<or> \<not> safe_text (info_name s) \<or> \<not> safe_text (info_version s)
        \<or> max_pending_requests (options s) = 0 \<or> tool_burst (options s) = 0
        \<or> \<not> f64_isfinite (tool_requests_per_second (options s))
        \<or> f64_value (tool_requests_per_second (options s)) \<le> 0
        \<or> clock_now (options s) = None)"

text \<open>\<open>start\<close>, region by region. \<open>Inl\<close>: the call returns this error at once.\<close>

definition start_locked :: "('a, 't) server \<Rightarrow> (sdk_error + unit) \<times> ('a, 't) server" where
  "start_locked s =
     (if state s \<noteq> configuring then (local_error ''Server already started or stopped'', s)
      else if \<not> limits_ok s then (local_error ''Invalid server limits'', s\<lparr>state := stopped\<rparr>)
      else (Inr (), s\<lparr>state := starting, main := M_install\<rparr>))"

definition start_install :: "('a, 't) server \<Rightarrow> ('a, 't) server" where
  "start_install s =
     s\<lparr>exec := Some (new_executor (max_pending_requests (options s))),
       main := (if state s \<noteq> starting then M_abort else M_transport)\<rparr>"

definition start_transport :: "bool \<Rightarrow> ('a, 't) server \<Rightarrow> ('a, 't) server" where
  "start_transport ok s = (if ok then s\<lparr>transport_up := True, main := M_finish\<rparr> else s\<lparr>main := M_abort\<rparr>)"

definition start_finish :: "('a, 't) server \<Rightarrow> ('a, 't) server" where
  "start_finish s =
     (if state s \<noteq> starting then s\<lparr>main := M_abort\<rparr> else s\<lparr>state := running, main := M_none\<rparr>)"

text \<open>The last region of \<open>wait\<close> and \<open>wait_for\<close>, once transport and executor are joined.\<close>

definition wait_done :: "('a, 't) server \<Rightarrow> ('a, 't) server" where
  "wait_done s = s\<lparr>state := stopped\<rparr>"

subsection \<open>Regions of the worker\<close>

definition current_work :: "('a, 't) server \<Rightarrow> invocation work option" where
  "current_work s = (case exec s of None \<Rightarrow> None | Some e \<Rightarrow> (case phase e of Calling w \<Rightarrow> Some w | _ \<Rightarrow> None))"

definition invoke_check :: "invocation work \<Rightarrow> ('a, 't) server \<Rightarrow> ('a, 't) server" where
  "invoke_check w s =
     (if op_cancelled (ops s ! inv_op (work_call w)) \<or> \<not> serving s then s\<lparr>worker := W_done\<rparr>
      else s\<lparr>worker := W_apply\<rparr>)"

definition invoke_apply :: "'t link \<Rightarrow> invocation work \<Rightarrow> ('a, 't) server \<Rightarrow> ('a, 't) server" where
  "invoke_apply l w s =
     (case run_application (link_fc l) (options s) (registries s) (inv_request (work_call w))
             \<lparr>ctx_id = work_id w, ctx_stop_requested = work_stop w\<rparr> (app s) of
        (reply, a) \<Rightarrow> s\<lparr>app := a, worker := W_reply reply\<rparr>)"

definition invoke_reply ::
  "'t link \<Rightarrow> invocation work \<Rightarrow> response \<Rightarrow> ('a, 't) server \<Rightarrow> json option \<times> ('a, 't) server" where
  "invoke_reply l w reply s =
     (if \<not> op_cancelled (ops s ! inv_op (work_call w)) \<and> serving s then
        (case emit l reply (req_method (inv_request (work_call w))) (link_state s) of
           (ok, wire, t) \<Rightarrow> (wire, s\<lparr>link_state := t, worker := (if ok then W_done else W_stop)\<rparr>))
      else (None, s\<lparr>worker := W_done\<rparr>))"

subsection \<open>What a region may send\<close>

lemma emit_cases:
  "emit l r m t = (ok, w, t') \<Longrightarrow>
     (w = None \<and> \<not> ok \<and> t' = t) \<or>
     (\<exists>wire res. w = Some wire \<and> link_send l wire t = (res, t') \<and> (ok \<longrightarrow> is_ok res) \<and>
        frame_fits (link_fc l) wire (link_limit l))"
  by (auto simp: emit_def Let_def split: if_splits prod.splits)

lemma emit_fits: "emit l r m t = (ok, Some w, t') \<Longrightarrow> frame_fits (link_fc l) w (link_limit l)"
  by (auto dest: emit_cases)

text \<open>A frame on the wire answers the id it was asked to answer.\<close>

lemma emit_id:
  assumes "emit l r m t = (ok, Some w, t')"
  shows "json_at w ''id'' = Inr (id_to_json (resp_id r)) \<and> json_at w ''jsonrpc'' = Inr (JStr (msg_jsonrpc r)) \<or>
         json_at w ''id'' = Inr (id_to_json (resp_id r)) \<and> json_at w ''jsonrpc'' = Inr (JStr ''2.0'')"
proof -
  have "json_at (response_to_json q) ''id'' = Inr (id_to_json (resp_id q))"
    "json_at (response_to_json q) ''jsonrpc'' = Inr (JStr (msg_jsonrpc q))" for q
    by (auto simp: response_to_json_def Let_def split: option.split)
  moreover have "w = response_to_json r \<or> w = response_to_json (tool_failure (resp_id r)) \<or>
      w = response_to_json (failure_code (resp_id r) internal_error ''Internal error'')"
    using assms by (auto simp: emit_def Let_def split: if_splits prod.splits)
  ultimately show ?thesis
    by (auto simp: tool_failure_def reply_result_def failure_code_def failure_def)
qed

end
