(* ===== verification/Server_Run.thy ===== *)
theory Server_Run
  imports Server
begin

text \<open>
  Interleavings of the server's threads: the caller of \<open>start\<close>, \<open>stop\<close>, \<open>wait\<close> and the
  registrations, the transport's reader, and the application worker. A step is one atomic
  region; the label says which frame it handed to the transport, if any.
\<close>

datatype srv_event =
    Silent
  | Control json
  | Replied nat "json option"

definition control :: "json option \<Rightarrow> srv_event" where
  "control w = (case w of None \<Rightarrow> Silent | Some j \<Rightarrow> Control j)"

inductive server_step :: "'t link \<Rightarrow> ('a, 't) server \<Rightarrow> srv_event \<Rightarrow> ('a, 't) server \<Rightarrow> bool" for l where
  register_tool: "server_register_tool l d h s = (r, s') \<Longrightarrow> server_step l s Silent s'"
| register_resource: "server_register_resource d' h' s = (r, s') \<Longrightarrow> server_step l s Silent s'"
| register_prompt: "server_register_prompt d'' h'' s = (r, s') \<Longrightarrow> server_step l s Silent s'"
| start: "start_locked s = (r, s') \<Longrightarrow> server_step l s Silent s'"
| install: "main s = M_install \<Longrightarrow> server_step l s Silent (start_install s)"
| install_failed: "main s = M_install \<Longrightarrow> server_step l s Silent (s\<lparr>main := M_abort\<rparr>)"
| transport_start: "main s = M_transport \<Longrightarrow> server_step l s Silent (start_transport ok s)"
| started: "main s = M_finish \<Longrightarrow> server_step l s Silent (start_finish s)"
| abort: "main s = M_abort \<Longrightarrow> server_step l s Silent (stop_locked (s\<lparr>main := M_none\<rparr>))"
| stop: "server_step l s Silent (stop_locked s)"
| stop_rest: "stop_calls s > 0 \<Longrightarrow> server_step l s Silent (stop_unlocked s)"
| transport_down: "transport_up s \<Longrightarrow> reader s = R_idle \<Longrightarrow> server_step l s Silent (s\<lparr>transport_up := False\<rparr>)"
| wait: "\<not> transport_up s \<Longrightarrow> (case exec s of None \<Rightarrow> True | Some e \<Rightarrow> finished e) \<Longrightarrow>
    server_step l s Silent (wait_done s)"
| message: "transport_up s \<Longrightarrow> reader s = R_idle \<Longrightarrow> receive l wire s = (w, s') \<Longrightarrow>
    server_step l s (control w) s'"
| reader_stop: "reader s = R_stop k \<Longrightarrow>
    server_step l s Silent (stop_locked (s\<lparr>reader := (case k of None \<Rightarrow> R_idle | Some k \<Rightarrow> R_return k)\<rparr>))"
| reader_cancel: "reader s = R_cancel i \<Longrightarrow> server_step l s Silent (receive_cancel i s)"
| reader_enqueue: "reader s = R_enqueue req k \<Longrightarrow> server_step l s Silent (receive_enqueue req k s)"
| reader_reject: "reader s = R_reject req k \<Longrightarrow> receive_reject l req k s = (w, s') \<Longrightarrow>
    server_step l s (Replied k w) s'"
| reader_return: "reader s = R_return k \<Longrightarrow> server_step l s Silent (receive_return k s)"
| worker_take: "exec s = Some e \<Longrightarrow> worker_wake e = Some e' \<Longrightarrow>
    server_step l s Silent (s\<lparr>exec := Some e',
      worker := (case phase e' of Calling _ \<Rightarrow> W_check | _ \<Rightarrow> W_none)\<rparr>)"
| worker_check: "worker s = W_check \<Longrightarrow> current_work s = Some cw \<Longrightarrow> server_step l s Silent (invoke_check cw s)"
| worker_apply: "worker s = W_apply \<Longrightarrow> current_work s = Some cw \<Longrightarrow> server_step l s Silent (invoke_apply l cw s)"
| worker_reply: "worker s = W_reply reply \<Longrightarrow> current_work s = Some cw \<Longrightarrow>
    invoke_reply l cw reply s = (w, s') \<Longrightarrow> server_step l s (Replied (inv_op (work_call cw)) w) s'"
| worker_stop: "worker s = W_stop \<Longrightarrow> server_step l s Silent (stop_locked (s\<lparr>worker := W_done\<rparr>))"
| worker_return: "worker s = W_done \<Longrightarrow> exec s = Some e \<Longrightarrow> worker_returned e = Some e' \<Longrightarrow>
    server_step l s Silent (s\<lparr>exec := Some e', worker := W_none\<rparr>)"
| worker_free: "exec s = Some e \<Longrightarrow> phase e = Releasing cw \<Longrightarrow> worker_release e = Some e' \<Longrightarrow>
    server_step l s Silent (drop_ref (inv_op (work_call cw)) (s\<lparr>exec := Some e'\<rparr>))"
| worker_exit: "exec s = Some e \<Longrightarrow> worker_finish e = Some e' \<Longrightarrow> server_step l s Silent (s\<lparr>exec := Some e'\<rparr>)"

inductive server_run :: "'t link \<Rightarrow> ('a, 't) server \<Rightarrow> srv_event list \<Rightarrow> ('a, 't) server \<Rightarrow> bool" for l where
  run_start: "server_run l s [] s"
| run_step: "server_run l s evs s' \<Longrightarrow> server_step l s' ev s'' \<Longrightarrow> server_run l s (evs @ [ev]) s''"

inductive_cases server_stepE: "server_step l s ev s'"

lemmas region_defs [step_defs] =
  receive_def receive_request_def emit_control_def initialize_def notify_def update_op_def
  receive_enqueue_def receive_reject_def receive_return_def receive_cancel_def
  stop_locked_def stop_unlocked_def start_locked_def start_install_def start_transport_def start_finish_def
  wait_done_def invoke_check_def invoke_apply_def invoke_reply_def add_ref_def drop_ref_def
  server_register_tool_def server_register_resource_def server_register_prompt_def

subsection \<open>Frame lemmas\<close>

lemma drop_ref_frame [simp]:
  "state (drop_ref k s) = state s" "protocol (drop_ref k s) = protocol s" "registries (drop_ref k s) = registries s"
  "exec (drop_ref k s) = exec s" "reader (drop_ref k s) = reader s" "worker (drop_ref k s) = worker s"
  "link_state (drop_ref k s) = link_state s" "options (drop_ref k s) = options s" "main (drop_ref k s) = main s"
  "transport_up (drop_ref k s) = transport_up s" "stop_calls (drop_ref k s) = stop_calls s" "app (drop_ref k s) = app s"
  "length (ops (drop_ref k s)) = length (ops s)" "info_name (drop_ref k s) = info_name s"
  "info_version (drop_ref k s) = info_version s"
  by (simp_all add: drop_ref_def update_op_def Let_def)

lemma ops_drop_ref: "ops (drop_ref k s) = (ops s)[k := (ops s ! k)\<lparr>op_refs := op_refs (ops s ! k) - 1\<rparr>]"
  by (simp add: drop_ref_def update_op_def Let_def)

lemma nth_update_field: "f (g (xs ! k)) = f (xs ! k) \<Longrightarrow> f (xs[k := g (xs ! k)] ! j) = f (xs ! j)"
  by (cases "j = k"; cases "k < length xs") (simp_all add: not_less list_update_beyond)

lemma drop_ref_ops [simp]:
  "op_id (ops (drop_ref k s) ! j) = op_id (ops s ! j)"
  "op_cancelled (ops (drop_ref k s) ! j) = op_cancelled (ops s ! j)"
  unfolding ops_drop_ref by (rule nth_update_field; simp)+

lemma fold_drop_frame [simp]:
  "state (fold (\<lambda>w. drop_ref (f w)) ws s) = state s"
  "protocol (fold (\<lambda>w. drop_ref (f w)) ws s) = protocol s"
  "registries (fold (\<lambda>w. drop_ref (f w)) ws s) = registries s"
  "exec (fold (\<lambda>w. drop_ref (f w)) ws s) = exec s"
  "reader (fold (\<lambda>w. drop_ref (f w)) ws s) = reader s"
  "worker (fold (\<lambda>w. drop_ref (f w)) ws s) = worker s"
  "link_state (fold (\<lambda>w. drop_ref (f w)) ws s) = link_state s"
  "length (ops (fold (\<lambda>w. drop_ref (f w)) ws s)) = length (ops s)"
  "op_id (ops (fold (\<lambda>w. drop_ref (f w)) ws s) ! j) = op_id (ops s ! j)"
  "op_cancelled (ops (fold (\<lambda>w. drop_ref (f w)) ws s) ! j) = op_cancelled (ops s ! j)"
  "transport_up (fold (\<lambda>w. drop_ref (f w)) ws s) = transport_up s"
  "main (fold (\<lambda>w. drop_ref (f w)) ws s) = main s"
  by (induction ws arbitrary: s) simp_all

subsection \<open>The lifecycle only moves forward\<close>

definition connection_rank :: "connection \<Rightarrow> nat" where
  "connection_rank c =
     (case c of await_initialize \<Rightarrow> 0 | await_initialized \<Rightarrow> 1 | ready \<Rightarrow> 2 | closing \<Rightarrow> 3)"

lemma lifecycle_le [simp]:
  "configuring \<le> (b :: lifecycle)" "(a :: lifecycle) \<le> stopped" "starting \<le> running" "starting \<le> stopping_down"
  "running \<le> stopping_down"
  by (cases b, simp_all add: less_eq_lifecycle_def) (cases a, simp_all add: less_eq_lifecycle_def)

lemma not_stopped_le: "a \<noteq> stopped \<Longrightarrow> a \<le> stopping_down"
  by (cases a) (simp_all add: less_eq_lifecycle_def)

definition reader_frame :: "('a, 't) server \<Rightarrow> ('a, 't) server \<Rightarrow> bool" where
  "reader_frame s s' \<longleftrightarrow>
     state s' = state s \<and> registries s' = registries s \<and> exec s' = exec s \<and> worker s' = worker s
     \<and> options s' = options s \<and> connection_rank (protocol s) \<le> connection_rank (protocol s')"

lemma reader_frame_refl [simp]: "reader_frame s s"
  by (simp add: reader_frame_def)

lemma connection_rank_le [simp]:
  "connection_rank c \<le> connection_rank closing" "connection_rank await_initialize \<le> connection_rank c"
  "connection_rank await_initialized \<le> connection_rank ready"
  by (cases c) (simp_all add: connection_rank_def)

lemma emit_control_frame: "emit_control l r m s = (w, s') \<Longrightarrow> reader_frame s s'"
  by (auto simp: emit_control_def reader_frame_def split: prod.splits)

lemma initialize_frame: "initialize req s = (r, s') \<Longrightarrow> reader_frame s s'"
  by (auto simp: initialize_def reader_frame_def split: if_splits)

lemma notify_frame: "reader_frame s (notify n s)"
  by (simp add: notify_def update_op_def reader_frame_def split: option.split)

lemma reader_frame_trans: "reader_frame s t \<Longrightarrow> reader_frame t u \<Longrightarrow> reader_frame s u"
  by (auto simp: reader_frame_def)

lemma receive_request_frame: "receive_request l req s = (w, s') \<Longrightarrow> reader_frame s s'"
  unfolding receive_request_def
  by (auto split: if_splits prod.splits intro: emit_control_frame reader_frame_trans [OF initialize_frame emit_control_frame])
     (auto simp: reader_frame_def)

lemma receive_frame: "receive l wire s = (w, s') \<Longrightarrow> reader_frame s s'"
  unfolding receive_def
  by (auto split: sum.splits incoming_message.splits if_splits intro: emit_control_frame receive_request_frame notify_frame)

lemma server_step_state:
  assumes "server_step l s ev s'"
  shows "state s \<le> state s' \<and> connection_rank (protocol s) \<le> connection_rank (protocol s')"
  using assms
proof cases
  case (message wire w)
  then show ?thesis using receive_frame unfolding reader_frame_def by fastforce
qed (auto simp: server_register_tool_def server_register_resource_def server_register_prompt_def start_locked_def
    start_install_def start_transport_def start_finish_def stop_locked_def stop_unlocked_def wait_done_def
    receive_cancel_def receive_enqueue_def add_ref_def update_op_def receive_reject_def receive_return_def
    invoke_check_def invoke_apply_def invoke_reply_def not_stopped_le connection_rank_def local_error_def
    split: prod.splits if_splits option.splits sum.splits connection.splits)

end
