(* ===== verification/Server_Inv.thy ===== *)
theory Server_Inv
  imports Server_Run
begin

text \<open>
  Invariants of the server's runs: reference counts of the in-flight operations are exact,
  so an operation is in \<open>inflight_\<close> exactly while the reader, the queue or the worker can
  still answer it; ids in flight are pairwise different on the wire; and each operation is
  answered at most once.
\<close>

subsection \<open>Who holds a reference\<close>

definition reader_holds :: "reader_pc \<Rightarrow> nat multiset" where
  "reader_holds pc =
     (case pc of R_enqueue _ k \<Rightarrow> {#k#} | R_reject _ k \<Rightarrow> {#k#} | R_return k \<Rightarrow> {#k#}
      | R_stop (Some k) \<Rightarrow> {#k#} | _ \<Rightarrow> {#})"

definition work_op :: "invocation work \<Rightarrow> nat" where
  "work_op w = inv_op (work_call w)"

definition phase_works :: "invocation executor \<Rightarrow> invocation work list" where
  "phase_works e = (case phase e of Calling w \<Rightarrow> [w] | Releasing w \<Rightarrow> [w] | _ \<Rightarrow> [])"

definition exec_works :: "('a, 't) server \<Rightarrow> invocation work list" where
  "exec_works s = (case exec s of None \<Rightarrow> [] | Some e \<Rightarrow> pending e @ phase_works e)"

definition holders :: "('a, 't) server \<Rightarrow> nat multiset" where
  "holders s = reader_holds (reader s) + mset (map work_op (exec_works s))"

definition refs_ok :: "nat multiset \<Rightarrow> ('a, 't) server \<Rightarrow> bool" where
  "refs_ok M s \<longleftrightarrow>
     (\<forall>k < length (ops s). op_refs (ops s ! k) = count M k) \<and> set_mset M \<subseteq> {..<length (ops s)} \<and>
     set (inflight s) = set_mset M \<and> distinct (inflight s)"

lemma refs_ok_drop:
  assumes "refs_ok (add_mset k M) s"
  shows "refs_ok M (drop_ref k s)"
proof -
  have k: "k < length (ops s)" and cnt: "op_refs (ops s ! k) = Suc (count M k)"
    using assms by (auto simp: refs_ok_def)
  have refs: "op_refs (ops (drop_ref k s) ! j) = count M j" if "j < length (ops s)" for j
    using assms that k cnt by (cases "j = k") (auto simp: refs_ok_def ops_drop_ref)
  have infl: "inflight (drop_ref k s) = (if count M k = 0 then filter (\<lambda>j. j \<noteq> k) (inflight s) else inflight s)"
    using k cnt by (auto simp: drop_ref_def update_op_def Let_def count_eq_zero_iff)
  have "set (inflight (drop_ref k s)) = set_mset M"
    using assms unfolding infl by (auto simp: refs_ok_def count_eq_zero_iff)
  then show ?thesis
    using assms refs unfolding refs_ok_def by (auto simp: infl)
qed

lemma refs_ok_fold_drop:
  "refs_ok (M + mset (map f ws)) s \<Longrightarrow> refs_ok M (fold (\<lambda>w. drop_ref (f w)) ws s)"
proof (induction ws arbitrary: s)
  case (Cons w ws)
  then have "refs_ok (M + mset (map f ws)) (drop_ref (f w) s)" by (intro refs_ok_drop) simp
  then show ?case using Cons.IH by simp
qed simp

lemma refs_ok_add:
  assumes "refs_ok M s" "k \<in># M"
  shows "refs_ok (add_mset k M) (add_ref k s)"
proof -
  have "k < length (ops s)" using assms by (auto simp: refs_ok_def)
  then show ?thesis
    using assms by (auto simp: refs_ok_def add_ref_def update_op_def nth_list_update)
qed

text \<open>Only the operations and the in-flight list matter.\<close>

lemma refs_ok_cong: "ops s' = ops s \<Longrightarrow> inflight s' = inflight s \<Longrightarrow> refs_ok M s' = refs_ok M s"
  by (simp add: refs_ok_def)

lemma refs_ok_map:
  "(\<And>p. op_refs (f p) = op_refs p) \<Longrightarrow> ops s' = map (\<lambda>k. if P k then f (ops s ! k) else ops s ! k) [0..<length (ops s)] \<Longrightarrow>
   inflight s' = inflight s \<Longrightarrow> refs_ok M s' = refs_ok M s"
  by (auto simp: refs_ok_def)

subsection \<open>The executor's invocations\<close>

lemma enqueue_works:
  "enqueue i (Some c) e = (Inr u, e') \<Longrightarrow>
     pending e' = pending e @ [\<lparr>work_id = i, work_stop = False, work_call = c\<rparr>] \<and> phase e' = phase e"
  by (auto simp: enqueue_def executor_error_def split: if_splits)

lemma stop_active_works:
  "map work_call (phase_works (stop_active e)) = map work_call (phase_works e)"
  "map work_id (phase_works (stop_active e)) = map work_id (phase_works e)"
  by (simp_all add: stop_active_def phase_works_def split: option.split worker_phase.split)

lemma stop_active_mset: "image_mset work_call (mset (phase_works (stop_active e))) = image_mset work_call (mset (phase_works e))"
  by (metis mset_map stop_active_works(1))

lemma phase_works_update [simp]: "phase_works (e\<lparr>pending := r\<rparr>) = phase_works e"
  "phase_works (e\<lparr>stopping := b\<rparr>) = phase_works e"
  by (simp_all add: phase_works_def)

lemma cancel_works:
  "cancel i e = (ws, e') \<Longrightarrow>
     mset (map work_call (pending e @ phase_works e)) =
       mset (map work_call (pending e' @ phase_works e')) + mset (map work_call ws)"
proof -
  assume c: "cancel i e = (ws, e')"
  obtain t r where tr: "take_first (\<lambda>w. same_request_id (work_id w) i) (pending e) = (t, r)" by force
  have "mset (pending e) = mset r + mset t" using take_first_split [OF tr] by auto
  then have m: "mset (map work_call (pending e)) = mset (map work_call r) + mset (map work_call t)"
    by (simp add: image_mset_union [symmetric] del: image_mset_union)
  show ?thesis
    using c tr m by (auto simp: cancel_def stop_active_mset split: if_splits)
qed

lemma stop_works:
  "stop_executor e = (ws, e') \<Longrightarrow>
     mset (map work_call (pending e @ phase_works e)) =
       mset (map work_call (pending e' @ phase_works e')) + mset (map work_call ws)"
  by (auto simp: stop_executor_def stop_active_mset)

text \<open>The relation between works as (id, invocation) pairs is kept as well.\<close>

definition work_sig :: "invocation work \<Rightarrow> json_rpc_id \<times> invocation" where
  "work_sig w = (work_id w, work_call w)"

lemma stop_active_sig: "map work_sig (phase_works (stop_active e)) = map work_sig (phase_works e)"
  by (simp add: stop_active_def phase_works_def work_sig_def split: option.split worker_phase.split)

lemma cancel_sig:
  "cancel i e = (ws, e') \<Longrightarrow> set (map work_sig (pending e' @ phase_works e')) \<subseteq> set (map work_sig (pending e @ phase_works e))"
proof -
  assume c: "cancel i e = (ws, e')"
  obtain t r where tr: "take_first (\<lambda>w. same_request_id (work_id w) i) (pending e) = (t, r)" by force
  have r: "set r \<subseteq> set (pending e)" using take_first_split [OF tr] by auto
  have "set (map work_sig (phase_works (stop_active e))) = set (map work_sig (phase_works e))"
    by (simp only: stop_active_sig)
  then show ?thesis
    using c tr r by (auto simp: cancel_def phase_works_def split: if_splits)
qed

lemma stop_sig:
  "stop_executor e = (ws, e') \<Longrightarrow> set (map work_sig (pending e' @ phase_works e')) \<subseteq> set (map work_sig (pending e @ phase_works e))"
proof -
  assume s: "stop_executor e = (ws, e')"
  have "set (map work_sig (phase_works (stop_active (e\<lparr>stopping := True, pending := []\<rparr>)))) =
      set (map work_sig (phase_works e))"
    by (simp only: stop_active_sig) (simp add: phase_works_def)
  then show ?thesis using s by (auto simp: stop_executor_def)
qed

lemma wake_works:
  "worker_wake e = Some e' \<Longrightarrow>
     pending e' @ phase_works e' = pending e \<or> pending e = hd (pending e) # pending e' \<and> phase_works e' = [hd (pending e)]"
  "worker_wake e = Some e' \<Longrightarrow> mset (pending e' @ phase_works e') = mset (pending e @ phase_works e)"
  by (auto simp: worker_wake_def phase_works_def split: if_splits list.splits)

lemma returned_works: "worker_returned e = Some e' \<Longrightarrow> pending e' = pending e \<and> phase_works e' = phase_works e"
  by (auto simp: worker_returned_def phase_works_def split: worker_phase.splits)

lemma release_works:
  "worker_release e = Some e' \<Longrightarrow> phase e = Releasing w \<Longrightarrow>
     pending e' = pending e \<and> phase_works e = [w] \<and> phase_works e' = []"
  by (auto simp: worker_release_def phase_works_def)

lemma finish_works: "worker_finish e = Some e' \<Longrightarrow> pending e' = pending e \<and> phase_works e' = phase_works e"
  by (auto simp: worker_finish_def phase_works_def split: if_splits)

subsection \<open>The invariant\<close>

definition ids_ok :: "('a, 't) server \<Rightarrow> bool" where
  "ids_ok s \<longleftrightarrow>
     (\<forall>k \<in> set (inflight s). op_id (ops s ! k) \<noteq> Id_null) \<and>
     (\<forall>j \<in> set (inflight s). \<forall>k \<in> set (inflight s).
        id_key (op_id (ops s ! j)) = id_key (op_id (ops s ! k)) \<longrightarrow> j = k)"

definition works_ok :: "('a, 't) server \<Rightarrow> bool" where
  "works_ok s \<longleftrightarrow>
     (\<forall>w \<in> set (exec_works s).
        op_id (ops s ! work_op w) = work_id w \<and> req_id (inv_request (work_call w)) = work_id w)"

definition reader_ok :: "('a, 't) server \<Rightarrow> bool" where
  "reader_ok s \<longleftrightarrow>
     (case reader s of
        R_enqueue req k \<Rightarrow> req_id req = op_id (ops s ! k) | R_reject req k \<Rightarrow> req_id req = op_id (ops s ! k)
      | _ \<Rightarrow> True)"

definition exec_ok :: "('a, 't) server \<Rightarrow> bool" where
  "exec_ok s \<longleftrightarrow>
     (case exec s of None \<Rightarrow> worker s = W_none \<and> reader s = R_idle
      | Some e \<Rightarrow> exec_inv e \<and> (worker s \<noteq> W_none \<longleftrightarrow> (\<exists>w. phase e = Calling w)))"

definition control_ok :: "('a, 't) server \<Rightarrow> bool" where
  "control_ok s \<longleftrightarrow>
     (transport_up s \<or> main s = M_transport \<or> main s = M_finish \<longrightarrow> exec s \<noteq> None)
     \<and> (main s = M_install \<longrightarrow> exec s = None) \<and> (state s = configuring \<longrightarrow> main s = M_none \<and> exec s = None)"

definition server_inv :: "('a, 't) server \<Rightarrow> bool" where
  "server_inv s \<longleftrightarrow> refs_ok (holders s) s \<and> ids_ok s \<and> works_ok s \<and> reader_ok s \<and> exec_ok s \<and> control_ok s"

lemmas server_inv_defs [inv_defs] =
  server_inv_def ids_ok_def works_ok_def reader_ok_def exec_ok_def control_ok_def

lemma server_inv_new: "server_inv (new_server n v opts a t)"
  by (simp add: inv_defs refs_ok_def holders_def exec_works_def reader_holds_def new_server_def)

text \<open>A step that keeps operations, in-flight list, executor, reader and worker.\<close>

definition same_work :: "('a, 't) server \<Rightarrow> ('a, 't) server \<Rightarrow> bool" where
  "same_work s s' \<longleftrightarrow>
     ops s' = ops s \<and> inflight s' = inflight s \<and> exec s' = exec s \<and> reader s' = reader s \<and> worker s' = worker s"

text \<open>Marking operations cancelled keeps everything.\<close>

definition same_ops :: "('a, 't) server \<Rightarrow> ('a, 't) server \<Rightarrow> bool" where
  "same_ops s s' \<longleftrightarrow>
     length (ops s') = length (ops s) \<and>
     (\<forall>k. k < length (ops s) \<longrightarrow> op_id (ops s' ! k) = op_id (ops s ! k) \<and> op_refs (ops s' ! k) = op_refs (ops s ! k))"

lemma refs_ok_same_ops: "same_ops s s' \<Longrightarrow> inflight s' = inflight s \<Longrightarrow> refs_ok M s \<Longrightarrow> refs_ok M s'"
  by (auto simp: same_ops_def refs_ok_def)

lemma ids_ok_same_ops:
  "same_ops s s' \<Longrightarrow> set (inflight s') \<subseteq> set (inflight s) \<Longrightarrow> set (inflight s) \<subseteq> {..<length (ops s)} \<Longrightarrow> ids_ok s \<Longrightarrow> ids_ok s'"
  by (auto simp: same_ops_def ids_ok_def subset_iff)

lemma refs_ok_inflight: "refs_ok M s \<Longrightarrow> set (inflight s) \<subseteq> {..<length (ops s)}"
  by (simp add: refs_ok_def)

lemma exec_works_cong: "exec s' = exec s \<Longrightarrow> exec_works s' = exec_works s"
  by (simp add: exec_works_def)

lemma holders_works: "w \<in> set (exec_works s) \<Longrightarrow> work_op w \<in># holders s"
  by (simp add: holders_def)

lemma refs_ok_holds: "refs_ok M s \<Longrightarrow> k \<in># M \<Longrightarrow> k < length (ops s) \<and> k \<in> set (inflight s)"
  by (auto simp: refs_ok_def)

lemma server_inv_same_ops:
  assumes inv: "server_inv s" and so: "same_ops s s'"
    and eq: "inflight s' = inflight s" "exec s' = exec s" "worker s' = worker s"
    and rd: "reader_holds (reader s') = reader_holds (reader s)" "reader_ok s'" "exec s = None \<longrightarrow> reader s' = R_idle"
    and ctl: "control_ok s'"
  shows "server_inv s'"
proof -
  have w: "exec_works s' = exec_works s" by (simp add: exec_works_def eq)
  have h: "holders s' = holders s" by (simp add: holders_def w rd)
  have refs: "refs_ok (holders s) s" using inv by (simp add: server_inv_def)
  have "works_ok s'"
  proof -
    have "op_id (ops s' ! work_op v) = op_id (ops s ! work_op v)" if "v \<in> set (exec_works s)" for v
      using so refs_ok_holds [OF refs holders_works [OF that]] by (simp add: same_ops_def)
    then show ?thesis using inv by (simp add: server_inv_def works_ok_def w)
  qed
  moreover have "ids_ok s'"
    using ids_ok_same_ops [OF so] inv refs_ok_inflight [OF refs] by (simp add: eq server_inv_def)
  moreover have "refs_ok (holders s') s'"
    using refs_ok_same_ops [OF so eq(1) refs] by (simp add: h)
  moreover have "exec_ok s'" using inv rd(3) by (auto simp: server_inv_def exec_ok_def eq split: option.splits)
  ultimately show ?thesis using rd(2) ctl by (simp add: server_inv_def)
qed

lemma server_inv_same_work:
  assumes inv: "server_inv s" and "same_work s s'" "control_ok s'"
  shows "server_inv s'"
proof (rule server_inv_same_ops [OF inv])
  show "reader_ok s'" using assms by (auto simp: server_inv_def reader_ok_def same_work_def split: reader_pc.splits)
qed (use assms in \<open>auto simp: same_work_def same_ops_def server_inv_def exec_ok_def\<close>)

lemma stop_locked_inv: "server_inv s \<Longrightarrow> server_inv (stop_locked s)"
proof (cases "state s = stopped")
  case False
  assume inv: "server_inv s"
  have so: "same_ops s (stop_locked s)" using False by (auto simp: same_ops_def stop_locked_def)
  show ?thesis
  proof (rule server_inv_same_ops [OF inv so])
    show "reader_ok (stop_locked s)"
    proof -
      have "k < length (ops s)" if "k \<in># reader_holds (reader s)" for k
        using inv that by (auto simp: server_inv_def refs_ok_def holders_def)
      then show ?thesis
        using inv so by (auto simp: server_inv_def reader_ok_def same_ops_def stop_locked_def reader_holds_def
            split: reader_pc.splits option.splits)
    qed
    show "control_ok (stop_locked s)" using inv False by (auto simp: server_inv_def control_ok_def stop_locked_def)
  qed (use inv False in \<open>auto simp: stop_locked_def server_inv_def exec_ok_def\<close>)
qed (simp add: stop_locked_def)

text \<open>Dropping the references of discarded or released works.\<close>

lemma fold_drop_ids:
  "set (inflight (fold (\<lambda>w. drop_ref (f w)) ws s)) \<subseteq> set (inflight s)"
proof (induction ws arbitrary: s)
  case (Cons w ws)
  have "set (inflight (drop_ref (f w) s)) \<subseteq> set (inflight s)"
    by (auto simp: drop_ref_def update_op_def Let_def split: if_splits)
  then show ?case using Cons.IH [of "drop_ref (f w) s"] by auto
qed simp

lemma server_inv_drop:
  assumes inv: "server_inv s"
    and h: "holders s = holders s1 + mset (map f ws)"
    and eq: "ops s1 = ops s" "inflight s1 = inflight s"
    and wk: "set (map work_sig (exec_works s1)) \<subseteq> set (map work_sig (exec_works s))"
    and ok: "reader_ok s1" "exec_ok s1" "control_ok s1"
  shows "server_inv (fold (\<lambda>w. drop_ref (f w)) ws s1)" (is "server_inv ?s")
proof -
  have refs: "refs_ok (holders s1 + mset (map f ws)) s1"
    using inv refs_ok_cong [of s1 s, OF eq] by (simp only: server_inv_def h [symmetric])
  have w: "exec_works ?s = exec_works s1" by (simp add: exec_works_def)
  have "holders ?s = holders s1" by (simp add: holders_def w)
  then have "refs_ok (holders ?s) ?s" using refs_ok_fold_drop [OF refs] by simp
  moreover have "ids_ok ?s"
    using inv fold_drop_ids [of f ws s1] by (auto simp: server_inv_def ids_ok_def eq subset_iff)
  moreover have "works_ok ?s"
  proof -
    have "op_id (ops s ! work_op v) = work_id v \<and> req_id (inv_request (work_call v)) = work_id v"
      if "v \<in> set (exec_works s1)" for v
    proof -
      have "work_sig v \<in> work_sig ` set (exec_works s)" using wk that by auto
      then obtain u where "u \<in> set (exec_works s)" "work_sig u = work_sig v" by (metis imageE)
      then show ?thesis using inv by (auto simp: server_inv_def works_ok_def work_sig_def work_op_def)
    qed
    then show ?thesis by (simp add: works_ok_def w eq)
  qed
  moreover have "reader_ok ?s" "exec_ok ?s" "control_ok ?s"
    using ok by (auto simp: reader_ok_def exec_ok_def control_ok_def split: reader_pc.splits option.splits)
  ultimately show ?thesis by (simp add: server_inv_def)
qed

subsection \<open>Every step keeps the invariant\<close>

lemma exec_works_Some: "exec s = Some e \<Longrightarrow> exec_works s = pending e @ phase_works e"
  by (simp add: exec_works_def)

lemma inv_exec: "server_inv s \<Longrightarrow> exec s = Some e \<Longrightarrow> exec_inv e \<and> (worker s \<noteq> W_none \<longleftrightarrow> (\<exists>w. phase e = Calling w))"
  by (simp add: server_inv_def exec_ok_def)

lemma calling_stop_active: "(\<exists>w. phase (stop_active e) = Calling w) \<longleftrightarrow> (\<exists>w. phase e = Calling w)"
  by (simp add: stop_active_def split: option.split worker_phase.split)

lemma work_ops_of_calls:
  "mset (map work_call xs) = mset (map work_call ys) + mset (map work_call zs) \<Longrightarrow>
   mset (map work_op xs) = mset (map work_op ys) + mset (map work_op zs)"
proof -
  assume "mset (map work_call xs) = mset (map work_call ys) + mset (map work_call zs)"
  then have "image_mset inv_op (mset (map work_call xs)) =
      image_mset inv_op (mset (map work_call ys) + mset (map work_call zs))" by (rule arg_cong)
  then show ?thesis by (simp add: multiset.map_comp comp_def work_op_def [abs_def])
qed

lemma reader_cancel_inv:
  assumes inv: "server_inv s" and rd: "reader s = R_cancel i"
  shows "server_inv (receive_cancel i s)"
proof -
  obtain e where e: "exec s = Some e"
    using inv rd by (auto simp: server_inv_def exec_ok_def split: option.splits)
  obtain ws e' where c: "cancel i e = (ws, e')" by force
  let ?s1 = "s\<lparr>exec := Some e', reader := R_idle\<rparr>"
  have "server_inv (fold (\<lambda>w. drop_ref (work_op w)) ws ?s1)"
  proof (rule server_inv_drop [OF inv])
    show "holders s = holders ?s1 + mset (map work_op ws)"
      using work_ops_of_calls [OF cancel_works [OF c]] rd e
      by (simp add: holders_def exec_works_def reader_holds_def)
    show "set (map work_sig (exec_works ?s1)) \<subseteq> set (map work_sig (exec_works s))"
      using cancel_sig [OF c] e by (simp add: exec_works_def)
    have "exec_inv e'" using cancel_inv [of e i] inv_exec [OF inv e] c by simp
    moreover have "(\<exists>w. phase e' = Calling w) \<longleftrightarrow> (\<exists>w. phase e = Calling w)"
      using c calling_stop_active [of e] by (auto simp: cancel_def split: if_splits prod.splits)
    ultimately show "exec_ok ?s1" using inv_exec [OF inv e] by (simp add: exec_ok_def)
  qed (use inv e in \<open>auto simp: server_inv_def reader_ok_def control_ok_def\<close>)
  then show ?thesis using e c by (simp add: receive_cancel_def work_op_def)
qed

lemma stop_rest_inv:
  assumes inv: "server_inv s"
  shows "server_inv (stop_unlocked s)"
proof (cases "exec s")
  case None
  then show ?thesis
    using inv by (intro server_inv_same_work [OF inv])
      (auto simp: stop_unlocked_def same_work_def server_inv_def control_ok_def)
next
  case (Some e)
  obtain ws e' where c: "stop_executor e = (ws, e')" by force
  let ?s1 = "s\<lparr>exec := Some e', stop_calls := stop_calls s - 1\<rparr>"
  have "server_inv (fold (\<lambda>w. drop_ref (work_op w)) ws ?s1)"
  proof (rule server_inv_drop [OF inv])
    show "holders s = holders ?s1 + mset (map work_op ws)"
      using work_ops_of_calls [OF stop_works [OF c]] Some by (simp add: holders_def exec_works_def)
    show "set (map work_sig (exec_works ?s1)) \<subseteq> set (map work_sig (exec_works s))"
      using stop_sig [OF c] Some by (simp add: exec_works_def)
    have "exec_inv e'" using stop_executor_inv [of e] inv_exec [OF inv Some] c by simp
    moreover have "(\<exists>w. phase e' = Calling w) \<longleftrightarrow> (\<exists>w. phase e = Calling w)"
      using c calling_stop_active [of "e\<lparr>stopping := True, pending := []\<rparr>"] by (auto simp: stop_executor_def)
    ultimately show "exec_ok ?s1" using inv_exec [OF inv Some] by (simp add: exec_ok_def)
  qed (use inv Some in \<open>auto simp: server_inv_def reader_ok_def control_ok_def split: reader_pc.splits\<close>)
  then show ?thesis using Some c by (simp add: stop_unlocked_def work_op_def)
qed

lemma worker_free_inv:
  assumes inv: "server_inv s" and e: "exec s = Some e" "phase e = Releasing cw" "worker_release e = Some e'"
  shows "server_inv (drop_ref (inv_op (work_call cw)) (s\<lparr>exec := Some e'\<rparr>))"
proof -
  have "server_inv (fold (\<lambda>w. drop_ref (work_op w)) [cw] (s\<lparr>exec := Some e'\<rparr>))"
  proof (rule server_inv_drop [OF inv])
    note rw = release_works [OF e(3,2)]
    show "holders s = holders (s\<lparr>exec := Some e'\<rparr>) + mset (map work_op [cw])"
      using rw e by (simp add: holders_def exec_works_def)
    show "set (map work_sig (exec_works (s\<lparr>exec := Some e'\<rparr>))) \<subseteq> set (map work_sig (exec_works s))"
      using rw e by (auto simp: exec_works_def)
    have "exec_inv e'" using worker_inv(3) [OF _ e(3)] inv_exec [OF inv e(1)] by simp
    then show "exec_ok (s\<lparr>exec := Some e'\<rparr>)"
      using inv_exec [OF inv e(1)] e by (auto simp: exec_ok_def worker_release_def)
  qed (use inv e in \<open>auto simp: server_inv_def reader_ok_def control_ok_def split: reader_pc.splits\<close>)
  then show ?thesis by (simp add: work_op_def)
qed

lemma reader_return_inv:
  assumes inv: "server_inv s" and rd: "reader s = R_return k"
  shows "server_inv (receive_return k s)"
proof -
  have "server_inv (fold (\<lambda>w. drop_ref w) [k] (s\<lparr>reader := R_idle\<rparr>))"
  proof (rule server_inv_drop [OF inv])
    show "holders s = holders (s\<lparr>reader := R_idle\<rparr>) + mset (map (\<lambda>w. w) [k])"
      using rd by (simp add: holders_def exec_works_def reader_holds_def)
  qed (use inv rd in \<open>auto simp: server_inv_def reader_ok_def control_ok_def exec_ok_def exec_works_def split: option.splits\<close>)
  then show ?thesis by (simp add: receive_return_def)
qed

lemma new_executor_works [simp]:
  "pending (new_executor n) = []" "phase_works (new_executor n) = []" "phase (new_executor n) \<noteq> Calling w"
  by (simp_all add: new_executor_def phase_works_def)

lemma start_steps_inv:
  assumes "server_inv s"
  shows "start_locked s = (r, s') \<Longrightarrow> server_inv s'"
    and "main s = M_install \<Longrightarrow> server_inv (start_install s)"
    and "main s = M_install \<Longrightarrow> server_inv (s\<lparr>main := M_abort\<rparr>)"
    and "main s = M_transport \<Longrightarrow> server_inv (start_transport ok s)"
    and "main s = M_finish \<Longrightarrow> server_inv (start_finish s)"
    and "main s = M_abort \<Longrightarrow> server_inv (s\<lparr>main := M_none\<rparr>)"
    and "server_inv (wait_done s)"
    and "server_inv (s\<lparr>transport_up := False\<rparr>)"
proof -
  have new: "exec_inv (new_executor (max_pending_requests (options s)) :: invocation executor)"
    by (rule exec_inv_new)
  show "server_inv (start_install s)" if m: "main s = M_install"
  proof -
    have none: "exec s = None" "worker s = W_none" "reader s = R_idle"
      using assms m by (auto simp: server_inv_def control_ok_def exec_ok_def)
    then show ?thesis
      using assms m new
      by (auto simp: server_inv_def start_install_def refs_ok_def holders_def exec_works_def ids_ok_def works_ok_def
          reader_ok_def exec_ok_def control_ok_def)
  qed
  have ctl: "control_ok s" using assms by (simp add: server_inv_def)
  note keep = server_inv_same_work [OF assms]
  show "server_inv s'" if st: "start_locked s = (r, s')"
  proof -
    consider "s' = s" | "s' = s\<lparr>state := stopped\<rparr>" "state s = configuring"
      | "s' = s\<lparr>state := starting, main := M_install\<rparr>" "state s = configuring"
      using st by (auto simp: start_locked_def local_error_def split: if_splits)
    then show ?thesis
    proof cases
      case 2
      then show ?thesis using ctl by (intro keep) (auto simp: same_work_def control_ok_def)
    next
      case 3
      then show ?thesis using ctl by (intro keep) (auto simp: same_work_def control_ok_def)
    qed (use assms in simp)
  qed
  show "main s = M_install \<Longrightarrow> server_inv (s\<lparr>main := M_abort\<rparr>)"
    using ctl by (intro keep) (auto simp: same_work_def control_ok_def)
  show "main s = M_transport \<Longrightarrow> server_inv (start_transport ok s)"
    using ctl by (intro keep) (auto simp: same_work_def control_ok_def start_transport_def)
  show "main s = M_finish \<Longrightarrow> server_inv (start_finish s)"
    using ctl by (intro keep) (auto simp: same_work_def control_ok_def start_finish_def)
  show "main s = M_abort \<Longrightarrow> server_inv (s\<lparr>main := M_none\<rparr>)"
    using ctl by (intro keep) (auto simp: same_work_def control_ok_def)
  show "server_inv (wait_done s)"
    using ctl by (intro keep) (auto simp: same_work_def control_ok_def wait_done_def)
  show "server_inv (s\<lparr>transport_up := False\<rparr>)"
    using ctl by (intro keep) (auto simp: same_work_def control_ok_def)
qed

lemma register_steps_inv:
  assumes "server_inv s"
  shows "server_register_tool l d h s = (r, s') \<Longrightarrow> server_inv s'"
    and "server_register_resource d' h' s = (r, s') \<Longrightarrow> server_inv s'"
    and "server_register_prompt d'' h'' s = (r, s') \<Longrightarrow> server_inv s'"
proof -
  have keep: "server_inv (s\<lparr>registries := regs\<rparr>)" for regs
    using assms by (intro server_inv_same_work [OF assms]) (simp_all add: same_work_def control_ok_def server_inv_def)
  show "server_register_tool l d h s = (r, s') \<Longrightarrow> server_inv s'"
    "server_register_resource d' h' s = (r, s') \<Longrightarrow> server_inv s'"
    "server_register_prompt d'' h'' s = (r, s') \<Longrightarrow> server_inv s'"
    using keep by (auto simp: server_register_tool_def server_register_resource_def server_register_prompt_def
        split: prod.splits)
qed

lemma reader_stop_inv:
  assumes inv: "server_inv s" and rd: "reader s = R_stop k"
  shows "server_inv (s\<lparr>reader := (case k of None \<Rightarrow> R_idle | Some k \<Rightarrow> R_return k)\<rparr>)"
proof (rule server_inv_same_ops [OF inv])
  show "exec s = None \<longrightarrow> reader (s\<lparr>reader := (case k of None \<Rightarrow> R_idle | Some k \<Rightarrow> R_return k)\<rparr>) = R_idle"
    using inv rd by (auto simp: server_inv_def exec_ok_def)
qed (use inv rd in \<open>auto simp: same_ops_def reader_holds_def reader_ok_def server_inv_def control_ok_def split: option.split\<close>)

lemma reader_change_inv:
  assumes inv: "server_inv s" and hold: "reader_holds pc = reader_holds (reader s)"
    and ex: "exec s \<noteq> None" and ok: "reader_ok (s\<lparr>reader := pc\<rparr>)"
  shows "server_inv (s\<lparr>link_state := t, reader := pc\<rparr>)"
proof (rule server_inv_same_ops [OF inv])
  show "reader_ok (s\<lparr>link_state := t, reader := pc\<rparr>)"
    using ok by (auto simp: reader_ok_def split: reader_pc.splits)
  show "control_ok (s\<lparr>link_state := t, reader := pc\<rparr>)"
    using inv by (simp add: server_inv_def control_ok_def)
qed (use hold ex in \<open>auto simp: same_ops_def\<close>)

lemma reader_reject_cases:
  "receive_reject l req k s = (w, s') \<Longrightarrow>
     \<exists>t pc. s' = s\<lparr>link_state := t, reader := pc\<rparr> \<and> (pc = R_return k \<or> pc = R_stop (Some k))"
proof -
  assume r: "receive_reject l req k s = (w, s')"
  show ?thesis
  proof (cases "\<not> op_cancelled (ops s ! k) \<and> serving s")
    case True
    then obtain ok t where "s' = s\<lparr>link_state := t, reader := (if ok then R_return k else R_stop (Some k))\<rparr>"
      using r unfolding receive_reject_def by (auto split: prod.splits)
    then show ?thesis by (cases ok) (simp_all, blast+)
  next
    case False
    then have "s' = s\<lparr>link_state := link_state s, reader := R_return k\<rparr>"
      using r unfolding receive_reject_def by auto
    then show ?thesis by blast
  qed
qed

lemma reader_reject_inv:
  assumes inv: "server_inv s" and rd: "reader s = R_reject req k" and r: "receive_reject l req k s = (w, s')"
  shows "server_inv s'"
proof -
  obtain t pc where s': "s' = s\<lparr>link_state := t, reader := pc\<rparr>" "pc = R_return k \<or> pc = R_stop (Some k)"
    using reader_reject_cases [OF r] by blast
  moreover have "exec s \<noteq> None" using inv rd by (cases "exec s") (simp_all add: server_inv_def exec_ok_def)
  ultimately show ?thesis
    using rd by (auto intro!: reader_change_inv [OF inv] simp: reader_holds_def reader_ok_def)
qed

lemma add_ref_frame [simp]:
  "inflight (add_ref k s) = inflight s" "exec (add_ref k s) = exec s" "reader (add_ref k s) = reader s"
  "worker (add_ref k s) = worker s" "length (ops (add_ref k s)) = length (ops s)"
  "op_id (ops (add_ref k s) ! j) = op_id (ops s ! j)"
  "state (add_ref k s) = state s" "main (add_ref k s) = main s" "transport_up (add_ref k s) = transport_up s"
  by (simp_all add: add_ref_def update_op_def nth_update_field [of op_id "\<lambda>p. p\<lparr>op_refs := Suc (op_refs p)\<rparr>"])

lemma reader_enqueue_inv:
  assumes inv: "server_inv s" and rd: "reader s = R_enqueue req k"
  shows "server_inv (receive_enqueue req k s)"
proof -
  obtain e where e: "exec s = Some e"
    using inv rd by (auto simp: server_inv_def exec_ok_def split: option.splits)
  obtain r e' where q: "enqueue (req_id req) (Some \<lparr>inv_request = req, inv_op = k\<rparr>) e = (r, e')" by force
  show ?thesis
  proof (cases r)
    case (Inl err)
    then have "e' = e" using enqueue_cases [OF q] by auto
    then have "receive_enqueue req k s = s\<lparr>reader := R_reject req k\<rparr>"
      using e q Inl by (simp add: receive_enqueue_def)
    moreover have "server_inv (s\<lparr>reader := R_reject req k\<rparr>)"
      by (rule server_inv_same_ops [OF inv])
        (use inv rd e in \<open>auto simp: same_ops_def reader_holds_def reader_ok_def server_inv_def control_ok_def\<close>)
    ultimately show ?thesis by simp
  next
    case (Inr u)
    note wk = enqueue_works [OF q [unfolded Inr]]
    let ?t = "(add_ref k s)\<lparr>exec := Some e', reader := R_return k\<rparr>"
    have t: "receive_enqueue req k s = ?t" using e q Inr by (simp add: receive_enqueue_def)
    have works: "set (exec_works ?t) = insert \<lparr>work_id = req_id req, work_stop = False,
        work_call = \<lparr>inv_request = req, inv_op = k\<rparr>\<rparr> (set (exec_works s))"
      using wk e by (auto simp: exec_works_def phase_works_def)
    have hold: "holders ?t = add_mset k (holders s)"
      using wk e rd by (simp add: holders_def exec_works_def phase_works_def reader_holds_def work_op_def)
    have "k \<in># holders s" using rd by (simp add: holders_def reader_holds_def)
    then have "refs_ok (holders ?t) (add_ref k s)"
      using refs_ok_add inv unfolding hold by (auto simp: server_inv_def)
    then have "refs_ok (holders ?t) ?t" by (simp add: refs_ok_def)
    moreover have "exec_ok ?t"
      using inv_exec [OF inv e] enqueue_inv [OF _ q] wk by (simp add: exec_ok_def)
    moreover have "works_ok ?t"
      using inv rd works by (auto simp: server_inv_def works_ok_def reader_ok_def work_op_def)
    moreover have "ids_ok ?t" using inv by (simp add: server_inv_def ids_ok_def)
    moreover have "reader_ok ?t" "control_ok ?t"
      using inv e by (auto simp: reader_ok_def server_inv_def control_ok_def)
    ultimately show ?thesis unfolding t server_inv_def by blast
  qed
qed

text \<open>The worker's steps.\<close>

lemma worker_exec_inv:
  assumes inv: "server_inv s" and e: "exec s = Some e"
    and wk: "mset (pending e' @ phase_works e') = mset (pending e @ phase_works e)"
    and ok: "exec_inv e'" "pc \<noteq> W_none \<longleftrightarrow> (\<exists>w. phase e' = Calling w)"
  shows "server_inv (s\<lparr>exec := Some e', worker := pc\<rparr>)" (is "server_inv ?t")
proof -
  have "mset (exec_works ?t) = mset (exec_works s)" using wk e by (simp add: exec_works_def)
  then have works: "set (exec_works ?t) = set (exec_works s)" and hold: "holders ?t = holders s"
    by (auto simp: holders_def dest: mset_eq_setD)
  have "refs_ok (holders ?t) ?t" using inv unfolding hold by (simp add: server_inv_def refs_ok_def)
  moreover have "works_ok ?t" using inv by (simp add: server_inv_def works_ok_def works)
  moreover have "ids_ok ?t" "reader_ok ?t" "exec_ok ?t" "control_ok ?t"
    using inv e ok by (auto simp: server_inv_def ids_ok_def reader_ok_def exec_ok_def control_ok_def split: reader_pc.splits)
  ultimately show ?thesis by (simp add: server_inv_def)
qed

lemma worker_local_inv:
  assumes inv: "server_inv s" and "worker s \<noteq> W_none" "worker s' \<noteq> W_none"
    and "ops s' = ops s" "inflight s' = inflight s" "exec s' = exec s" "reader s' = reader s"
    "state s' = state s" "main s' = main s" "transport_up s' = transport_up s"
  shows "server_inv s'"
proof -
  have w: "exec_works s' = exec_works s" using assms by (simp add: exec_works_def)
  then have h: "holders s' = holders s" using assms by (simp add: holders_def)
  have "refs_ok (holders s') s'" using assms unfolding h by (simp add: server_inv_def refs_ok_def)
  then show ?thesis
    using assms unfolding server_inv_def works_ok_def w
    by (auto simp: ids_ok_def reader_ok_def exec_ok_def control_ok_def split: reader_pc.splits option.splits)
qed

lemma invoke_frame:
  "worker (invoke_check cw s) \<noteq> W_none" "worker (invoke_apply l cw s) \<noteq> W_none"
  "invoke_reply l cw reply s = (w, s') \<Longrightarrow> worker s' \<noteq> W_none"
  by (auto simp: invoke_check_def invoke_apply_def invoke_reply_def split: prod.splits if_splits)

lemma worker_invoke_inv:
  assumes "server_inv s" "worker s \<noteq> W_none"
  shows "server_inv (invoke_check cw s)" "server_inv (invoke_apply l cw s)"
    "invoke_reply l cw reply s = (w, s') \<Longrightarrow> server_inv s'" "server_inv (s\<lparr>worker := W_done\<rparr>)"
  by (rule worker_local_inv [OF assms];
      auto simp: invoke_check_def invoke_apply_def invoke_reply_def split: prod.splits if_splits)+

lemma worker_steps_inv:
  assumes inv: "server_inv s" and e: "exec s = Some e"
  shows "worker_wake e = Some e' \<Longrightarrow>
      server_inv (s\<lparr>exec := Some e', worker := (case phase e' of Calling _ \<Rightarrow> W_check | _ \<Rightarrow> W_none)\<rparr>)"
    and "worker_returned e = Some e' \<Longrightarrow> server_inv (s\<lparr>exec := Some e', worker := W_none\<rparr>)"
    and "worker_finish e = Some e' \<Longrightarrow> server_inv (s\<lparr>exec := Some e'\<rparr>)"
proof -
  note ie = inv_exec [OF inv e]
  show "server_inv (s\<lparr>exec := Some e', worker := (case phase e' of Calling _ \<Rightarrow> W_check | _ \<Rightarrow> W_none)\<rparr>)"
    if "worker_wake e = Some e'"
    using that wake_works(2) [OF that] worker_inv(1) [OF _ that] ie
    by (intro worker_exec_inv [OF inv e]) (auto split: worker_phase.splits)
  show "server_inv (s\<lparr>exec := Some e', worker := W_none\<rparr>)" if "worker_returned e = Some e'"
    using that returned_works [OF that] worker_inv(2) [OF _ that] ie
    by (intro worker_exec_inv [OF inv e]) (auto simp: worker_returned_def split: worker_phase.splits)
  show "server_inv (s\<lparr>exec := Some e'\<rparr>)" if "worker_finish e = Some e'"
  proof -
    have "phase e' = phase e" using that by (auto simp: worker_finish_def split: if_splits)
    then have "server_inv (s\<lparr>exec := Some e', worker := worker s\<rparr>)"
      using finish_works [OF that] worker_inv(4) [OF _ that] ie
      by (intro worker_exec_inv [OF inv e]) auto
    then show ?thesis by simp
  qed
qed

text \<open>The reader's first region.\<close>

lemma decode_request_id: "decode_message j = Inr (In_request r) \<Longrightarrow> req_id r \<noteq> Id_null"
proof -
  assume d: "decode_message j = Inr (In_request r)"
  then have w: "wire_request j" and r: "r = projr (request_from_json j)"
    by (auto simp: decode_cases split: if_splits)
  then obtain v where v: "json_at j ''id'' = Inr v" "is_request_id v"
    by (auto simp: wire_request_def dest: member_satD)
  have "member_sat is_string j ''jsonrpc''" "member_sat is_string j ''method''" "json_contains j ''id''"
    using w v by (auto simp: wire_request_def wire_call_def wire_base_string json_contains_iff)
  then obtain q where q: "request_from_json j = Inr q" using request_decodes by blast
  then have "req_id q = read_json_rpc_id v" using v by (auto simp: request_from_json_def rbind_Inr_iff)
  then show ?thesis using v q r by (simp add: is_request_id_iff)
qed

lemma emit_control_inv:
  assumes inv: "server_inv s" and rd: "reader s = R_idle" and ex: "exec s \<noteq> None"
    and r: "emit_control l reply m s = (w, s')"
  shows "server_inv s'"
proof -
  obtain t pc where "s' = s\<lparr>link_state := t, reader := pc\<rparr>" "pc = R_idle \<or> pc = R_stop None"
    using r unfolding emit_control_def by (cases "emit l reply m (link_state s)") (auto split: if_splits)
  then show ?thesis
    using rd ex by (auto intro!: reader_change_inv [OF inv] simp: reader_holds_def reader_ok_def)
qed

lemma initialize_inv:
  assumes "server_inv s" "initialize req s = (r, s')"
  shows "server_inv s' \<and> reader s' = reader s \<and> exec s' = exec s"
proof -
  have "server_inv (s\<lparr>protocol := c\<rparr>)" for c
    using assms(1) by (intro server_inv_same_work [OF assms(1)]) (simp_all add: same_work_def control_ok_def server_inv_def)
  then show ?thesis using assms by (auto simp: initialize_def split: if_splits)
qed

lemma new_op_inv:
  assumes inv: "server_inv s" and rd: "reader s = R_idle" and ex: "exec s \<noteq> None"
    and fresh: "\<not> in_flight (req_id req) s" and id: "req_id req \<noteq> Id_null"
  shows "server_inv (s\<lparr>ops := ops s @ [\<lparr>op_id = req_id req, op_cancelled = False, op_refs = 1\<rparr>],
    inflight := inflight s @ [length (ops s)], reader := R_enqueue req (length (ops s))\<rparr>)" (is "server_inv ?t")
proof -
  let ?n = "length (ops s)"
  have refs: "refs_ok (holders s) s" using inv by (simp add: server_inv_def)
  have works: "exec_works ?t = exec_works s" by (rule exec_works_cong) simp
  have hold: "holders ?t = add_mset ?n (holders s)"
    unfolding holders_def works using rd by (simp add: reader_holds_def)
  have sub: "k < ?n" if "k \<in># holders s" for k using refs that by (auto simp: refs_ok_def)
  have infl: "k < ?n" if "k \<in> set (inflight s)" for k using refs that by (auto simp: refs_ok_def)
  have "?n \<notin># holders s" using sub by blast
  then have "refs_ok (holders ?t) ?t"
    using refs sub unfolding hold
    by (auto simp: refs_ok_def nth_append count_eq_zero_iff less_Suc_eq)
  moreover have "ids_ok ?t"
  proof -
    have other: "id_key (op_id (ops s ! k)) \<noteq> id_key (req_id req)" if "k \<in> set (inflight s)" for k
      using fresh that id inv unfolding server_inv_def ids_ok_def
      by (auto simp: in_flight_def inflight_ids_def list_ex_iff same_request_id_key id_key_None)
    show ?thesis
      using inv infl other other [symmetric] id
      unfolding server_inv_def ids_ok_def by (auto simp: nth_append)
  qed
  moreover have "works_ok ?t"
  proof -
    have "work_op w < ?n" if "w \<in> set (exec_works s)" for w using sub holders_works that by blast
    then show ?thesis using inv unfolding server_inv_def works_ok_def works by (auto simp: nth_append)
  qed
  moreover have "reader_ok ?t" "exec_ok ?t" "control_ok ?t"
    using inv ex rd by (auto simp: reader_ok_def server_inv_def exec_ok_def control_ok_def)
  ultimately show ?thesis by (simp add: server_inv_def)
qed

lemma notify_inv:
  assumes inv: "server_inv s" and rd: "reader s = R_idle" and ex: "exec s \<noteq> None"
  shows "server_inv (notify n s)"
proof -
  have ready: "server_inv (s\<lparr>protocol := c\<rparr>)" for c
    using inv by (intro server_inv_same_work [OF inv]) (simp_all add: same_work_def control_ok_def server_inv_def)
  have cancel: "server_inv ((update_op (\<lambda>p. p\<lparr>op_cancelled := True\<rparr>) k s)\<lparr>reader := R_cancel i\<rparr>)" for k i
  proof (rule server_inv_same_ops [OF inv])
    show "same_ops s ((update_op (\<lambda>p. p\<lparr>op_cancelled := True\<rparr>) k s)\<lparr>reader := R_cancel i\<rparr>)"
      using nth_update_field [of op_id "\<lambda>p. p\<lparr>op_cancelled := True\<rparr>" "ops s" k]
        nth_update_field [of op_refs "\<lambda>p. p\<lparr>op_cancelled := True\<rparr>" "ops s" k]
      by (simp add: same_ops_def update_op_def)
    show "control_ok ((update_op (\<lambda>p. p\<lparr>op_cancelled := True\<rparr>) k s)\<lparr>reader := R_cancel i\<rparr>)"
      using inv by (simp add: server_inv_def control_ok_def update_op_def)
  qed (use rd ex in \<open>auto simp: update_op_def reader_holds_def reader_ok_def\<close>)
  show ?thesis using inv ready cancel by (simp add: notify_def split: option.split)
qed

lemma receive_request_inv:
  assumes inv: "server_inv s" and rd: "reader s = R_idle" and ex: "exec s \<noteq> None" and id: "req_id req \<noteq> Id_null"
    and r: "receive_request l req s = (w, s')"
  shows "server_inv s'"
proof -
  note u = r [unfolded receive_request_def]
  consider (skip) "\<not> serving s \<or> protocol s = closing"
    | (dup) "serving s \<and> protocol s \<noteq> closing" "in_flight (req_id req) s"
    | (ping) "serving s \<and> protocol s \<noteq> closing" "\<not> in_flight (req_id req) s" "req_method req = ''ping''"
    | (init) "serving s \<and> protocol s \<noteq> closing" "\<not> in_flight (req_id req) s" "req_method req \<noteq> ''ping''"
        "req_method req = ''initialize''"
    | (early) "serving s \<and> protocol s \<noteq> closing" "\<not> in_flight (req_id req) s" "req_method req \<noteq> ''ping''"
        "req_method req \<noteq> ''initialize''" "protocol s \<noteq> ready"
    | (admit) "serving s \<and> protocol s \<noteq> closing" "\<not> in_flight (req_id req) s" "req_method req \<noteq> ''ping''"
        "req_method req \<noteq> ''initialize''" "protocol s = ready"
    by blast
  then show ?thesis
  proof cases
    case skip
    then show ?thesis using u inv by auto
  next
    case dup
    then obtain t where s': "s' = s\<lparr>link_state := t, protocol := closing, reader := R_stop None\<rparr>"
      using u by (auto split: prod.splits)
    have "server_inv (s\<lparr>link_state := t, reader := R_stop None\<rparr>)" (is "server_inv ?u")
      using rd ex by (intro reader_change_inv [OF inv]) (auto simp: reader_holds_def reader_ok_def)
    then have "server_inv (s\<lparr>link_state := t, protocol := closing, reader := R_stop None\<rparr>)"
      by (rule server_inv_same_work)
        (use inv in \<open>simp_all add: same_work_def control_ok_def server_inv_def\<close>)
    then show ?thesis using s' by simp
  next
    case ping
    then show ?thesis using u emit_control_inv [OF inv rd ex] by simp
  next
    case init
    obtain reply v where i: "initialize req s = (reply, v)" by force
    then have "emit_control l reply (req_method req) v = (w, s')" using init u by simp
    then show ?thesis using initialize_inv [OF inv i] rd ex emit_control_inv by metis
  next
    case early
    then show ?thesis using u emit_control_inv [OF inv rd ex] by simp
  next
    case admit
    then have "s' = s\<lparr>ops := ops s @ [\<lparr>op_id = req_id req, op_cancelled = False, op_refs = 1\<rparr>],
               inflight := inflight s @ [length (ops s)], reader := R_enqueue req (length (ops s))\<rparr>"
      using u by simp
    then show ?thesis using new_op_inv [OF inv rd ex admit(2) id] by simp
  qed
qed

lemma receive_inv:
  assumes inv: "server_inv s" and rd: "reader s = R_idle" and ex: "exec s \<noteq> None"
    and r: "receive l wire s = (w, s')"
  shows "server_inv s'"
  using r inv emit_control_inv [OF inv rd ex] notify_inv [OF inv rd ex]
    receive_request_inv [OF inv rd ex decode_request_id]
  unfolding receive_def by (auto split: sum.splits incoming_message.splits if_splits)

lemma server_step_inv:
  assumes step: "server_step l s ev s'" and inv: "server_inv s"
  shows "server_inv s'"
  using step
proof cases
  case (message wire w)
  have "exec s \<noteq> None" using inv message by (auto simp: server_inv_def control_ok_def)
  then show ?thesis using receive_inv [OF inv] message by blast
next
  case worker_check
  then show ?thesis using worker_invoke_inv [OF inv] by simp
next
  case worker_apply
  then show ?thesis using worker_invoke_inv [OF inv] by simp
next
  case (worker_reply reply cw w)
  then show ?thesis using worker_invoke_inv(3) [OF inv] by simp
next
  case worker_stop
  then show ?thesis using worker_invoke_inv(4) [OF inv] stop_locked_inv by simp
next
  case abort
  then show ?thesis using start_steps_inv(6) [OF inv] stop_locked_inv by simp
next
  case (reader_stop k)
  then show ?thesis using reader_stop_inv [OF inv] stop_locked_inv by simp
next
  case (worker_take e e')
  then show ?thesis using worker_steps_inv(1) [OF inv] by simp
next
  case (worker_return e e')
  then show ?thesis using worker_steps_inv(2) [OF inv] by simp
next
  case (worker_exit e e')
  then show ?thesis using worker_steps_inv(3) [OF inv] by simp
next
  case (worker_free e cw e')
  then show ?thesis using worker_free_inv [OF inv] by simp
qed (use inv start_steps_inv [OF inv] register_steps_inv [OF inv] reader_cancel_inv [OF inv] stop_rest_inv [OF inv]
       reader_return_inv [OF inv] reader_enqueue_inv [OF inv] reader_reject_inv [OF inv] stop_locked_inv [OF inv]
     in \<open>(simp; fail | blast)+\<close>)

lemma server_step_inv_ex: "\<exists>ev. server_step l s ev s' \<Longrightarrow> server_inv s \<Longrightarrow> server_inv s'"
  by (elim exE) (rule server_step_inv)

interpretation server: invariant_system "\<lambda>s s'. \<exists>ev. server_step l s ev s'" server_inv for l
proof
  fix s s' :: "('a, 'b) server"
  assume "\<exists>ev. server_step l s ev s'" "server_inv s"
  then show "server_inv s'" by (rule server_step_inv_ex)
qed

lemma server_run_star: "server_run l s evs s' \<Longrightarrow> (\<lambda>s s'. \<exists>ev. server_step l s ev s')\<^sup>*\<^sup>* s s'"
proof (induction rule: server_run.induct)
  case (run_step s evs s' ev s'')
  have "\<exists>ev. server_step l s' ev s''" using run_step.hyps(2) ..
  with run_step.IH show ?case by (rule rtranclp.rtrancl_into_rtrancl)
qed (rule rtranclp.rtrancl_refl)

lemma server_run_inv: "server_run l (new_server n v opts a t) evs s \<Longrightarrow> server_inv s"
  by (rule server.run_inv [OF server_run_star server_inv_new])

end
