(* ===== verification/Server_Safety.thy ===== *)
theory Server_Safety
  imports Server_Inv
begin

text \<open>
  Safety of the server's runs: an admitted request is answered at most once, nothing is sent
  outside the serving states or after cancellation, registrations freeze, and the handshake
  precedes every dispatch.
\<close>

subsection \<open>Each request is answered at most once\<close>

definition reader_slot :: "reader_pc \<Rightarrow> nat multiset" where
  "reader_slot pc = (case pc of R_enqueue _ k \<Rightarrow> {#k#} | R_reject _ k \<Rightarrow> {#k#} | _ \<Rightarrow> {#})"

definition unanswered :: "worker_pc \<Rightarrow> bool" where
  "unanswered pc = (case pc of W_check \<Rightarrow> True | W_apply \<Rightarrow> True | W_reply _ \<Rightarrow> True | _ \<Rightarrow> False)"

definition worker_slot :: "worker_pc \<Rightarrow> invocation executor \<Rightarrow> nat multiset" where
  "worker_slot pc e = (case phase e of Calling w \<Rightarrow> if unanswered pc then {#work_op w#} else {#} | _ \<Rightarrow> {#})"

definition exec_slots :: "worker_pc \<Rightarrow> invocation executor option \<Rightarrow> nat multiset" where
  "exec_slots pc ex = (case ex of None \<Rightarrow> {#} | Some e \<Rightarrow> mset (map work_op (pending e)) + worker_slot pc e)"

text \<open>The operations that can still be answered.\<close>

definition reply_slots :: "('a, 't) server \<Rightarrow> nat multiset" where
  "reply_slots s = reader_slot (reader s) + exec_slots (worker s) (exec s)"

definition answers :: "srv_event \<Rightarrow> nat multiset" where
  "answers ev = (case ev of Replied k _ \<Rightarrow> {#k#} | _ \<Rightarrow> {#})"

definition fresh_op :: "('a, 't) server \<Rightarrow> ('a, 't) server \<Rightarrow> nat multiset" where
  "fresh_op s s' = (if length (ops s) < length (ops s') then {#length (ops s)#} else {#})"

definition slots_move :: "('a, 't) server \<Rightarrow> srv_event \<Rightarrow> ('a, 't) server \<Rightarrow> bool" where
  "slots_move s ev s' \<longleftrightarrow>
     reply_slots s' + answers ev \<subseteq># reply_slots s + fresh_op s s' \<and>
     (length (ops s') = length (ops s) \<or> length (ops s') = Suc (length (ops s)))"

lemma answers_simps [simp]: "answers Silent = {#}" "answers (Control j) = {#}" "answers (Replied k w) = {#k#}"
  "answers (control w) = {#}"
  by (simp_all add: answers_def control_def split: option.split)

lemma slots_keep:
  "reader s' = reader s \<Longrightarrow> exec s' = exec s \<Longrightarrow> worker s' = worker s \<Longrightarrow> length (ops s') = length (ops s) \<Longrightarrow>
   answers ev = {#} \<Longrightarrow> slots_move s ev s'"
  by (simp add: slots_move_def reply_slots_def fresh_op_def)

lemma slots_reader:
  "exec s' = exec s \<Longrightarrow> worker s' = worker s \<Longrightarrow> length (ops s') = length (ops s) \<Longrightarrow>
   reader_slot (reader s') + answers ev \<subseteq># reader_slot (reader s) \<Longrightarrow> slots_move s ev s'"
  by (simp add: slots_move_def reply_slots_def fresh_op_def add.commute add.left_commute)

lemma slots_exec:
  "reader_slot (reader s') = reader_slot (reader s) \<Longrightarrow> length (ops s') = length (ops s) \<Longrightarrow>
   exec_slots (worker s') (exec s') + answers ev \<subseteq># exec_slots (worker s) (exec s) \<Longrightarrow> slots_move s ev s'"
  by (simp add: slots_move_def reply_slots_def fresh_op_def add.assoc)

lemma stop_locked_frame [simp]:
  "reader (stop_locked s) = reader s" "exec (stop_locked s) = exec s" "worker (stop_locked s) = worker s"
  "length (ops (stop_locked s)) = length (ops s)" "registries (stop_locked s) = registries s"
  "link_state (stop_locked s) = link_state s" "options (stop_locked s) = options s"
  by (simp_all add: stop_locked_def)

lemma emit_control_frame2:
  "emit_control l r m s = (w, s') \<Longrightarrow>
     exec s' = exec s \<and> worker s' = worker s \<and> ops s' = ops s \<and> (reader s' = R_idle \<or> reader s' = R_stop None)"
  by (cases "fst (emit l r m (link_state s))") (auto simp: emit_control_def split: prod.splits)

lemma initialize_frame2:
  "initialize req s = (r, s') \<Longrightarrow> exec s' = exec s \<and> worker s' = worker s \<and> ops s' = ops s \<and> reader s' = reader s"
  by (auto simp: initialize_def split: if_splits)

lemma receive_request_slots:
  assumes rd: "reader s = R_idle" and r: "receive_request l req s = (w, s')"
  shows "slots_move s (control w) s'"
proof -
  note u = r [unfolded receive_request_def]
  consider (quiet) "\<not> serving s \<or> protocol s = closing"
    | (dup) "in_flight (req_id req) s" "\<not> (\<not> serving s \<or> protocol s = closing)"
    | (pong) "req_method req = ''ping''" "\<not> in_flight (req_id req) s" "\<not> (\<not> serving s \<or> protocol s = closing)"
    | (init) "req_method req = ''initialize''" "\<not> in_flight (req_id req) s" "\<not> (\<not> serving s \<or> protocol s = closing)"
    | (early) "protocol s \<noteq> ready" "req_method req \<noteq> ''ping''" "req_method req \<noteq> ''initialize''"
        "\<not> in_flight (req_id req) s" "\<not> (\<not> serving s \<or> protocol s = closing)"
    | (admit) "protocol s = ready" "req_method req \<noteq> ''ping''" "req_method req \<noteq> ''initialize''"
        "\<not> in_flight (req_id req) s" "\<not> (\<not> serving s \<or> protocol s = closing)"
    by blast
  then have "(s' = s \<and> w = None) \<or>
      (exec s' = exec s \<and> worker s' = worker s \<and> ops s' = ops s \<and> (reader s' = R_idle \<or> reader s' = R_stop None)) \<or>
      (exec s' = exec s \<and> worker s' = worker s \<and> reader s' = R_enqueue req (length (ops s)) \<and>
        length (ops s') = Suc (length (ops s)))"
  proof cases
    case quiet
    then show ?thesis using u by (simp split: if_splits)
  next
    case dup
    then show ?thesis using u by (auto split: prod.splits)
  next
    case pong
    then have "emit_control l (reply_result (req_id req) (JObj [])) (req_method req) s = (w, s')"
      using u by (simp split: if_splits)
    then show ?thesis using emit_control_frame2 by blast
  next
    case init
    obtain q t where i: "initialize req s = (q, t)" by force
    then have "emit_control l q (req_method req) t = (w, s')" using init u by (simp split: if_splits)
    then show ?thesis using emit_control_frame2 initialize_frame2 [OF i] by metis
  next
    case early
    then have "emit_control l (failure_code (req_id req) invalid_request ''Server is not initialized'') [] s = (w, s')"
      using u by (simp split: if_splits)
    then show ?thesis using emit_control_frame2 by blast
  next
    case admit
    then show ?thesis using u by auto
  qed
  then consider (same) "s' = s"
    | (reader) "exec s' = exec s" "worker s' = worker s" "ops s' = ops s" "reader s' = R_idle \<or> reader s' = R_stop None"
    | (admit) "exec s' = exec s" "worker s' = worker s" "reader s' = R_enqueue req (length (ops s))"
        "length (ops s') = Suc (length (ops s))"
    by blast
  then show ?thesis
  proof cases
    case reader
    then show ?thesis using rd by (intro slots_reader) (auto simp: reader_slot_def)
  next
    case admit
    then show ?thesis
      using rd by (simp add: slots_move_def reply_slots_def fresh_op_def reader_slot_def)
  qed (simp add: slots_keep)
qed

lemma notify_slots: "reader s = R_idle \<Longrightarrow> slots_move s (control None) (notify n s)"
  by (rule slots_reader) (auto simp: notify_def update_op_def reader_slot_def split: option.split)

lemma receive_slots:
  assumes "reader s = R_idle" "receive l wire s = (w, s')"
  shows "slots_move s (control w) s'"
proof -
  have emit: "slots_move s (control w) s'" if "emit_control l reply m s = (w, s')" for reply m
    using emit_control_frame2 [OF that] assms(1) by (intro slots_reader) (auto simp: reader_slot_def)
  have same: "slots_move s (control None) s" by (rule slots_keep) simp_all
  show ?thesis
    using assms(2) emit same notify_slots [OF assms(1)] receive_request_slots [OF assms(1)]
    unfolding receive_def by (auto split: sum.splits incoming_message.splits if_splits)
qed

lemma discard_slots:
  fixes ws :: "invocation work list"
  assumes c: "mset (map work_call (pending e @ phase_works e)) =
       mset (map work_call (pending e' @ phase_works e')) + mset (map work_call ws)"
    and sig: "map work_call (phase_works e') = map work_call (phase_works e)"
      "(\<exists>w. phase e' = Calling w) \<longleftrightarrow> (\<exists>w. phase e = Calling w)"
  shows "exec_slots pc (Some e') \<subseteq># exec_slots pc (Some e)"
proof -
  have p: "mset (map work_call (pending e)) = mset (map work_call (pending e')) + mset (map work_call ws)"
  proof -
    have "mset (map work_call (phase_works e')) = mset (map work_call (phase_works e))" by (simp only: sig(1))
    then show ?thesis using c by simp
  qed
  have "mset (map work_op (pending e')) \<subseteq># mset (map work_op (pending e))"
    using work_ops_of_calls [OF p] by simp
  moreover have "worker_slot pc e' = worker_slot pc e"
    using sig by (cases "phase e"; cases "phase e'") (auto simp: worker_slot_def phase_works_def work_op_def)
  ultimately show ?thesis by (simp add: exec_slots_def)
qed

lemma stop_active_calls: "map work_call (phase_works (stop_active e)) = map work_call (phase_works e)"
  by (rule stop_active_works(1))

lemma cancel_slots:
  assumes "cancel i e = (ws, e')"
  shows "exec_slots pc (Some e') \<subseteq># exec_slots pc (Some e)"
proof (rule discard_slots [OF cancel_works [OF assms]])
  show "map work_call (phase_works e') = map work_call (phase_works e)"
    "(\<exists>w. phase e' = Calling w) \<longleftrightarrow> (\<exists>w. phase e = Calling w)"
    using assms calling_stop_active [of e] stop_active_calls [of e]
    by (auto simp: cancel_def split: if_splits prod.splits)
qed

lemma stop_slots:
  assumes "stop_executor e = (ws, e')"
  shows "exec_slots pc (Some e') \<subseteq># exec_slots pc (Some e)"
proof (rule discard_slots [OF stop_works [OF assms]])
  show "map work_call (phase_works e') = map work_call (phase_works e)"
    "(\<exists>w. phase e' = Calling w) \<longleftrightarrow> (\<exists>w. phase e = Calling w)"
    using assms calling_stop_active [of "e\<lparr>stopping := True, pending := []\<rparr>"]
      stop_active_calls [of "e\<lparr>stopping := True, pending := []\<rparr>"]
    by (auto simp: stop_executor_def)
qed

lemma enqueue_slots:
  assumes "enqueue i (Some c) e = (Inr u, e')"
  shows "exec_slots pc (Some e') = add_mset (inv_op c) (exec_slots pc (Some e))"
  using enqueue_works [OF assms] by (simp add: exec_slots_def worker_slot_def work_op_def)

lemma wake_slots:
  "worker_wake e = Some e' \<Longrightarrow>
   exec_slots (case phase e' of Calling _ \<Rightarrow> W_check | _ \<Rightarrow> W_none) (Some e') = mset (map work_op (pending e))"
  by (auto simp: worker_wake_def exec_slots_def worker_slot_def unanswered_def split: if_splits list.splits)

lemma no_call_slots: "\<not> unanswered pc \<Longrightarrow> exec_slots pc (Some e) = mset (map work_op (pending e))"
  by (simp add: exec_slots_def worker_slot_def split: worker_phase.split)

lemma current_work_slot:
  "current_work s = Some cw \<Longrightarrow> \<exists>e. exec s = Some e \<and> phase e = Calling cw"
  by (auto simp: current_work_def split: option.splits worker_phase.splits)

lemma server_step_slots:
  assumes step: "server_step l s ev s'" and inv: "server_inv s"
  shows "slots_move s ev s'"
  using step
proof cases
  case (message wire w)
  then show ?thesis using receive_slots by simp
next
  case (reader_stop k)
  then show ?thesis by (intro slots_reader) (auto simp: reader_slot_def split: option.split)
next
  case (reader_cancel i)
  obtain e where e: "exec s = Some e"
    using inv reader_cancel by (cases "exec s") (auto simp: server_inv_def exec_ok_def)
  obtain ws e' where c: "cancel i e = (ws, e')" by force
  show ?thesis
    using reader_cancel e c cancel_slots [OF c]
    by (intro slots_exec) (simp_all add: receive_cancel_def reader_slot_def)
next
  case stop_rest
  show ?thesis
  proof (cases "exec s")
    case None
    then show ?thesis using stop_rest by (intro slots_keep) (simp_all add: stop_unlocked_def)
  next
    case (Some e)
    obtain ws e' where c: "stop_executor e = (ws, e')" by force
    show ?thesis
      using stop_rest Some c stop_slots [OF c] by (intro slots_exec) (simp_all add: stop_unlocked_def)
  qed
next
  case (reader_enqueue req k)
  obtain e where e: "exec s = Some e"
    using inv reader_enqueue by (cases "exec s") (auto simp: server_inv_def exec_ok_def)
  obtain r e' where q: "enqueue (req_id req) (Some \<lparr>inv_request = req, inv_op = k\<rparr>) e = (r, e')" by force
  show ?thesis
  proof (cases r)
    case (Inl err)
    then have "e' = e" using enqueue_cases [OF q] by auto
    then show ?thesis
      using reader_enqueue e q Inl
      by (intro slots_reader) (simp_all add: receive_enqueue_def reader_slot_def)
  next
    case (Inr u)
    then show ?thesis
      using reader_enqueue e q enqueue_slots [OF q [unfolded Inr], of "worker s"]
      by (simp add: slots_move_def reply_slots_def fresh_op_def receive_enqueue_def reader_slot_def)
  qed
next
  case (reader_reject req k w)
  obtain t pc where s': "s' = s\<lparr>link_state := t, reader := pc\<rparr>" "pc = R_return k \<or> pc = R_stop (Some k)"
    using reader_reject_cases [OF reader_reject(3)] by blast
  then show ?thesis
    using reader_reject by (intro slots_reader) (auto simp: reader_slot_def)
next
  case (reader_return k)
  then show ?thesis by (intro slots_reader) (simp_all add: receive_return_def reader_slot_def)
next
  case (worker_take e e')
  have "worker_slot (worker s) e = {#}"
    using worker_take by (auto simp: worker_wake_def worker_slot_def split: if_splits)
  then show ?thesis
    using worker_take wake_slots [of e e']
    by (intro slots_exec) (simp_all add: exec_slots_def)
next
  case (worker_check cw)
  then show ?thesis
    using current_work_slot [of s cw]
    by (intro slots_exec) (auto simp: invoke_check_def exec_slots_def worker_slot_def unanswered_def)
next
  case (worker_apply cw)
  then show ?thesis
    using current_work_slot [of s cw]
    by (intro slots_exec) (auto simp: invoke_apply_def exec_slots_def worker_slot_def unanswered_def split: prod.splits)
next
  case (worker_reply reply cw w)
  have "worker s' = W_done \<or> worker s' = W_stop" "exec s' = exec s" "reader s' = reader s" "ops s' = ops s"
    using worker_reply(4) unfolding invoke_reply_def by (auto split: if_splits prod.splits)
  then show ?thesis
    using worker_reply current_work_slot [of s cw]
    by (intro slots_exec) (auto simp: exec_slots_def worker_slot_def unanswered_def work_op_def)
next
  case worker_stop
  then show ?thesis
    by (intro slots_exec) (auto simp: exec_slots_def worker_slot_def unanswered_def split: option.split worker_phase.split)
next
  case (worker_return e e')
  then have "pending e' = pending e" using returned_works by blast
  then show ?thesis
    using worker_return by (intro slots_exec) (simp_all add: no_call_slots unanswered_def)
next
  case (worker_free e cw e')
  then have "exec_slots (worker s) (Some e') = exec_slots (worker s) (Some e)"
    by (auto simp: worker_release_def exec_slots_def worker_slot_def)
  then show ?thesis using worker_free by (intro slots_exec) simp_all
next
  case (worker_exit e e')
  then have "exec_slots (worker s) (Some e') = exec_slots (worker s) (Some e)"
    by (auto simp: worker_finish_def exec_slots_def worker_slot_def split: if_splits)
  then show ?thesis using worker_exit by (intro slots_exec) simp_all
next
  case install
  then have "exec s = None" using inv by (simp add: server_inv_def control_ok_def)
  then show ?thesis
    using install by (intro slots_exec) (simp_all add: start_install_def exec_slots_def worker_slot_def new_executor_def)
qed (intro slots_keep;
     simp add: server_register_tool_def server_register_resource_def server_register_prompt_def start_locked_def
       local_error_def start_transport_def start_finish_def wait_done_def split: prod.splits if_splits; fastforce)+

end
