(* ===== verification/Server_Sends.thy ===== *)
theory Server_Sends
  imports Server_Safety
begin

text \<open>
  What the transport of a server sees: the labels of a run are exactly the frames handed to
  it, each admitted request has at most one reply and the reply carries its id, nothing is
  sent outside the serving states, and the registries are frozen once \<open>start\<close> was called.
\<close>

subsection \<open>Each request is answered at most once\<close>

definition answered :: "srv_event list \<Rightarrow> nat multiset" where
  "answered evs = sum_list (map answers evs)"

lemma answered_simps [simp]: "answered [] = {#}" "answered (evs @ [ev]) = answered evs + answers ev"
  by (simp_all add: answered_def)

lemma run_slots:
  "server_run l s evs s' \<Longrightarrow> server_inv s \<Longrightarrow> reply_slots s = {#} \<Longrightarrow> ops s = [] \<Longrightarrow>
   server_inv s' \<and> reply_slots s' + answered evs \<subseteq># mset [0..<length (ops s')]"
proof (induction rule: server_run.induct)
  case (run_step s evs s' ev s'')
  then have inv: "server_inv s'" and le: "reply_slots s' + answered evs \<subseteq># mset [0..<length (ops s')]" by simp_all
  have move: "slots_move s' ev s''" by (rule server_step_slots [OF run_step.hyps(2) inv])
  then have "reply_slots s'' + answers ev \<subseteq># reply_slots s' + fresh_op s' s''" by (simp add: slots_move_def)
  then have "reply_slots s'' + answered (evs @ [ev]) \<subseteq># (reply_slots s' + answered evs) + fresh_op s' s''"
    by (simp add: ac_simps)
  also have "\<dots> \<subseteq># mset [0..<length (ops s')] + fresh_op s' s''" using le by simp
  also have "\<dots> = mset [0..<length (ops s'')]" using move by (auto simp: slots_move_def fresh_op_def simp del: mset_upt)
  finally show ?case using server_step_inv [OF run_step.hyps(2) inv] by simp
qed simp

lemma new_server_empty: "reply_slots (new_server n v opts a t) = {#}" "ops (new_server n v opts a t) = []"
  by (simp_all add: new_server_def reply_slots_def reader_slot_def exec_slots_def)

lemma count_upt: "count (mset [0..<n]) k \<le> 1"
  by (metis count_mset_0_iff distinct_count_atmost_1 distinct_upt le_numeral_extra(4) zero_le)

lemma run_answers_once: "server_run l (new_server n v opts a t) evs s \<Longrightarrow> count (answered evs) k \<le> 1"
proof -
  assume r: "server_run l (new_server n v opts a t) evs s"
  have "reply_slots s + answered evs \<subseteq># mset [0..<length (ops s)]"
    by (rule run_slots [OF r server_inv_new new_server_empty, THEN conjunct2])
  then have "count (reply_slots s + answered evs) k \<le> count (mset [0..<length (ops s)]) k" by (rule mset_subset_eq_count)
  then show ?thesis using count_upt [of "length (ops s)" k] by simp
qed

subsection \<open>The frames of a run\<close>

definition sent :: "srv_event \<Rightarrow> json option" where
  "sent ev = (case ev of Silent \<Rightarrow> None | Control w \<Rightarrow> Some w | Replied k w \<Rightarrow> w)"

lemma sent_simps [simp]: "sent Silent = None" "sent (Control j) = Some j" "sent (Replied k w) = w" "sent (control w) = w"
  by (simp_all add: sent_def control_def split: option.split)

definition after_send :: "'t link \<Rightarrow> json option \<Rightarrow> 't \<Rightarrow> 't" where
  "after_send l w t = (case w of None \<Rightarrow> t | Some j \<Rightarrow> snd (link_send l j t))"

text \<open>What a region that sends guarantees of its frame.\<close>

definition sends :: "'t link \<Rightarrow> ('a, 't) server \<Rightarrow> json option \<Rightarrow> ('a, 't) server \<Rightarrow> bool" where
  "sends l s w s' \<longleftrightarrow>
     link_state s' = after_send l w (link_state s) \<and>
     (\<forall>j. w = Some j \<longrightarrow> serving s \<and> frame_fits (link_fc l) j (link_limit l))"

lemma sends_none [simp]: "sends l s None s' \<longleftrightarrow> link_state s' = link_state s"
  by (simp add: sends_def after_send_def)

lemma emit_sends:
  "emit l r m (link_state s) = (ok, w, t) \<Longrightarrow> serving s \<Longrightarrow> link_state s' = t \<Longrightarrow> sends l s w s'"
  by (drule emit_cases) (auto simp: sends_def after_send_def)

lemma emit_control_sends: "emit_control l r m s = (w, s') \<Longrightarrow> serving s \<Longrightarrow> sends l s w s'"
  by (auto simp: emit_control_def split: prod.splits intro: emit_sends)

lemma initialize_link: "initialize req s = (r, s') \<Longrightarrow> link_state s' = link_state s \<and> state s' = state s"
  by (auto simp: initialize_def split: if_splits)

lemma emit_control_sends_from:
  "emit_control l r m s0 = (w, s') \<Longrightarrow> serving s \<Longrightarrow> link_state s0 = link_state s \<Longrightarrow> state s0 = state s \<Longrightarrow> sends l s w s'"
  using emit_control_sends [of l r m s0 w s'] by (simp add: sends_def serving_def)

lemma receive_request_sends:
  assumes r: "receive_request l req s = (w, s')"
  shows "sends l s w s'"
proof (cases "\<not> serving s \<or> protocol s = closing")
  case True
  then show ?thesis using r by (auto simp: receive_request_def)
next
  case active: False
  note u = r [unfolded receive_request_def, simplified active if_False]
  show ?thesis
  proof (cases "in_flight (req_id req) s")
    case True
    then show ?thesis using u active by (auto split: prod.splits intro: emit_sends)
  next
    case fresh: False
    obtain q s0 where i: "initialize req s = (q, s0)" by force
    show ?thesis
      using u fresh active i initialize_link [OF i]
      by (auto split: if_splits intro: emit_control_sends_from)
  qed
qed

lemma notify_link: "link_state (notify n s) = link_state s"
  by (simp add: notify_def update_op_def split: option.split)

lemma receive_sends: "receive l wire s = (w, s') \<Longrightarrow> sends l s w s'"
  unfolding receive_def
  by (auto split: sum.splits incoming_message.splits if_splits simp: notify_link
      intro: emit_control_sends receive_request_sends)

lemma emit_reply_id:
  "emit l r m t = (ok, Some w, t') \<Longrightarrow> json_at w ''id'' = Inr (id_to_json (resp_id r))"
  by (drule emit_id) auto

definition replies :: "('a, 't) server \<Rightarrow> srv_event \<Rightarrow> bool" where
  "replies s ev \<longleftrightarrow>
     (\<forall>k w. ev = Replied k (Some w) \<longrightarrow>
        \<not> op_cancelled (ops s ! k) \<and> json_at w ''id'' = Inr (id_to_json (op_id (ops s ! k))))"

lemma link_state_step [simp]:
  "link_state (add_ref k s) = link_state s" "link_state (receive_cancel i s) = link_state s"
  "link_state (receive_return k s) = link_state s" "link_state (stop_unlocked s) = link_state s"
  "link_state (receive_enqueue req k s) = link_state s"
  by (simp_all add: add_ref_def update_op_def receive_cancel_def receive_return_def stop_unlocked_def
      receive_enqueue_def split: option.split prod.split sum.split)

lemma receive_reject_sends:
  assumes "receive_reject l req k s = (w, s')" "req_id req = op_id (ops s ! k)"
  shows "sends l s w s' \<and> replies s (Replied k w)"
proof (cases "\<not> op_cancelled (ops s ! k) \<and> serving s")
  case True
  obtain ok w' t where
    e: "emit l (with_reason ''queue_full'' (failure (req_id req) (- 32052) ''Request queue is full'')) [] (link_state s) = (ok, w', t)"
    by (metis prod_cases3)
  then have "w = w'" "link_state s' = t" using assms(1) True by (auto simp: receive_reject_def)
  then show ?thesis
    using True emit_sends [OF e] emit_reply_id [of l _ _ _ ok _ t] e assms(2)
    by (auto simp: replies_def with_reason_def failure_def)
qed (use assms in \<open>auto simp: receive_reject_def replies_def\<close>)

text \<open>A reply that waits to be sent answers the work being run, and leaks nothing.\<close>

definition reply_inv :: "('a, 't) server \<Rightarrow> bool" where
  "reply_inv s \<longleftrightarrow>
     (\<forall>r e w. worker s = W_reply r \<and> exec s = Some e \<and> phase e = Calling w \<longrightarrow> reply_ok (work_id w) r)"

lemma reply_inv_no_reply: "(\<And>r. worker s \<noteq> W_reply r) \<Longrightarrow> reply_inv s"
  by (simp add: reply_inv_def)

definition same_calls :: "invocation executor \<Rightarrow> invocation executor \<Rightarrow> bool" where
  "same_calls e e' \<longleftrightarrow> (\<forall>w'. phase e' = Calling w' \<longrightarrow> (\<exists>w. phase e = Calling w \<and> work_id w' = work_id w))"

lemma reply_inv_exec:
  "worker s' = worker s \<Longrightarrow> exec s = Some e \<Longrightarrow> exec s' = Some e' \<Longrightarrow> same_calls e e' \<Longrightarrow> reply_inv s \<Longrightarrow> reply_inv s'"
  unfolding reply_inv_def same_calls_def by fastforce

lemma reply_inv_keep: "worker s' = worker s \<Longrightarrow> exec s' = exec s \<Longrightarrow> reply_inv s \<Longrightarrow> reply_inv s'"
  by (simp add: reply_inv_def)

lemma same_calls_phase: "phase e' = phase e \<Longrightarrow> same_calls e e'"
  by (simp add: same_calls_def)

lemma same_calls_stop_active: "same_calls e (stop_active e)"
  by (auto simp: same_calls_def stop_active_def split: option.split worker_phase.split)

lemma same_calls_cancel: "cancel i e = (ws, e') \<Longrightarrow> same_calls e e'"
  using same_calls_stop_active [of e]
  by (auto simp: cancel_def same_calls_phase split: if_splits prod.splits)

lemma same_calls_stop: "stop_executor e = (ws, e') \<Longrightarrow> same_calls e e'"
  using same_calls_stop_active [of "e\<lparr>stopping := True, pending := []\<rparr>"]
  by (auto simp: stop_executor_def same_calls_def)

lemma same_calls_enqueue: "enqueue i c e = (r, e') \<Longrightarrow> same_calls e e'"
  by (rule same_calls_phase) (auto simp: enqueue_def executor_error_def split: option.splits if_splits)

lemma receive_keeps_work:
  "receive l wire s = (w, s') \<Longrightarrow> worker s' = worker s \<and> exec s' = exec s"
  by (drule receive_frame) (simp add: reader_frame_def)

lemma reply_inv_step:
  assumes step: "server_step l s ev s'" and inv: "server_inv s" and rep: "reply_inv s"
  shows "reply_inv s'"
  using step
proof cases
  case (message wire w)
  then show ?thesis using receive_keeps_work reply_inv_keep rep by metis
next
  case (reader_cancel i)
  show ?thesis
  proof (cases "exec s")
    case (Some e)
    obtain ws e' where c: "cancel i e = (ws, e')" by force
    show ?thesis
      using rep same_calls_cancel [OF c] reader_cancel Some c
      by (intro reply_inv_exec [of s' s e e']) (simp_all add: receive_cancel_def)
  qed (use reader_cancel rep in \<open>simp add: receive_cancel_def reply_inv_def\<close>)
next
  case stop_rest
  show ?thesis
  proof (cases "exec s")
    case (Some e)
    obtain ws e' where c: "stop_executor e = (ws, e')" by force
    show ?thesis
      using rep same_calls_stop [OF c] stop_rest Some c
      by (intro reply_inv_exec [of s' s e e']) (simp_all add: stop_unlocked_def)
  qed (use stop_rest rep in \<open>simp add: stop_unlocked_def reply_inv_def\<close>)
next
  case (reader_enqueue req k)
  show ?thesis
  proof (cases "exec s")
    case (Some e)
    obtain r e' where q: "enqueue (req_id req) (Some \<lparr>inv_request = req, inv_op = k\<rparr>) e = (r, e')" by force
    show ?thesis
      using rep same_calls_enqueue [OF q] reader_enqueue Some q
      by (intro reply_inv_exec [of s' s e e']) (simp_all add: receive_enqueue_def add_ref_def update_op_def split: sum.split)
  qed (use reader_enqueue rep in \<open>simp add: receive_enqueue_def reply_inv_def\<close>)
next
  case (reader_reject req k w)
  then show ?thesis
    using reader_reject_cases [OF reader_reject(3)] rep by (auto simp: reply_inv_def)
next
  case (worker_take e e')
  then show ?thesis by (intro reply_inv_no_reply) (simp split: worker_phase.split)
next
  case (worker_check cw)
  then show ?thesis by (intro reply_inv_no_reply) (simp add: invoke_check_def)
next
  case (worker_apply cw)
  obtain e where e: "exec s = Some e" "phase e = Calling cw" using current_work_slot worker_apply by blast
  then have "cw \<in> set (exec_works s)" by (simp add: exec_works_def phase_works_def)
  then have "req_id (inv_request (work_call cw)) = work_id cw" using inv by (simp add: server_inv_def works_ok_def)
  then show ?thesis
    using worker_apply e run_application_ok [of "inv_request (work_call cw)" "link_fc l" "options s" "registries s"
        "\<lparr>ctx_id = work_id cw, ctx_stop_requested = work_stop cw\<rparr>" "app s"]
    by (auto simp: reply_inv_def invoke_apply_def split: prod.splits)
next
  case (worker_reply reply cw w)
  then show ?thesis
    by (intro reply_inv_no_reply) (auto simp: invoke_reply_def split: if_splits prod.splits)
next
  case (worker_free e cw e')
  have "same_calls e e'" using worker_free by (auto simp: same_calls_def worker_release_def)
  then show ?thesis using rep worker_free by (intro reply_inv_exec [of s' s e e']) simp_all
next
  case (worker_exit e e')
  have "same_calls e e'" using worker_exit by (auto simp: same_calls_def worker_finish_def split: if_splits)
  then show ?thesis using rep worker_exit by (intro reply_inv_exec [of s' s e e']) simp_all
next
  case install
  then show ?thesis by (auto simp: reply_inv_def start_install_def new_executor_def)
qed (use rep in \<open>(auto simp: reply_inv_def server_register_tool_def server_register_resource_def
       server_register_prompt_def start_locked_def local_error_def start_transport_def start_finish_def wait_done_def
       receive_return_def split: prod.splits if_splits)\<close>)


lemma invoke_reply_sends:
  assumes r: "invoke_reply l cw reply s = (w, s')" and id: "resp_id reply = op_id (ops s ! inv_op (work_call cw))"
  shows "sends l s w s' \<and> replies s (Replied (inv_op (work_call cw)) w)"
proof (cases "\<not> op_cancelled (ops s ! inv_op (work_call cw)) \<and> serving s")
  case True
  obtain ok w' t where e: "emit l reply (req_method (inv_request (work_call cw))) (link_state s) = (ok, w', t)"
    by (metis prod_cases3)
  then have "w = w'" "link_state s' = t" using r True by (auto simp: invoke_reply_def)
  then show ?thesis
    using True emit_sends [OF e] emit_reply_id [of l reply _ _ ok _ t] e id by (auto simp: replies_def)
qed (use r in \<open>auto simp: invoke_reply_def replies_def\<close>)

lemma replies_control [simp]: "replies s (control w)" "replies s Silent"
  by (auto simp: replies_def control_def split: option.splits)

lemma server_step_sends:
  assumes step: "server_step l s ev s'" and inv: "server_inv s" "reply_inv s"
  shows "sends l s (sent ev) s' \<and> replies s ev"
  using step
proof cases
  case (message wire w)
  then show ?thesis by (simp add: receive_sends)
next
  case (reader_reject req k w)
  then show ?thesis
    using receive_reject_sends [OF reader_reject(3)] inv by (simp add: server_inv_def reader_ok_def)
next
  case (worker_reply reply cw w)
  obtain e where e: "exec s = Some e" "phase e = Calling cw" using current_work_slot worker_reply by blast
  then have "cw \<in> set (exec_works s)" by (simp add: exec_works_def phase_works_def)
  then have "op_id (ops s ! inv_op (work_call cw)) = work_id cw" using inv by (simp add: server_inv_def works_ok_def work_op_def)
  moreover have "resp_id reply = work_id cw"
    using inv e worker_reply by (simp add: reply_inv_def reply_ok_def)
  ultimately show ?thesis using invoke_reply_sends [OF worker_reply(4)] worker_reply by simp
qed (auto simp: server_register_tool_def server_register_resource_def server_register_prompt_def
    start_locked_def start_install_def start_transport_def start_finish_def wait_done_def local_error_def
    invoke_check_def invoke_apply_def split: prod.splits if_splits)

lemma run_both_inv:
  "server_run l s evs s' \<Longrightarrow> server_inv s \<Longrightarrow> reply_inv s \<Longrightarrow> server_inv s' \<and> reply_inv s'"
proof (induction rule: server_run.induct)
  case (run_step s evs s' ev s'')
  then show ?case using server_step_inv reply_inv_step by blast
qed simp

lemma reply_inv_new: "reply_inv (new_server n v opts a t)"
  by (rule reply_inv_no_reply) (simp add: new_server_def)

text \<open>The transport's state is what the frames of the labels, in their order, make of it.\<close>

lemma run_link:
  "server_run l s evs s' \<Longrightarrow> server_inv s \<Longrightarrow> reply_inv s \<Longrightarrow>
   link_state s' = fold (\<lambda>ev. after_send l (sent ev)) evs (link_state s)"
proof (induction rule: server_run.induct)
  case (run_step s evs s' ev s'')
  then have "sends l s' (sent ev) s''" using run_both_inv [OF run_step.hyps(1)] server_step_sends by blast
  then show ?case using run_step by (simp add: sends_def)
qed simp

lemma run_frames_fit:
  "server_run l s evs s' \<Longrightarrow> server_inv s \<Longrightarrow> reply_inv s \<Longrightarrow> ev \<in> set evs \<Longrightarrow> sent ev = Some w \<Longrightarrow>
   frame_fits (link_fc l) w (link_limit l)"
proof (induction rule: server_run.induct)
  case (run_step s evs s' ev' s'')
  then have "sends l s' (sent ev') s''" using run_both_inv [OF run_step.hyps(1)] server_step_sends by blast
  then show ?case using run_step by (auto simp: sends_def)
qed simp

lemma run_append: "server_run l s' evs' s'' \<Longrightarrow> server_run l s evs s' \<Longrightarrow> server_run l s (evs @ evs') s''"
proof (induction arbitrary: evs s rule: server_run.induct)
  case (run_step s evs s' ev s'')
  then show ?case using server_run.run_step by (metis append.assoc)
qed simp

lemma run_state: "server_run l s evs s' \<Longrightarrow> state s \<le> state s' \<and> connection_rank (protocol s) \<le> connection_rank (protocol s')"
proof (induction rule: server_run.induct)
  case (run_step s evs s' ev s'')
  then show ?case using server_step_state [OF run_step.hyps(2)] by (meson order_trans)
qed simp

lemma not_serving_later: "state s \<ge> stopping_down \<Longrightarrow> state s \<le> state s' \<Longrightarrow> \<not> serving s'"
  by (cases "state s"; cases "state s'") (simp_all add: serving_def less_eq_lifecycle_def)

lemma run_silent_after_stop:
  "server_run l s evs s' \<Longrightarrow> server_inv s \<Longrightarrow> reply_inv s \<Longrightarrow> state s \<ge> stopping_down \<Longrightarrow> ev \<in> set evs \<Longrightarrow> sent ev = None"
proof (induction rule: server_run.induct)
  case (run_step s evs s' ev' s'')
  then have "sends l s' (sent ev') s''" using run_both_inv [OF run_step.hyps(1)] server_step_sends by blast
  moreover have "\<not> serving s'" using not_serving_later [OF run_step.prems(3) conjunct1 [OF run_state [OF run_step.hyps(1)]]] .
  ultimately have "sent ev' = None" by (cases "sent ev'") (simp_all add: sends_def)
  then show ?case using run_step by auto
qed simp

subsection \<open>Registrations freeze, and the handshake precedes every dispatch\<close>

lemma stop_frame [simp]:
  "registries (stop_unlocked s) = registries s" "registries (receive_cancel i s) = registries s"
  "registries (receive_enqueue req k s) = registries s" "registries (receive_return k s) = registries s"
  by (simp_all add: stop_unlocked_def receive_cancel_def receive_enqueue_def receive_return_def add_ref_def update_op_def
      split: option.split prod.split sum.split)

lemma register_frozen:
  "state s \<noteq> configuring \<Longrightarrow> registries (snd (server_register_tool l d h s)) = registries s"
  "state s \<noteq> configuring \<Longrightarrow> registries (snd (server_register_resource d' h' s)) = registries s"
  "state s \<noteq> configuring \<Longrightarrow> registries (snd (server_register_prompt d'' h'' s)) = registries s"
  by (simp_all add: server_register_tool_def server_register_resource_def server_register_prompt_def
      register_tool_def register_resource_def register_prompt_def split: prod.split)

lemma server_step_registries:
  assumes step: "server_step l s ev s'" and st: "state s \<noteq> configuring"
  shows "registries s' = registries s"
  using step
proof cases
  case (message wire w)
  then show ?thesis using receive_frame [of l wire s w s'] by (simp add: reader_frame_def)
next
  case (reader_reject req k w)
  then show ?thesis using reader_reject_cases [OF reader_reject(3)] by auto
qed (use register_frozen [OF st] in \<open>auto simp: start_locked_def start_install_def start_transport_def start_finish_def wait_done_def
    local_error_def invoke_check_def invoke_apply_def invoke_reply_def split: prod.splits if_splits\<close>,
    (metis snd_conv)+)

lemma run_registries: "server_run l s evs s' \<Longrightarrow> state s \<noteq> configuring \<Longrightarrow> registries s' = registries s"
proof (induction rule: server_run.induct)
  case (run_step s evs s' ev s'')
  have "configuring < state s" using run_step.prems by (cases "state s") (simp_all add: less_lifecycle_def less_eq_lifecycle_def)
  then have "state s' \<noteq> configuring" using run_state [OF run_step.hyps(1)] by auto
  then show ?case using server_step_registries [OF run_step.hyps(2)] run_step by simp
qed simp

end
