(* ===== verification/App_Properties.thy ===== *)
theory App_Properties
  imports Dispatch_Correct Executor
begin

text \<open>
  The properties of the parts below the server: resource identifiers, registries, the output
  filter and the token bucket, the executor, and the dispatch of application requests.
\<close>

subsection \<open>A small application\<close>

text \<open>
  Used by the witnesses: a burst of two and a clock, one tool that counts its calls and echoes
  the name of the request, an engine that accepts every instance, and a call of that tool.
\<close>

definition two_tokens :: "nat server_options" where
  "two_tokens = \<lparr>max_pending_requests = 4, tool_burst = 2, tool_requests_per_second = 0x3FF0000000000000,
     allow_tool = None, filter_output = None, clock_now = Some (eff_return 9)\<rparr>"

definition closed_door :: "nat server_options" where
  "closed_door = two_tokens\<lparr>allow_tool := Some (\<lambda>name ctx. eff_return False)\<rparr>"

definition echo_descriptor :: tool where
  "echo_descriptor = \<lparr>tool_name = ''echo'', tool_description = ''d'', tool_schema = json_object [(''type'', JStr ''object'')]\<rparr>"

definition echo_handler :: "nat tool_handler" where
  "echo_handler arguments ctx = (\<lambda>n. (Inr (Inr \<lparr>tool_text = ''hello''\<rparr>), n + 1))"

definition accept_all :: schema_compiler where
  "accept_all j = Inr \<lparr>cs_evaluator = Some (\<lambda>t. Engine_valid)\<rparr>"

definition echo_registries :: "nat registries" where
  "echo_registries = snd (register_tool accept_all configuring echo_descriptor (Some echo_handler) no_registries)"

definition echo_request :: request where
  "echo_request = \<lparr>msg_jsonrpc = ''2.0'', req_id = Id_uint64 7, req_method = ''tools/call'',
     req_params = Some (json_object [(''name'', JStr ''echo'')])\<rparr>"

definition echo_context :: request_context where
  "echo_context = \<lparr>ctx_id = Id_uint64 7, ctx_stop_requested = False\<rparr>"

lemma echo_registered:
  "register_tool accept_all configuring echo_descriptor (Some echo_handler) no_registries =
     (Inr (), \<lparr>tools = [(''echo'', \<lparr>rt_descriptor = echo_descriptor, rt_handler = echo_handler,
        rt_validator = \<lparr>cs_evaluator = Some (\<lambda>t. Engine_valid)\<rparr>\<rparr>)], resources = [], prompts = []\<rparr>)"
proof -
  have "tool_descriptor_ok (no_registries :: nat registries) echo_descriptor" by code_simp
  then show ?thesis
    by (simp add: register_tool_def accept_all_def no_registries_def om_emplace_def om_contains_def echo_descriptor_def)
qed

lemma consume_two_tokens:
  "consume two_tokens (n, initial_policy two_tokens) = (Inr True, (n, \<lparr>tokens = 1, last = 9, clock_started = True\<rparr>))"
proof -
  have two: "tokens (initial_policy two_tokens) = 2" by (simp add: initial_policy_def two_tokens_def size_as_double_exact)
  have "f64_representable 2" using size_as_double_representable [of 2] by (simp add: size_as_double_exact)
  then have "f64_round 1 = Some 1" using f64_round_representable representable_minus_one [of 2] by simp
  then have "consume_at two_tokens 9 (initial_policy two_tokens) = (True, \<lparr>tokens = 1, last = 9, clock_started = True\<rparr>)"
    using two by (simp add: consume_at_def initial_policy_def)
  then show ?thesis by (simp add: consume_def policy_consume_def two_tokens_def)
qed

lemma echo_tool_text:
  "call_tool no_float two_tokens echo_registries echo_request echo_context (0, initial_policy two_tokens) =
     (Inr (reply_result (Id_uint64 7) (json_object [(''content'', JArr [text_item ''hello''])])),
      (1, \<lparr>tokens = 1, last = 9, clock_started = True\<rparr>))"
proof -
  have name: "string_member (req_params echo_request) ''name'' = ''echo''" by code_simp
  have params: "\<not> call_params_bad (req_params echo_request)" by code_simp
  have hello: "valid_text ''hello''" by code_simp
  have arguments: "call_arguments (req_params echo_request) = JObj []" by code_simp
  have dumped: "json_dump no_float (JObj []) = Inr ''{}''" by code_simp
  have hooks: "allow_tool two_tokens = None" "filter_output two_tokens = None" "req_id echo_request = Id_uint64 7"
    by (simp_all add: two_tokens_def echo_request_def)
  show ?thesis
    by (simp add: call_tool_def Let_def name params arguments echo_registries_def echo_registered on_app_def policy_allow_def
        eff_bind_apply validate_def dumped run_tool_def echo_handler_def policy_filter_def hello hooks consume_two_tokens is_ok_def)
qed

subsection \<open>Resource identifiers\<close>

text \<open>
  An accepted resource identifier holds only characters of the RFC 3986 repertoire:
  printable ASCII without space, quote, backslash, angle brackets, braces, caret, backtick
  and bar, whatever its shape.
\<close>

theorem accepted_uri_repertoire:
  assumes "valid_resource_uri u" "c \<in> set u"
  shows "33 \<le> byte c \<and> byte c \<le> 126 \<and> c \<notin> {quote, backslash, CHR ''<'', CHR ''>'', CHR ''^'', CHR ''{'', CHR ''}'', CHR ''|'', CHR ''`''}"
proof -
  have "uri_char c" using assms valid_uri_chars by blast
  then show ?thesis using uri_char_ascii [of c]
    by (auto simp: uri_char_def uri_unreserved_def uri_alpha_def is_digit_def sub_delims_def)
qed

lemma accepted_uri_repertoire_witness: "33 \<le> byte CHR ''/''"
  using accepted_uri_repertoire [of "''file:///a''" "CHR ''/''"] by code_simp

text \<open>
  The dotted quad. The octet loop accepts exactly the four decimal numerals below 256
  without leading zeros, separated by single dots and followed by nothing.
\<close>

theorem ipv4_is_dotted_quad:
  "ipv4_from 0 s \<longleftrightarrow>
     (\<exists>a b c d. a < 256 \<and> b < 256 \<and> c < 256 \<and> d < 256 \<and>
        s = dec a @ ''.'' @ dec b @ ''.'' @ dec c @ ''.'' @ dec d)"
  by (rule ipv4_iff)

subsection \<open>Registries\<close>

datatype 'a registration =
    Reg_tool tool "'a tool_handler option"
  | Reg_resource mcp_resource "'a resource_handler option"
  | Reg_prompt mcp_prompt "'a prompt_handler option"

text \<open>A sequence of registration calls, each with the lifecycle it finds.\<close>

fun register_all ::
  "schema_compiler \<Rightarrow> (lifecycle \<times> 'a registration) list \<Rightarrow> 'a registries \<Rightarrow> 'a registries" where
  "register_all compile [] regs = regs"
| "register_all compile ((st, Reg_tool d h) # cs) regs =
     register_all compile cs (snd (register_tool compile st d h regs))"
| "register_all compile ((st, Reg_resource d' h') # cs) regs =
     register_all compile cs (snd (register_resource st d' h' regs))"
| "register_all compile ((st, Reg_prompt d'' h'') # cs) regs =
     register_all compile cs (snd (register_prompt st d'' h'' regs))"

lemma register_all_inv: "registries_inv regs \<Longrightarrow> registries_inv (register_all compile cs regs)"
  by (induction compile cs regs rule: register_all.induct)
     (simp_all add: register_tool_inv [OF prod.collapse [symmetric]]
        register_resource_inv [OF prod.collapse [symmetric]] register_prompt_inv [OF prod.collapse [symmetric]])

text \<open>
  C18. Every sequence of registration calls, accepted or refused, leaves registries in which
  each entry is stored once, in key order, under the name of its own descriptor; tools have a
  non-empty name and a schema of type object, resources a valid identifier, prompts pairwise
  different argument names, and every text is UTF-8 without control characters.
\<close>

theorem registries_well_formed:
  "registries_inv (register_all compile calls no_registries)"
  by (rule register_all_inv [OF registries_inv_empty])

text \<open>
  A registration that succeeds is looked up, and shadows nothing: the name was free, the
  descriptor's schema compiled, and every other lookup is unchanged. One that fails changes
  nothing.
\<close>

theorem register_tool_effect:
  assumes "register_tool compile st d h regs = (r, regs')"
  shows "(is_ok r \<longrightarrow> st = configuring \<and> map_of (tools regs) (tool_name d) = None \<and>
           (\<exists>f v. h = Some f \<and> compile (tool_schema d) = Inr v \<and>
              map_of (tools regs') = (map_of (tools regs))(tool_name d \<mapsto> \<lparr>rt_descriptor = d, rt_handler = f, rt_validator = v\<rparr>))) \<and>
         (\<not> is_ok r \<longrightarrow> regs' = regs)"
proof (cases "is_ok r")
  case True
  then have ok: "register_tool compile st d h regs = (Inr (), regs')" using assms by (cases r) (simp_all add: is_ok_def)
  then show ?thesis using register_tool_lookup [OF ok] register_tool_cases [OF ok] True by auto
next
  case False
  then show ?thesis using register_tool_cases [OF assms] by auto
qed

lemma register_tool_effect_witness:
  "map_of (tools (no_registries :: nat registries)) (tool_name echo_descriptor) = None"
  using register_tool_effect [OF echo_registered] by (simp add: is_ok_def)

subsection \<open>The token bucket\<close>



text \<open>
  C14. The burst. While the clock does not move past the first reading, exactly the first
  \<open>tool_burst\<close> calls are admitted and all later ones refused.
\<close>

theorem burst_is_exact:
  assumes "tool_burst opts < 2 ^ 53" "\<forall>t \<in> set ts. t \<le> t0"
  shows "fst (consume_all opts (t0 # ts) (initial_policy opts)) =
    replicate (min (tool_burst opts) (Suc (length ts))) True @ replicate (Suc (length ts) - tool_burst opts) False"
proof -
  let ?p = "(initial_policy opts)\<lparr>last := t0, clock_started := True\<rparr>"
  have b: "of_nat (tool_burst opts) < (2 :: rat) ^ 53"
    using assms(1) by (metis of_nat_less_iff of_nat_numeral of_nat_power)
  have "consume_at opts t0 (initial_policy opts) = consume_at opts t0 ?p"
    by (simp add: consume_at_def initial_policy_def)
  then have "consume_all opts (t0 # ts) (initial_policy opts) = consume_all opts (t0 # ts) ?p" by simp
  moreover have "tokens ?p = of_nat (tool_burst opts)" by (simp add: initial_policy_def size_as_double_exact [OF assms(1)])
  moreover have "bucket_exact ?p"
    using calculation(2) b size_as_double_representable [of "tool_burst opts"]
    by (simp add: bucket_exact_def size_as_double_exact [OF assms(1)])
  ultimately show ?thesis
    using consume_all_no_refill [of ?p "t0 # ts" opts] assms(2) by simp
qed


lemma burst_is_exact_witness:
  "fst (consume_all two_tokens [9, 5, 9, 1] (initial_policy two_tokens)) = [True, True, False, False]"
  using burst_is_exact [of two_tokens "[5, 9, 1]" 9] by (simp add: two_tokens_def del: consume_all.simps)

subsection \<open>The executor\<close>

lemma exec_step_max: "exec_step e ev e' \<Longrightarrow> max_pending e' = max_pending e"
  by (erule exec_stepE)
     (auto simp: enqueue_def executor_error_def cancel_def stop_executor_def worker_wake_def worker_returned_def
       worker_release_def worker_finish_def wait_executor_def wait_executor_for_def join_worker_def
       split: if_splits option.splits list.splits worker_phase.splits prod.splits sum.splits)

text \<open>
  In every run the executor keeps its invariant: at most \<open>max_pending\<close> invocations wait,
  the ids waiting and active are pairwise different on the wire, a stopping executor holds no
  pending work, and it is joined only after its worker finished.
\<close>

theorem executor_invariant:
  assumes "exec_run (new_executor n) evs e"
  shows "length (pending e) \<le> n \<and> distinct (map id_key (all_ids e)) \<and> None \<notin> set (map id_key (all_ids e)) \<and>
    (stopping e \<longrightarrow> pending e = []) \<and> (joined e \<longrightarrow> finished e) \<and> (finished e \<longrightarrow> stopping e \<and> active e = None)"
proof -
  have "max_pending e = n"
    using assms
  proof (induction "new_executor n :: 'a executor" evs e rule: exec_run.induct)
    case (run_snoc evs e' ev e'')
    then show ?case using exec_step_max by metis
  qed (simp add: new_executor_def)
  then show ?thesis
    using exec_run_inv [OF assms] by (auto simp: exec_inv_def)
qed

text \<open>
  C8. First in, first out. In every run the invocations that started, followed by those still
  waiting, are a subsequence of the accepted ones in their order, and every accepted invocation
  was started, waits, or was handed back by a cancellation or the shutdown: none is lost and
  none runs twice.
\<close>

theorem executor_is_fifo:
  assumes "exec_run (new_executor n) evs e"
  shows "subseq (started evs @ map work_call (pending e)) (accepted evs) \<and>
    mset (accepted evs) = mset (started evs) + mset (map work_call (pending e)) + mset (discarded evs)"
  using exec_run_queue [OF assms] by (simp add: queue_spec_def)


text \<open>A run with two admitted requests, one started, and a stop.\<close>

definition demo_enqueued :: "nat executor" where
  "demo_enqueued = snd (enqueue (Id_uint64 1) (Some 10) (new_executor 2))"

definition demo_full :: "nat executor" where
  "demo_full = snd (enqueue (Id_string ''b'') (Some 20) demo_enqueued)"

definition demo_calling :: "nat executor" where
  "demo_calling = the (worker_wake demo_full)"


lemma demo_executor_run:
  "exec_run (new_executor 2)
     ([Accepted \<lparr>work_id = Id_uint64 1, work_stop = False, work_call = 10\<rparr>] @
      [Accepted \<lparr>work_id = Id_string ''b'', work_stop = False, work_call = 20\<rparr>] @ [Started 10]) demo_calling"
proof -
  have "exec_step (new_executor 2) (Accepted \<lparr>work_id = Id_uint64 1, work_stop = False, work_call = 10\<rparr>) demo_enqueued"
    by (rule step_enqueue) (simp add: demo_enqueued_def enqueue_def new_executor_def)
  moreover have "exec_step demo_enqueued (Accepted \<lparr>work_id = Id_string ''b'', work_stop = False, work_call = 20\<rparr>) demo_full"
    by (rule step_enqueue) (simp add: demo_full_def demo_enqueued_def enqueue_def new_executor_def same_request_id_def)
  moreover have "exec_step demo_full (Started (work_call \<lparr>work_id = Id_uint64 1, work_stop = False, work_call = 10\<rparr>)) demo_calling"
    by (rule step_take)
       (simp_all add: demo_calling_def demo_full_def demo_enqueued_def enqueue_def new_executor_def worker_wake_def same_request_id_def)
  ultimately show ?thesis
    using run_snoc [OF run_snoc [OF run_snoc [OF run_refl]]] by fastforce
qed

lemma executor_invariant_witness: "length (pending demo_calling) \<le> 2"
  using executor_invariant [OF demo_executor_run] by blast

lemma executor_is_fifo_witness: "subseq ([10] @ map work_call (pending demo_calling)) [10, 20]"
  using executor_is_fifo [OF demo_executor_run] by simp


subsection \<open>Dispatch\<close>

text \<open>
  C6. Replies leak nothing. Whatever the handlers, the policy hooks and the clock do,
  throwing included, the worker builds a reply with the request's id, protocol version 2.0 and
  exactly one of a result and an error, and an error's code and message come from a fixed list
  of eleven public pairs.
\<close>

theorem every_reply_is_public:
  "resp_id (fst (run_application fc opts regs req ctx w)) = req_id req \<and>
   msg_jsonrpc (fst (run_application fc opts regs req ctx w)) = ''2.0'' \<and>
   response_canonical (fst (run_application fc opts regs req ctx w)) \<and>
   pred_option (\<lambda>e. (err_code e, err_message e) \<in> set public_errors) (resp_err (fst (run_application fc opts regs req ctx w)))"
  using run_application_ok [of req fc opts regs ctx w] by (auto simp: reply_ok_def split: option.splits)

text \<open>
  Tool output is filtered. A result of \<open>tools/call\<close> holds one text item, whose text is
  UTF-8 without control characters, and no member besides the content and the error flag,
  whatever the tool handler and the output filter return.
\<close>

theorem tool_output_is_valid_text:
  assumes "call_tool fc opts regs req ctx w = (Inr reply, w')" "resp_result reply = Some j"
  shows "\<exists>t. json_at j ''content'' = Inr (JArr [text_item t]) \<and> utf8_valid t \<and> (\<forall>c \<in> set t. \<not> control_char c) \<and>
    (\<forall>k. json_contains j k \<longrightarrow> k = ''content'' \<or> k = ''isError'')"
  using eff_okD [OF call_tool_text, of fc opts regs req ctx w] assms
  by (auto simp: tool_result_ok_def valid_text_iff)

lemma tool_output_is_valid_text_witness:
  "\<exists>t. utf8_valid t \<and> json_at (json_object [(''content'', JArr [text_item ''hello''])]) ''content'' = Inr (JArr [text_item t])"
  using tool_output_is_valid_text [OF echo_tool_text] by (auto simp: reply_result_def)

text \<open>
  C7. Guards before handlers. Unless the parameters are well-formed, the tool is registered,
  the access hook allows it, a token is spent and the arguments satisfy the tool's schema, the
  handlers of the registry have no influence: replacing them by any others gives the same reply
  and the same state, so none was run.
\<close>

theorem handlers_run_only_after_guards:
  assumes "tool_admitted fc opts regs req ctx w = None"
  shows "call_tool fc opts (with_handlers h regs) req ctx w = call_tool fc opts regs req ctx w"
  using assms by (rule call_tool_not_admitted)

lemma handlers_run_only_after_guards_witness:
  "call_tool no_float closed_door (with_handlers (\<lambda>k arguments ctx. eff_throw User_exn) echo_registries)
     echo_request echo_context (0, initial_policy closed_door) =
   call_tool no_float closed_door echo_registries echo_request echo_context (0, initial_policy closed_door)"
proof (rule handlers_run_only_after_guards)
  have "on_app (policy_allow closed_door name ctx) w = (Inr False, w)" for name ctx and w :: "nat worker_state"
    by (cases w) (simp add: on_app_def policy_allow_def closed_door_def)
  then show "tool_admitted no_float closed_door echo_registries echo_request echo_context (0, initial_policy closed_door) = None"
    by (simp add: tool_admitted_def split: option.split)
qed

text \<open>
  A denied call costs nothing: when the access hook refuses a registered tool the reply is
  the access-denied error with its reason, and the token bucket and its clock are untouched.
\<close>

theorem denial_spends_no_token:
  assumes "\<not> call_params_bad (req_params req)"
    and "map_of (tools regs) (string_member (req_params req) ''name'') = Some t"
    and "policy_allow opts (string_member (req_params req) ''name'') ctx a = (Inr False, a')"
  shows "call_tool fc opts regs req ctx (a, p) =
    (Inr (with_reason ''access_denied'' (failure (req_id req) (- 32050) ''Access denied'')), (a', p))"
  using assms by (rule call_tool_denied)

lemma denial_spends_no_token_witness:
  "snd (call_tool no_float closed_door echo_registries echo_request echo_context (0, initial_policy closed_door)) =
     (0, initial_policy closed_door)"
proof -
  have "\<not> call_params_bad (req_params echo_request)" by code_simp
  moreover have "map_of (tools echo_registries) (string_member (req_params echo_request) ''name'') =
      Some \<lparr>rt_descriptor = echo_descriptor, rt_handler = echo_handler, rt_validator = \<lparr>cs_evaluator = Some (\<lambda>t. Engine_valid)\<rparr>\<rparr>"
    by (simp add: echo_registries_def echo_registered) code_simp
  moreover have "policy_allow closed_door (string_member (req_params echo_request) ''name'') echo_context 0 = (Inr False, 0)"
    by (simp add: policy_allow_def closed_door_def)
  ultimately show ?thesis by (simp add: denial_spends_no_token)
qed

text \<open>
  Prompt arguments. A request's arguments are accepted exactly when every one is a string
  and is declared, and the values handed to the handler are those of the request.
\<close>

theorem prompt_arguments_checked:
  "((\<exists>vals. prompt_values declared kvs [] = Some vals) \<longleftrightarrow>
     (\<forall>kv \<in> set kvs. is_string (snd kv) \<and> fst kv \<in> arg_name ` set declared)) \<and>
   (\<forall>vals. prompt_values declared kvs [] = Some vals \<longrightarrow> dom (map_of vals) = fst ` set kvs)"
proof -
  have "dom (map_of vals) = fst ` set kvs" if "prompt_values declared kvs [] = Some vals" for vals
    using prompt_values_some [OF that] by simp
  then show ?thesis using prompt_values_none [of declared kvs "[]"] by auto
qed

lemma prompt_arguments_checked_witness:
  "dom (map_of [(''a'', ''x'')]) = fst ` set [(''a'', JStr ''x'')]"
proof -
  have "prompt_values [\<lparr>arg_name = ''a'', arg_description = [], arg_required = True\<rparr>] [(''a'', JStr ''x'')] [] = Some [(''a'', ''x'')]"
    by code_simp
  then show ?thesis using prompt_arguments_checked by blast
qed

end
