(* ===== verification/Demo_Run.thy ===== *)
theory Demo_Run
  imports Server_Sends App_Properties
begin

text \<open>
  A complete concrete run: a server with the echo tool is started over a transport that
  records the frames, a client completes the handshake and lists the tools, and the worker
  answers. The theorems on runs are instantiated with it.
\<close>

definition tape :: "json list link" where
  "tape = \<lparr>link_fc = no_float, link_limit = 400, link_send = (\<lambda>j t. (Inr (), t @ [j])), link_compile = accept_all\<rparr>"

definition demo0 :: "(nat, json list) server" where
  "demo0 = new_server ''demo'' ''1'' two_tokens 0 []"

definition demo1 :: "(nat, json list) server" where
  "demo1 = snd (server_register_tool tape echo_descriptor (Some echo_handler) demo0)"

definition demo2 :: "(nat, json list) server" where
  "demo2 = demo1\<lparr>state := starting, main := M_install\<rparr>"

definition demo5 :: "(nat, json list) server" where
  "demo5 = start_finish (start_transport True (start_install demo2))"

definition wire_initialize :: json where
  "wire_initialize = json_object
     [(''jsonrpc'', JStr ''2.0''), (''id'', JUInt 1), (''method'', JStr ''initialize''),
      (''params'', json_object [(''protocolVersion'', JStr ''2025-11-25''), (''capabilities'', JObj []),
         (''clientInfo'', json_object [(''name'', JStr ''c''), (''version'', JStr ''1'')])])]"

definition wire_initialized :: json where
  "wire_initialized = json_object [(''jsonrpc'', JStr ''2.0''), (''method'', JStr ''notifications/initialized'')]"

definition wire_list :: json where
  "wire_list = json_object [(''jsonrpc'', JStr ''2.0''), (''id'', JUInt 2), (''method'', JStr ''tools/list'')]"

definition demo6 :: "(nat, json list) server" where "demo6 = snd (receive tape wire_initialize demo5)"
definition demo7 :: "(nat, json list) server" where "demo7 = snd (receive tape wire_initialized demo6)"
definition demo8 :: "(nat, json list) server" where "demo8 = snd (receive tape wire_list demo7)"

lemma demo1_registries: "demo1 = demo0\<lparr>registries := echo_registries\<rparr>"
  by (simp add: demo1_def demo0_def new_server_def server_register_tool_def tape_def echo_registered echo_registries_def)

lemma demo_limits: "limits_ok demo1"
proof -
  have "f64_isfinite 0x3FF0000000000000" by code_simp
  moreover have "0 < f64_value 0x3FF0000000000000" by code_simp
  moreover have "safe_text ''demo''" "safe_text ''1''" by code_simp+
  ultimately show ?thesis
    by (simp add: demo1_registries demo0_def limits_ok_def new_server_def two_tokens_def)
qed

lemma demo5_state:
  "demo5 = demo0\<lparr>registries := echo_registries, state := running, exec := Some (new_executor 4), transport_up := True\<rparr>"
  by (simp add: demo5_def demo2_def demo1_registries start_finish_def start_transport_def start_install_def
      demo0_def new_server_def two_tokens_def)

definition list_request :: request where
  "list_request = \<lparr>msg_jsonrpc = ''2.0'', req_id = Id_uint64 2, req_method = ''tools/list'', req_params = None\<rparr>"

lemma demo_decodes:
  "decode_message wire_list = Inr (In_request list_request)"
  "decode_message wire_initialized =
     Inr (In_notification \<lparr>msg_jsonrpc = ''2.0'', note_method = ''notifications/initialized'', note_params = None\<rparr>)"
  by code_simp+

definition init_request :: request where
  "init_request = \<lparr>msg_jsonrpc = ''2.0'', req_id = Id_uint64 1, req_method = ''initialize'', req_params =
     Some (json_object [(''protocolVersion'', JStr ''2025-11-25''), (''capabilities'', JObj []),
         (''clientInfo'', json_object [(''name'', JStr ''c''), (''version'', JStr ''1'')])])\<rparr>"

lemma demo_decodes_init: "decode_message wire_initialize = Inr (In_request init_request)"
  by code_simp

lemma init_params: "init_params_ok (req_params init_request)" by code_simp

definition init_reply :: response where
  "init_reply = reply_result (Id_uint64 1)
      (json_object [(''protocolVersion'', JStr ''2025-11-25''), (''capabilities'', json_object [(''tools'', JObj [])]),
         (''serverInfo'', json_object [(''name'', JStr ''demo''), (''version'', JStr ''1'')])])"

lemma init_fits: "frame_fits no_float (response_to_json init_reply) 400"
  unfolding frame_fits_render by code_simp

definition list_reply :: response where
  "list_reply = list_tools echo_registries list_request"

lemma list_fits: "frame_fits no_float (response_to_json list_reply) 400"
  unfolding frame_fits_render by code_simp


subsection \<open>The states of the run\<close>

lemma tape_emit:
  "frame_fits no_float (response_to_json r) 400 \<Longrightarrow> emit tape r m t = (True, Some (response_to_json r), t @ [response_to_json r])"
  by (simp add: emit_def Let_def tape_def is_ok_def)

lemma demo6_receive:
  "receive tape wire_initialize demo5 =
     (Some (response_to_json init_reply), demo5\<lparr>protocol := await_initialized, link_state := [response_to_json init_reply]\<rparr>)"
proof -
  have names: "info_name demo5 = ''demo''" "info_version demo5 = ''1''" "protocol demo5 = await_initialize"
    "state demo5 = running" "inflight demo5 = []" "link_state demo5 = []" "registries demo5 = echo_registries" "reader demo5 = R_idle"
    by (simp_all add: demo5_state demo0_def new_server_def)
  have caps: "capabilities echo_registries = json_object [(''tools'', JObj [])]"
    by (simp add: capabilities_def echo_registries_def echo_registered json_object_def Let_def om_emplace_def om_contains_def)
  have rid: "req_id init_request = Id_uint64 1" "req_method init_request = ''initialize''" by (simp_all add: init_request_def)
  show ?thesis
    using tape_emit [OF init_fits]
    by (simp add: receive_def demo_decodes_init receive_request_def serving_def names in_flight_def inflight_ids_def rid
        initialize_def init_params caps emit_control_def flip: init_reply_def)
qed

lemma demo6_state: "demo6 = demo5\<lparr>protocol := await_initialized, link_state := [response_to_json init_reply]\<rparr>"
  by (simp add: demo6_def demo6_receive)

lemma demo7_receive:
  "receive tape wire_initialized demo6 = (None, demo6\<lparr>protocol := ready\<rparr>)"
  by (simp add: receive_def demo_decodes notify_def demo6_state demo5_state serving_def)

lemma demo7_state: "demo7 = demo6\<lparr>protocol := ready\<rparr>"
  by (simp add: demo7_def demo7_receive)

lemma demo8_receive:
  "receive tape wire_list demo7 =
     (None, demo7\<lparr>ops := [\<lparr>op_id = Id_uint64 2, op_cancelled = False, op_refs = 1\<rparr>], inflight := [0],
                 reader := R_enqueue list_request 0\<rparr>)"
proof -
  have d: "state demo7 = running" "protocol demo7 = ready" "inflight demo7 = []" "ops demo7 = []"
    by (simp_all add: demo7_state demo6_state demo5_state demo0_def new_server_def)
  show ?thesis
    by (simp add: receive_def demo_decodes receive_request_def serving_def d in_flight_def inflight_ids_def)
       (simp add: list_request_def)
qed

lemma demo8_state:
  "demo8 = demo7\<lparr>ops := [\<lparr>op_id = Id_uint64 2, op_cancelled = False, op_refs = 1\<rparr>], inflight := [0],
                 reader := R_enqueue list_request 0\<rparr>"
  by (simp add: demo8_def demo8_receive)

definition list_work :: "invocation work" where
  "list_work = \<lparr>work_id = Id_uint64 2, work_stop = False, work_call = \<lparr>inv_request = list_request, inv_op = 0\<rparr>\<rparr>"

definition demo9 :: "(nat, json list) server" where "demo9 = receive_enqueue list_request 0 demo8"
definition demo10 :: "(nat, json list) server" where "demo10 = receive_return 0 demo9"

lemma demo8_enqueue:
  "enqueue (Id_uint64 2) (Some \<lparr>inv_request = list_request, inv_op = 0\<rparr>) (new_executor 4) =
     (Inr (), (new_executor 4)\<lparr>pending := [list_work]\<rparr>)"
  by (simp add: enqueue_def new_executor_def list_work_def)

lemma demo10_state:
  "demo10 = demo7\<lparr>ops := [\<lparr>op_id = Id_uint64 2, op_cancelled = False, op_refs = 1\<rparr>], inflight := [0],
       exec := Some ((new_executor 4)\<lparr>pending := [list_work]\<rparr>), reader := R_idle\<rparr>"
proof -
  have rid: "req_id list_request = Id_uint64 2" by (simp add: list_request_def)
  have "exec demo7 = Some (new_executor 4)" by (simp add: demo7_state demo6_state demo5_state)
  then show ?thesis
    by (simp add: demo10_def demo9_def receive_return_def receive_enqueue_def demo8_state demo8_enqueue rid add_ref_def
        update_op_def drop_ref_def Let_def)
qed

definition demo11 :: "(nat, json list) server" where
  "demo11 = demo10\<lparr>exec := Some ((new_executor 4)\<lparr>active := Some list_work, phase := Calling list_work\<rparr>), worker := W_check\<rparr>"

definition demo13 :: "(nat, json list) server" where
  "demo13 = invoke_apply tape list_work (invoke_check list_work demo11)"

lemma demo13_state: "demo13 = demo11\<lparr>worker := W_reply list_reply\<rparr>"
proof -
  have o: "op_cancelled (ops demo11 ! 0) = False" "state demo11 = running" "registries demo11 = echo_registries"
    by (simp_all add: demo11_def demo10_state demo7_state demo6_state demo5_state)
  have "req_method list_request = ''tools/list''" by (simp add: list_request_def)
  then show ?thesis
    by (cases "app demo11")
       (simp add: demo13_def invoke_check_def invoke_apply_def o serving_def list_work_def run_application_def application_def
        flip: list_reply_def)
qed

definition demo14 :: "(nat, json list) server" where
  "demo14 = demo13\<lparr>link_state := [response_to_json init_reply, response_to_json list_reply], worker := W_done\<rparr>"

lemma demo14_reply:
  "invoke_reply tape list_work list_reply demo13 = (Some (response_to_json list_reply), demo14)"
proof -
  have o: "op_cancelled (ops demo13 ! 0) = False" "state demo13 = running" "link_state demo13 = [response_to_json init_reply]"
    by (simp_all add: demo13_state demo11_def demo10_state demo7_state demo6_state demo5_state)
  show ?thesis
    by (simp add: invoke_reply_def o serving_def tape_emit [OF list_fits] demo14_def list_work_def)
qed

subsection \<open>The run\<close>

definition demo_events :: "srv_event list" where
  "demo_events =
     [Silent, Silent, Silent, Silent, Silent, Control (response_to_json init_reply), Silent, Silent, Silent, Silent,
      Silent, Silent, Silent, Replied 0 (Some (response_to_json list_reply))]"

lemma run_cons: "server_step l s ev s' \<Longrightarrow> server_run l s' evs s'' \<Longrightarrow> server_run l s (ev # evs) s''"
  using run_append [of l s' evs s'' s "[ev]"] server_run.run_step [OF run_start] by fastforce

lemma demo_startup: "server_run tape demo0 [Silent, Silent, Silent, Silent, Silent] demo5"
proof -
  have "server_step tape demo0 Silent demo1"
    by (rule register_tool [of tape echo_descriptor "Some echo_handler" demo0 "fst (server_register_tool tape echo_descriptor (Some echo_handler) demo0)"])
       (simp add: demo1_def)
  moreover have "start_locked demo1 = (Inr (), demo2)"
    using demo_limits by (simp add: start_locked_def demo2_def) (simp add: demo1_registries demo0_def new_server_def)
  then have "server_step tape demo1 Silent demo2" by (rule start)
  moreover have "server_step tape demo2 Silent (start_install demo2)" by (rule install) (simp add: demo2_def)
  moreover have "server_step tape (start_install demo2) Silent (start_transport True (start_install demo2))"
    by (rule transport_start) (simp add: start_install_def demo2_def)
  moreover have "server_step tape (start_transport True (start_install demo2)) Silent demo5"
    unfolding demo5_def by (rule started) (simp add: start_transport_def)
  ultimately show ?thesis by (blast intro: run_cons run_start)
qed

lemma demo_up: "transport_up demo5" "transport_up demo6" "transport_up demo7"
  "reader demo5 = R_idle" "reader demo6 = R_idle" "reader demo7 = R_idle"
  by (simp_all add: demo7_state demo6_state demo5_state demo0_def new_server_def)

lemma demo_handshake:
  "server_run tape demo5 [Control (response_to_json init_reply), Silent, Silent, Silent, Silent] demo10"
proof -
  have "server_step tape demo5 (Control (response_to_json init_reply)) demo6"
    using message [OF demo_up(1,4) demo6_receive] by (simp add: control_def demo6_state)
  moreover have "server_step tape demo6 Silent demo7"
    using message [OF demo_up(2,5) demo7_receive] by (simp add: control_def demo7_state)
  moreover have "server_step tape demo7 Silent demo8"
    using message [OF demo_up(3,6) demo8_receive] by (simp add: control_def demo8_state)
  moreover have "server_step tape demo8 Silent demo9"
    unfolding demo9_def by (rule reader_enqueue) (simp add: demo8_state)
  moreover have "server_step tape demo9 Silent demo10"
    unfolding demo10_def
  proof (rule reader_return)
    have "req_id list_request = Id_uint64 2" "exec demo8 = Some (new_executor 4)"
      by (simp_all add: list_request_def demo8_state demo7_state demo6_state demo5_state)
    then show "reader demo9 = R_return 0" by (simp add: demo9_def receive_enqueue_def demo8_enqueue)
  qed
  ultimately show ?thesis by (blast intro: run_cons run_start)
qed

lemma demo_work: "server_run tape demo10 [Silent, Silent, Silent] demo13"
proof -
  have w: "current_work demo11 = Some list_work" "current_work (invoke_check list_work demo11) = Some list_work"
    by (simp_all add: current_work_def demo11_def invoke_check_def)
  have pending10: "exec demo10 = Some ((new_executor 4)\<lparr>pending := [list_work]\<rparr>)" by (simp add: demo10_state)
  have "worker_wake ((new_executor 4)\<lparr>pending := [list_work]\<rparr>) =
      Some ((new_executor 4)\<lparr>active := Some list_work, phase := Calling list_work\<rparr>)"
    by (simp add: worker_wake_def new_executor_def)
  then have "server_step tape demo10 Silent demo11"
    using worker_take [of demo10 "(new_executor 4)\<lparr>pending := [list_work]\<rparr>" _ tape] pending10
    by (simp add: demo11_def)
  moreover have "server_step tape demo11 Silent (invoke_check list_work demo11)"
    by (rule worker_check [OF _ w(1)]) (simp add: demo11_def)
  moreover have "worker (invoke_check list_work demo11) = W_apply"
    by (simp add: invoke_check_def list_work_def demo11_def demo10_state demo7_state demo6_state demo5_state serving_def)
  then have "server_step tape (invoke_check list_work demo11) Silent demo13"
    unfolding demo13_def using w(2) by (rule worker_apply)
  ultimately show ?thesis by (blast intro: run_cons run_start)
qed

lemma demo_reply_step: "server_step tape demo13 (Replied 0 (Some (response_to_json list_reply))) demo14"
proof -
  have "current_work demo13 = Some list_work" by (simp add: current_work_def demo13_state demo11_def)
  from worker_reply [OF _ this demo14_reply] show ?thesis by (simp add: demo13_state list_work_def)
qed

lemma demo_answer:
  "server_run tape demo10 [Silent, Silent, Silent, Replied 0 (Some (response_to_json list_reply))] demo14"
  using server_run.run_step [OF demo_work demo_reply_step] by simp

lemma demo_run: "server_run tape demo0 demo_events demo14"
  using run_append [OF demo_answer run_append [OF demo_handshake demo_startup]] by (simp add: demo_events_def)

lemma demo_last_step:
  "\<exists>evs. server_run tape demo0 evs demo13 \<and> server_step tape demo13 (Replied 0 (Some (response_to_json list_reply))) demo14"
proof -
  obtain evs where "server_run tape demo0 evs demo13"
    using run_append [OF demo_work run_append [OF demo_handshake demo_startup]] by blast
  then show ?thesis using demo_reply_step by blast
qed

end
