(* ===== verification/Server_Properties.thy ===== *)
theory Server_Properties
  imports Demo_Run
begin

text \<open>
  The properties of the server's runs: every interleaving of the registering and starting
  caller, the transport's reader and the application worker.
\<close>

subsection \<open>Single steps\<close>

lemma stop_unlocked_ops [simp]: "length (ops (stop_unlocked s)) = length (ops s)" "protocol (stop_unlocked s) = protocol s"
  "length (ops (receive_cancel i s)) = length (ops s)" "protocol (receive_cancel i s) = protocol s"
  "length (ops (receive_enqueue req k s)) = length (ops s)" "protocol (receive_enqueue req k s) = protocol s"
  "length (ops (receive_return k s)) = length (ops s)" "protocol (receive_return k s) = protocol s"
  by (simp_all add: stop_unlocked_def receive_cancel_def receive_enqueue_def receive_return_def add_ref_def update_op_def
      split: option.split prod.split sum.split)

lemma receive_admits:
  assumes r: "receive l wire s = (w, s')" and more: "length (ops s) < length (ops s')"
  shows "\<exists>req. decode_message wire = Inr (In_request req) \<and> serving s \<and> protocol s = ready \<and> \<not> in_flight (req_id req) s \<and>
    reader s' = R_enqueue req (length (ops s)) \<and> w = None \<and> req_method req \<notin> {''initialize'', ''ping''}"
proof -
  have emit: "\<not> length (ops s) < length (ops s'')" if "emit_control l q m s = (w', s'')" for q m w' s''
    using emit_control_frame2 [OF that] by simp
  have quiet: "length (ops (notify n s)) = length (ops s)" for n
    by (simp add: notify_def update_op_def split: option.split)
  from r more obtain req where d: "decode_message wire = Inr (In_request req)" and rr: "receive_request l req s = (w, s')"
    using emit quiet unfolding receive_def by (auto split: sum.splits incoming_message.splits if_splits)
  have init: "\<not> length (ops s) < length (ops s'')" if "initialize req s = (q, t)" "emit_control l q m t = (w', s'')" for q t m w' s''
    using emit_control_frame2 [OF that(2)] initialize_frame2 [OF that(1)] by simp
  show ?thesis
    using rr more d init emit
    unfolding receive_request_def by (auto split: if_splits prod.splits)
qed

lemma step_admits:
  assumes step: "server_step l s ev s'" and more: "length (ops s) < length (ops s')"
  shows "\<exists>wire w. receive l wire s = (w, s')"
  using step
proof cases
  case (reader_reject req k w)
  then show ?thesis using reader_reject_cases [OF reader_reject(3)] more by auto
qed (use more in \<open>auto simp: server_register_tool_def server_register_resource_def server_register_prompt_def
    start_locked_def start_install_def start_transport_def start_finish_def wait_done_def local_error_def
    invoke_check_def invoke_apply_def invoke_reply_def split: prod.splits if_splits\<close>)

lemma receive_opens:
  assumes r: "receive l wire s = (w, s')" and "protocol s' = ready" "protocol s \<noteq> ready"
  shows "protocol s = await_initialized \<and> serving s \<and> w = None \<and>
    (\<exists>n. decode_message wire = Inr (In_notification n) \<and> note_method n = ''notifications/initialized'')"
proof -
  have emit: "protocol s'' = protocol t" if "emit_control l q m t = (w', s'')" for q m w' s'' and t :: "('a, 'b) server"
    using that by (auto simp: emit_control_def split: prod.splits)
  have init: "protocol t \<noteq> ready" if "initialize req s = (q, t)" for req q t
    using that assms(3) by (auto simp: initialize_def split: if_splits)
  have req: "protocol s'' \<noteq> ready" if "receive_request l req s = (w', s'')" for req w' s''
    using that assms(3) unfolding receive_request_def
    by (auto split: if_splits prod.splits dest!: emit init)
  show ?thesis
    using r assms(2,3) emit [of _ _ s] req unfolding receive_def
    by (auto simp: notify_def update_op_def split: sum.splits incoming_message.splits if_splits option.splits)
qed

lemma step_opens:
  assumes step: "server_step l s ev s'" and opened: "protocol s' = ready" "protocol s \<noteq> ready"
  shows "\<exists>wire w. receive l wire s = (w, s') \<and> ev = control w"
  using step
proof cases
  case (reader_reject req k w)
  then show ?thesis using reader_reject_cases [OF reader_reject(3)] opened by auto
qed (use opened in \<open>auto simp: server_register_tool_def server_register_resource_def server_register_prompt_def
    start_locked_def start_install_def start_transport_def start_finish_def wait_done_def local_error_def stop_locked_def
    invoke_check_def invoke_apply_def invoke_reply_def split: prod.splits if_splits\<close>)

subsection \<open>Properties of runs\<close>

text \<open>
  C1. At most one answer. In every interleaving each admitted request is answered at most
  once, whether by the worker, by the full-queue rejection or by a suppressed reply.
\<close>

theorem request_answered_at_most_once:
  assumes "server_run l (new_server n v opts a t) evs s"
  shows "card {i. i < length evs \<and> (\<exists>w. evs ! i = Replied k w)} \<le> 1"
proof -
  have "count (answered evs) k = length (filter (\<lambda>ev. \<exists>w. ev = Replied k w) evs)"
  proof (induction evs)
    case (Cons ev evs)
    then show ?case by (cases ev) (auto simp: answered_def answers_def)
  qed (simp add: answered_def)
  then show ?thesis using run_answers_once [OF assms, of k] by (simp add: length_filter_conv_card)
qed

lemma request_answered_at_most_once_witness:
  "card {i. i < length demo_events \<and> (\<exists>w. demo_events ! i = Replied 0 w)} \<le> 1"
  using request_answered_at_most_once [OF demo_run [unfolded demo0_def]] .

text \<open>
  C2. An answer answers its request. Whenever a reply to an operation is handed to the
  transport, the server is serving, the operation was not cancelled, the frame's id is the id
  the request came with, and the frame fits the negotiated limit.
\<close>

theorem reply_matches_request:
  assumes "server_run l (new_server n v opts a t) evs s" "server_step l s (Replied k (Some w)) s'"
  shows "serving s \<and> \<not> op_cancelled (ops s ! k) \<and> json_at w ''id'' = Inr (id_to_json (op_id (ops s ! k))) \<and>
    frame_fits (link_fc l) w (link_limit l)"
proof -
  have "sends l s (Some w) s' \<and> replies s (Replied k (Some w))"
    using server_step_sends [OF assms(2)] run_both_inv [OF assms(1) server_inv_new reply_inv_new] by simp
  then show ?thesis by (simp add: sends_def replies_def)
qed

lemma reply_matches_request_witness:
  "json_at (response_to_json list_reply) ''id'' = Inr (id_to_json (op_id (ops demo13 ! 0)))"
proof -
  obtain evs where r: "server_run tape demo0 evs demo13" "server_step tape demo13 (Replied 0 (Some (response_to_json list_reply))) demo14"
    using demo_last_step by blast
  show ?thesis using reply_matches_request [OF r(1) [unfolded demo0_def] r(2)] by blast
qed

text \<open>
  C10. The transport sees exactly the frames of the run: its state is what sending them in
  their order makes of it, every one of them fits the limit, and no step sends anything else.
\<close>

theorem transport_sees_the_labels:
  assumes "server_run l (new_server n v opts a t) evs s"
  shows "link_state s = fold (\<lambda>w t. snd (link_send l w t)) (List.map_filter sent evs) t \<and>
    (\<forall>w \<in> set (List.map_filter sent evs). frame_fits (link_fc l) w (link_limit l))"
proof (intro conjI)
  have "link_state s = fold (\<lambda>ev. after_send l (sent ev)) evs t"
    using run_link [OF assms server_inv_new reply_inv_new] by (simp add: new_server_def)
  also have "fold (\<lambda>ev. after_send l (sent ev)) evs x = fold (\<lambda>w t. snd (link_send l w t)) (List.map_filter sent evs) x" for x
    by (induction evs arbitrary: x) (auto simp: map_filter_simps after_send_def split: option.split)
  finally show "link_state s = fold (\<lambda>w t. snd (link_send l w t)) (List.map_filter sent evs) t" .
  show "\<forall>w \<in> set (List.map_filter sent evs). frame_fits (link_fc l) w (link_limit l)"
    using run_frames_fit [OF assms server_inv_new reply_inv_new] by (auto simp: map_filter_def)
qed

lemma transport_sees_the_labels_witness:
  "link_state demo14 = fold (\<lambda>w t. snd (link_send tape w t)) (List.map_filter sent demo_events) []"
  using transport_sees_the_labels [OF demo_run [unfolded demo0_def]] by blast

text \<open>
  C9. Silence after stop. Once the lifecycle is stopping or stopped, no continuation of the
  run hands a frame to the transport.
\<close>

theorem nothing_sent_after_stop:
  assumes "server_run l (new_server n v opts a t) evs s" "state s = stopping_down \<or> state s = stopped"
    and "server_run l s evs' s'" "ev \<in> set evs'"
  shows "sent ev = None"
proof (rule run_silent_after_stop [OF assms(3) _ _ _ assms(4)])
  show "server_inv s" "reply_inv s" using run_both_inv [OF assms(1) server_inv_new reply_inv_new] by simp_all
  show "stopping_down \<le> state s" using assms(2) by (auto simp: less_eq_lifecycle_def)
qed

lemma nothing_sent_after_stop_witness: "sent Silent = None"
proof (rule nothing_sent_after_stop)
  show "server_run tape (new_server ''demo'' ''1'' two_tokens 0 []) (demo_events @ [Silent]) (stop_locked demo14)"
    using server_run.run_step [OF demo_run server_step.stop] by (simp add: demo0_def)
  have st: "state demo14 = running" "exec demo14 \<noteq> None"
    by (simp_all add: demo14_def demo13_state demo11_def demo10_state demo7_state demo6_state demo5_state)
  then show "state (stop_locked demo14) = stopping_down \<or> state (stop_locked demo14) = stopped"
    by (simp add: stop_locked_def)
  show "server_run tape (stop_locked demo14) ([] @ [Silent]) (stop_unlocked (stop_locked demo14))"
    by (rule server_run.run_step [OF run_start stop_rest]) (simp add: stop_locked_def st)
qed simp

text \<open>
  Registrations freeze. Once \<open>start\<close> has left the configuring state no step changes the
  registries, so what \<open>tools/list\<close> reports is what calls are dispatched on.
\<close>

theorem registries_frozen:
  assumes "server_run l s evs s'" "state s \<noteq> configuring"
  shows "registries s' = registries s"
  using assms by (rule run_registries)

lemma registries_frozen_witness: "registries demo14 = registries demo5"
proof (rule registries_frozen)
  show "server_run tape demo5 ([Control (response_to_json init_reply), Silent, Silent, Silent, Silent] @
      [Silent, Silent, Silent, Replied 0 (Some (response_to_json list_reply))]) demo14"
    by (rule run_append [OF demo_answer demo_handshake])
  show "state demo5 \<noteq> configuring" by (simp add: demo5_state)
qed



text \<open>
  The lifecycle and the connection only move forward, whatever the threads do.
\<close>

theorem lifecycle_monotone:
  assumes "server_run l s evs s'"
  shows "state s \<le> state s' \<and> connection_rank (protocol s) \<le> connection_rank (protocol s')"
  using assms by (rule run_state)

lemma lifecycle_monotone_witness: "state demo0 \<le> state demo14"
  using lifecycle_monotone [OF demo_run] by blast

text \<open>
  C3. The handshake precedes every dispatch. A step admits a request only when it is the
  arrival of a decoded request with a fresh id on a ready connection of a serving server; and
  a connection becomes ready only from awaiting the initialized notification, on its arrival.
\<close>

theorem dispatch_needs_handshake:
  assumes "server_step l s ev s'"
  shows "(length (ops s) < length (ops s') \<longrightarrow>
      protocol s = ready \<and> serving s \<and>
      (\<exists>wire req. decode_message wire = Inr (In_request req) \<and> \<not> in_flight (req_id req) s \<and> reader s' = R_enqueue req (length (ops s)))) \<and>
    (protocol s \<noteq> ready \<and> protocol s' = ready \<longrightarrow>
      protocol s = await_initialized \<and> serving s \<and> ev = Silent \<and>
      (\<exists>wire n. decode_message wire = Inr (In_notification n) \<and> note_method n = ''notifications/initialized''))"
proof (intro conjI)
  show "length (ops s) < length (ops s') \<longrightarrow>
      protocol s = ready \<and> serving s \<and>
      (\<exists>wire req. decode_message wire = Inr (In_request req) \<and> \<not> in_flight (req_id req) s \<and> reader s' = R_enqueue req (length (ops s)))"
    using step_admits [OF assms] receive_admits [of l _ s _ s'] by blast
  show "protocol s \<noteq> ready \<and> protocol s' = ready \<longrightarrow>
      protocol s = await_initialized \<and> serving s \<and> ev = Silent \<and>
      (\<exists>wire n. decode_message wire = Inr (In_notification n) \<and> note_method n = ''notifications/initialized'')"
  proof
    assume opened: "protocol s \<noteq> ready \<and> protocol s' = ready"
    then obtain wire w where r: "receive l wire s = (w, s')" "ev = control w" using step_opens [OF assms] by blast
    note o = receive_opens [OF r(1)]
    then have "w = None" using opened by blast
    then show "protocol s = await_initialized \<and> serving s \<and> ev = Silent \<and>
      (\<exists>wire n. decode_message wire = Inr (In_notification n) \<and> note_method n = ''notifications/initialized'')"
      using o opened r(2) by (auto simp: control_def)
  qed
qed

lemma dispatch_needs_handshake_witness: "protocol demo6 = await_initialized \<and> protocol demo7 = ready"
proof -
  have "server_step tape demo6 Silent demo7"
    using message [OF demo_up(2,5) demo7_receive] by (simp add: control_def demo7_state)
  from dispatch_needs_handshake [OF this] show ?thesis by (simp add: demo7_state demo6_state)
qed



end
