(* ===== verification/Json_Lexer.thy ===== *)
theory Json_Lexer
  imports Rendering Float64
begin

text \<open>
  The lexer of nlohmann::json (json.hpp, class lexer) without comments: the bytes not yet
  read are a list, \<open>get\<close> takes its head, \<open>unget\<close> puts it back. A scan function returns its
  token, with the value the lexer keeps for it, and the bytes left. The error texts and the
  line and column counters, which only appear in messages, are left out.
\<close>

unbundle bit_operations_syntax

datatype token =
    T_true | T_false | T_null
  | T_string string
  | T_unsigned "64 word"
  | T_integer "64 word"
  | T_float "64 word"
  | T_begin_array | T_begin_object | T_end_array | T_end_object
  | T_name_separator | T_value_separator
  | T_error
  | T_end_of_input

subsection \<open>Strings\<close>

definition hex_value :: "char \<Rightarrow> nat option" where
  "hex_value c =
     (if 48 \<le> byte c \<and> byte c \<le> 57 then Some (byte c - 0x30)
      else if 65 \<le> byte c \<and> byte c \<le> 70 then Some (byte c - 0x37)
      else if 97 \<le> byte c \<and> byte c \<le> 102 then Some (byte c - 0x57)
      else None)"

text \<open>The loop of \<open>get_codepoint\<close> over the remaining shift counts; \<open>None\<close> is its result -1.\<close>

fun codepoint_from :: "nat list \<Rightarrow> nat \<Rightarrow> string \<Rightarrow> (nat \<times> string) option" where
  "codepoint_from [] cp s = Some (cp, s)"
| "codepoint_from (f # fs) cp [] = None"
| "codepoint_from (f # fs) cp (c # s) =
     (case hex_value c of None \<Rightarrow> None | Some d \<Rightarrow> codepoint_from fs (cp + push_bit f d) s)"

definition get_codepoint :: "string \<Rightarrow> (nat \<times> string) option" where
  "get_codepoint s = codepoint_from [12, 8, 4, 0] 0 s"

text \<open>The bytes of a code point.\<close>

definition codepoint_bytes :: "nat \<Rightarrow> string" where
  "codepoint_bytes cp =
     (if cp < 0x80 then [char_of cp]
      else if cp \<le> 0x7FF then [char_of (0xC0 OR drop_bit 6 cp), char_of (0x80 OR (cp AND 0x3F))]
      else if cp \<le> 0xFFFF then
        [char_of (0xE0 OR drop_bit 12 cp), char_of (0x80 OR (drop_bit 6 cp AND 0x3F)), char_of (0x80 OR (cp AND 0x3F))]
      else [char_of (0xF0 OR drop_bit 18 cp), char_of (0x80 OR (drop_bit 12 cp AND 0x3F)),
            char_of (0x80 OR (drop_bit 6 cp AND 0x3F)), char_of (0x80 OR (cp AND 0x3F))])"

text \<open>After \<open>\u\<close>: one code unit, or a pair of surrogates.\<close>

definition scan_unicode :: "string \<Rightarrow> (string \<times> string) option" where
  "scan_unicode s =
     (case get_codepoint s of
        None \<Rightarrow> None
      | Some (cp1, s1) \<Rightarrow>
          if 0xD800 \<le> cp1 \<and> cp1 \<le> 0xDBFF then
            (case s1 of
               b # u # s2 \<Rightarrow>
                 if b = backslash \<and> u = CHR ''u'' then
                   (case get_codepoint s2 of
                      None \<Rightarrow> None
                    | Some (cp2, s3) \<Rightarrow>
                        if 0xDC00 \<le> cp2 \<and> cp2 \<le> 0xDFFF
                        then Some (codepoint_bytes (push_bit 10 cp1 + cp2 - 0x35FDC00), s3)
                        else None)
                 else None
             | _ \<Rightarrow> None)
          else if 0xDC00 \<le> cp1 \<and> cp1 \<le> 0xDFFF then None
          else Some (codepoint_bytes cp1, s1))"

text \<open>After a backslash: the bytes added to the token and what is left.\<close>

definition scan_escape :: "string \<Rightarrow> (string \<times> string) option" where
  "scan_escape s =
     (case s of
        [] \<Rightarrow> None
      | c # s1 \<Rightarrow>
          if c = quote then Some ([quote], s1)
          else if c = backslash then Some ([backslash], s1)
          else if c = CHR ''/'' then Some (''/'', s1)
          else if c = CHR ''b'' then Some ([CHR 0x08], s1)
          else if c = CHR ''f'' then Some ([CHR 0x0C], s1)
          else if c = CHR ''n'' then Some ([CHR 0x0A], s1)
          else if c = CHR ''r'' then Some ([CHR 0x0D], s1)
          else if c = CHR ''t'' then Some ([CHR 0x09], s1)
          else if c = CHR ''u'' then scan_unicode s1
          else None)"

text \<open>
  \<open>next_byte_in_range\<close>: the bytes after the current one, one in each range, and what is left.
\<close>

fun next_byte_in_range :: "(nat \<times> nat) list \<Rightarrow> string \<Rightarrow> (string \<times> string) option" where
  "next_byte_in_range [] s = Some ([], s)"
| "next_byte_in_range (r # rs) [] = None"
| "next_byte_in_range (r # rs) (c # s) =
     (if fst r \<le> byte c \<and> byte c \<le> snd r
      then (case next_byte_in_range rs s of None \<Rightarrow> None | Some (bs, s') \<Rightarrow> Some (c # bs, s'))
      else None)"

text \<open>The cases of a lead byte from 0x80 on: the ranges its sequence must have.\<close>

definition lead_ranges :: "nat \<Rightarrow> (nat \<times> nat) list option" where
  "lead_ranges b =
     (if 0xC2 \<le> b \<and> b \<le> 0xDF then Some [(0x80, 0xBF)]
      else if b = 0xE0 then Some [(0xA0, 0xBF), (0x80, 0xBF)]
      else if (0xE1 \<le> b \<and> b \<le> 0xEC) \<or> b = 0xEE \<or> b = 0xEF then Some [(0x80, 0xBF), (0x80, 0xBF)]
      else if b = 0xED then Some [(0x80, 0x9F), (0x80, 0xBF)]
      else if b = 0xF0 then Some [(0x90, 0xBF), (0x80, 0xBF), (0x80, 0xBF)]
      else if 0xF1 \<le> b \<and> b \<le> 0xF3 then Some [(0x80, 0xBF), (0x80, 0xBF), (0x80, 0xBF)]
      else if b = 0xF4 then Some [(0x80, 0x8F), (0x80, 0xBF), (0x80, 0xBF)]
      else None)"

lemma codepoint_from_length: "codepoint_from fs cp s = Some (n, s') \<Longrightarrow> length s' \<le> length s"
  by (induction fs cp s rule: codepoint_from.induct) (auto split: option.splits)

lemma scan_unicode_length: "scan_unicode s = Some (bs, s') \<Longrightarrow> length s' \<le> length s"
  by (auto simp: scan_unicode_def get_codepoint_def split: option.splits if_splits list.splits
      dest!: codepoint_from_length)

lemma scan_escape_length: "scan_escape s = Some (bs, s') \<Longrightarrow> length s' \<le> length s"
  by (auto simp: scan_escape_def split: list.splits if_splits dest!: scan_unicode_length)

lemma next_byte_in_range_length: "next_byte_in_range rs s = Some (bs, s') \<Longrightarrow> length s' \<le> length s"
  by (induction rs s arbitrary: bs s' rule: next_byte_in_range.induct)
     (auto split: if_splits option.splits dest: le_SucI)

text \<open>The cases of the switch for control characters, which must be escaped, and for plain ASCII.\<close>

definition control_character :: "char \<Rightarrow> bool" where
  "control_character c \<longleftrightarrow> byte c < 0x20"

definition plain_character :: "char \<Rightarrow> bool" where
  "plain_character c \<longleftrightarrow> 0x20 \<le> byte c \<and> byte c < 0x80 \<and> c \<noteq> quote \<and> c \<noteq> backslash"

text \<open>\<open>scan_string\<close> after the opening quote; \<open>buf\<close> is \<open>token_buffer\<close>.\<close>

function scan_string :: "string \<Rightarrow> string \<Rightarrow> token \<times> string" where
  "scan_string buf [] = (T_error, [])"
| "scan_string buf (c # s) =
     (if c = quote then (T_string buf, s)
      else if c = backslash then
        (case scan_escape s of None \<Rightarrow> (T_error, s) | Some (bs, s') \<Rightarrow> scan_string (buf @ bs) s')
      else if control_character c then (T_error, s)
      else if plain_character c then scan_string (buf @ [c]) s
      else case lead_ranges (byte c) of
          None \<Rightarrow> (T_error, s)
        | Some rs \<Rightarrow>
            (case next_byte_in_range rs s of
               None \<Rightarrow> (T_error, s)
             | Some (bs, s') \<Rightarrow> scan_string (buf @ c # bs) s'))"
  by pat_completeness auto
termination
  by (relation "measure (\<lambda>(buf, s). length s)") (auto dest: scan_escape_length next_byte_in_range_length)

subsection \<open>Numbers\<close>

text \<open>The states are the labels of \<open>scan_number\<close>, the types those of \<open>number_type\<close>.\<close>

datatype number_state = N_minus | N_zero | N_any1 | N_decimal1 | N_decimal2 | N_exponent | N_sign | N_any2

datatype number_type = Num_unsigned | Num_integer | Num_float

definition enter_state :: "number_state \<Rightarrow> number_type \<Rightarrow> number_type" where
  "enter_state st nt =
     (case st of N_minus \<Rightarrow> Num_integer | N_decimal1 \<Rightarrow> Num_float | N_exponent \<Rightarrow> Num_float | _ \<Rightarrow> nt)"

definition exponent_mark :: "char \<Rightarrow> bool" where
  "exponent_mark c \<longleftrightarrow> c = CHR ''e'' \<or> c = CHR ''E''"

definition next_minus :: "char \<Rightarrow> number_state option" where
  "next_minus c = (if c = CHR ''0'' then Some N_zero else if is_digit c then Some N_any1 else None)"

definition next_zero :: "char \<Rightarrow> number_state option" where
  "next_zero c = (if c = CHR ''.'' then Some N_decimal1 else if exponent_mark c then Some N_exponent else None)"

definition next_any1 :: "char \<Rightarrow> number_state option" where
  "next_any1 c =
     (if is_digit c then Some N_any1 else if c = CHR ''.'' then Some N_decimal1
      else if exponent_mark c then Some N_exponent else None)"

definition next_decimal1 :: "char \<Rightarrow> number_state option" where
  "next_decimal1 c = (if is_digit c then Some N_decimal2 else None)"

definition next_decimal2 :: "char \<Rightarrow> number_state option" where
  "next_decimal2 c = (if is_digit c then Some N_decimal2 else if exponent_mark c then Some N_exponent else None)"

definition next_exponent :: "char \<Rightarrow> number_state option" where
  "next_exponent c =
     (if c = CHR ''+'' \<or> c = CHR ''-'' then Some N_sign else if is_digit c then Some N_any2 else None)"

definition next_sign :: "char \<Rightarrow> number_state option" where
  "next_sign c = (if is_digit c then Some N_any2 else None)"

definition next_any2 :: "char \<Rightarrow> number_state option" where
  "next_any2 c = (if is_digit c then Some N_any2 else None)"

definition number_next :: "number_state \<Rightarrow> char \<Rightarrow> number_state option" where
  "number_next st c =
     (case st of
        N_minus \<Rightarrow> next_minus c | N_zero \<Rightarrow> next_zero c | N_any1 \<Rightarrow> next_any1 c
      | N_decimal1 \<Rightarrow> next_decimal1 c | N_decimal2 \<Rightarrow> next_decimal2 c
      | N_exponent \<Rightarrow> next_exponent c | N_sign \<Rightarrow> next_sign c | N_any2 \<Rightarrow> next_any2 c)"

lemmas number_next_defs = number_next_def next_minus_def next_zero_def next_any1_def next_decimal1_def
  next_decimal2_def next_exponent_def next_sign_def next_any2_def exponent_mark_def

text \<open>In the states that accept, any other character or the end of the input ends the number.\<close>

definition number_accepts :: "number_state \<Rightarrow> bool" where
  "number_accepts st \<longleftrightarrow> st \<in> {N_zero, N_any1, N_decimal2, N_any2}"

fun number_from :: "number_state \<Rightarrow> number_type \<Rightarrow> string \<Rightarrow> string \<Rightarrow> (number_type \<times> string) option \<times> string" where
  "number_from st nt buf [] = (if number_accepts st then Some (nt, buf) else None, [])"
| "number_from st nt buf (c # s) =
     (case number_next st c of
        Some st' \<Rightarrow> number_from st' (enter_state st' nt) (buf @ [c]) s
      | None \<Rightarrow> (if number_accepts st then Some (nt, buf) else None, c # s))"

text \<open>
  The conversions of the C library on a buffer with the format of a JSON number:
  \<open>strtoull\<close> and \<open>strtoll\<close> fail out of range; \<open>strtod\<close> rounds the exact value to the nearest
  double and gives an infinity when that is out of range.
\<close>

definition digits_value :: "string \<Rightarrow> nat" where
  "digits_value s = foldl (\<lambda>v c. v * 10 + (byte c - 48)) 0 s"

definition strtoull :: "string \<Rightarrow> 64 word option" where
  "strtoull s = (if digits_value s < 2 ^ 64 then Some (word_of_nat (digits_value s)) else None)"

definition strtoll :: "string \<Rightarrow> 64 word option" where
  "strtoll s =
     (if s \<noteq> [] \<and> hd s = CHR ''-''
      then (if digits_value (tl s) \<le> 2 ^ 63 then Some (- word_of_nat (digits_value (tl s))) else None)
      else (if digits_value s < 2 ^ 63 then Some (word_of_nat (digits_value s)) else None))"

text \<open>The parts of a numeral: integer digits, fraction digits, exponent.\<close>

definition numeral_value :: "string \<Rightarrow> rat" where
  "numeral_value s =
     (let i = takeWhile is_digit s; r = dropWhile is_digit s;
          f = (case r of c # r' \<Rightarrow> if c = CHR ''.'' then takeWhile is_digit r' else [] | [] \<Rightarrow> []);
          r = (case r of c # r' \<Rightarrow> if c = CHR ''.'' then dropWhile is_digit r' else r | [] \<Rightarrow> []);
          x = (case r of
                 e # c # r' \<Rightarrow> if c = CHR ''-'' then - int (digits_value r')
                              else if c = CHR ''+'' then int (digits_value r') else int (digits_value (c # r'))
               | _ \<Rightarrow> 0) - int (length f);
          m = of_nat (digits_value (i @ f))
      in if 0 \<le> x then m * 10 ^ nat x else m / 10 ^ nat (- x))"

definition f64_bits :: "rat \<Rightarrow> int" where
  "f64_bits q =
     (case f64_round q of
        None \<Rightarrow> 0x7FF0000000000000
      | Some r \<Rightarrow>
          if r = 0 then 0
          else if bexp r < - 1022 then \<lfloor>r / pow2 (- 1074)\<rfloor>
          else (bexp r + 1023) * 2 ^ 52 + (\<lfloor>r / pow2 (bexp r - 52)\<rfloor> - 2 ^ 52))"

definition strtod :: "string \<Rightarrow> 64 word" where
  "strtod s =
     (if s \<noteq> [] \<and> hd s = CHR ''-'' then word_of_int (2 ^ 63 + f64_bits (numeral_value (tl s)))
      else word_of_int (f64_bits (numeral_value s)))"

definition number_token :: "number_type \<Rightarrow> string \<Rightarrow> token" where
  "number_token nt buf =
     (case nt of
        Num_unsigned \<Rightarrow> (case strtoull buf of Some x \<Rightarrow> T_unsigned x | None \<Rightarrow> T_float (strtod buf))
      | Num_integer \<Rightarrow> (case strtoll buf of Some x \<Rightarrow> T_integer x | None \<Rightarrow> T_float (strtod buf))
      | Num_float \<Rightarrow> T_float (strtod buf))"

text \<open>\<open>scan_number\<close>, entered with its first character already read.\<close>

definition scan_number :: "char \<Rightarrow> string \<Rightarrow> token \<times> string" where
  "scan_number c s =
     (let st = (if c = CHR ''-'' then N_minus else if c = CHR ''0'' then N_zero else N_any1) in
      case number_from st (enter_state st Num_unsigned) [c] s of
        (Some (nt, buf), s') \<Rightarrow> (number_token nt buf, s')
      | (None, s') \<Rightarrow> (T_error, s'))"

subsection \<open>Tokens\<close>

fun scan_literal :: "string \<Rightarrow> token \<Rightarrow> string \<Rightarrow> token \<times> string" where
  "scan_literal [] t s = (t, s)"
| "scan_literal (l # ls) t [] = (T_error, [])"
| "scan_literal (l # ls) t (c # s) = (if c = l then scan_literal ls t s else (T_error, s))"

definition json_space :: "char \<Rightarrow> bool" where
  "json_space c \<longleftrightarrow> c = CHR '' '' \<or> c = CHR 0x09 \<or> c = CHR 0x0A \<or> c = CHR 0x0D"

text \<open>\<open>None\<close>: an incomplete byte order mark.\<close>

definition skip_bom :: "string \<Rightarrow> string option" where
  "skip_bom s =
     (case s of
        c # r \<Rightarrow> if byte c = 0xEF then
                   (case r of d # e # r' \<Rightarrow> if byte d = 0xBB \<and> byte e = 0xBF then Some r' else None | _ \<Rightarrow> None)
                 else Some s
      | [] \<Rightarrow> Some [])"

text \<open>\<open>scan\<close> once the byte order mark has been dealt with.\<close>

definition scan_token :: "string \<Rightarrow> token \<times> string" where
  "scan_token s =
     (case dropWhile json_space s of
        [] \<Rightarrow> (T_end_of_input, [])
      | c # r \<Rightarrow>
          if c = CHR ''['' then (T_begin_array, r)
          else if c = CHR '']'' then (T_end_array, r)
          else if c = CHR ''{'' then (T_begin_object, r)
          else if c = CHR ''}'' then (T_end_object, r)
          else if c = CHR '':'' then (T_name_separator, r)
          else if c = CHR '','' then (T_value_separator, r)
          else if c = CHR ''t'' then scan_literal ''rue'' T_true r
          else if c = CHR ''f'' then scan_literal ''alse'' T_false r
          else if c = CHR ''n'' then scan_literal ''ull'' T_null r
          else if c = quote then scan_string [] r
          else if c = CHR ''-'' \<or> is_digit c then scan_number c r
          else if c = CHR 0x00 then (T_end_of_input, r)
          else (T_error, r))"

text \<open>The first call of \<open>scan\<close>, the one that finds \<open>chars_read_total\<close> zero.\<close>

definition scan_first :: "string \<Rightarrow> token \<times> string" where
  "scan_first s = (case skip_bom s of None \<Rightarrow> (T_error, s) | Some s' \<Rightarrow> scan_token s')"

subsection \<open>Every token but the end of the input consumes a byte\<close>

lemma scan_string_length: "scan_string buf s = (t, s') \<Longrightarrow> length s' \<le> length s"
proof (induction buf s rule: scan_string.induct)
  case (2 buf c s)
  have esc: "length s' \<le> Suc (length s)" if "scan_escape s = Some (bs, s1)" "c = backslash" for bs s1
    using 2 that scan_escape_length [OF that(1)] by fastforce
  have seq: "length s' \<le> Suc (length s)"
    if "lead_ranges (byte c) = Some rs" "next_byte_in_range rs s = Some (bs, s1)"
      "c \<noteq> quote" "c \<noteq> backslash" "\<not> control_character c" "\<not> plain_character c" for rs bs s1
    using 2 that next_byte_in_range_length [OF that(2)] by fastforce
  show ?case
    using 2 esc seq by (auto split: if_splits option.splits)
qed simp

lemma number_from_length: "number_from st nt buf s = (r, s') \<Longrightarrow> length s' \<le> length s"
  by (induction st nt buf s rule: number_from.induct) (auto split: option.splits)

lemma scan_literal_length: "scan_literal ls t s = (t', s') \<Longrightarrow> length s' \<le> length s"
  by (induction ls t s rule: scan_literal.induct) (auto split: if_splits)

definition token_weight :: "token \<Rightarrow> nat" where
  "token_weight t = (if t = T_end_of_input \<or> t = T_error then 0 else 1)"

lemma scan_token_length: "scan_token s = (t, s') \<Longrightarrow> length s' + token_weight t \<le> length s"
proof -
  assume "scan_token s = (t, s')"
  moreover have "length (dropWhile json_space s) \<le> length s" by (rule length_dropWhile_le)
  ultimately show ?thesis
    by (auto simp: scan_token_def token_weight_def scan_number_def split: list.splits if_splits prod.splits option.splits
        dest!: scan_string_length number_from_length scan_literal_length)
qed

end
