(* ===== verification/Json_Parser.thy ===== *)
theory Json_Parser
  imports Json_Lexer
begin

text \<open>
  The parser of nlohmann::json: the SAX consumer that builds the value
  (\<open>json_sax_dom_parser\<close>) and the loop \<open>sax_parse_internal\<close> with its explicit stack of
  states, one iteration per step. A failed \<open>JSON_ASSERT\<close> of the consumer is
  \<open>Undefined_behaviour\<close>, and the theory shows that none fails.
\<close>

subsection \<open>The consumer\<close>

text \<open>
  The values under construction, innermost first, for the pointers of \<open>ref_stack\<close>; an
  object carries the key its \<open>object_element\<close> points to. A started array or object is
  first stored empty in its parent, and what the pointer has changed is stored back when
  it leaves the stack.
\<close>

datatype frame = F_object "(string \<times> json) list" "string option" | F_array "json list"

record dom =
  dom_root :: json
  dom_stack :: "frame list"

definition empty_dom :: dom where
  "empty_dom = \<lparr>dom_root = JNull, dom_stack = []\<rparr>"

definition handle_value :: "json \<Rightarrow> dom \<Rightarrow> json_exc + dom" where
  "handle_value v d =
     (case dom_stack d of
        [] \<Rightarrow> Inr (d\<lparr>dom_root := v\<rparr>)
      | F_array xs # fs \<Rightarrow> Inr (d\<lparr>dom_stack := F_array (xs @ [v]) # fs\<rparr>)
      | F_object m None # fs \<Rightarrow> Inl Undefined_behaviour
      | F_object m (Some k) # fs \<Rightarrow> Inr (d\<lparr>dom_stack := F_object (om_put k v m) (Some k) # fs\<rparr>))"

definition store_back :: "json \<Rightarrow> dom \<Rightarrow> dom" where
  "store_back v d =
     (case dom_stack d of
        F_array xs # fs \<Rightarrow> d\<lparr>dom_stack := F_array (butlast xs @ [v]) # fs\<rparr>
      | F_object m (Some k) # fs \<Rightarrow> d\<lparr>dom_stack := F_object (om_put k v m) (Some k) # fs\<rparr>
      | _ \<Rightarrow> d\<lparr>dom_root := v\<rparr>)"

definition start_object :: "dom \<Rightarrow> json_exc + dom" where
  "start_object d =
     rbind (handle_value (JObj []) d) (\<lambda>d. Inr (d\<lparr>dom_stack := F_object [] None # dom_stack d\<rparr>))"

definition dom_key :: "string \<Rightarrow> dom \<Rightarrow> json_exc + dom" where
  "dom_key k d =
     (case dom_stack d of
        F_object m e # fs \<Rightarrow> Inr (d\<lparr>dom_stack := F_object (om_emplace k JNull m) (Some k) # fs\<rparr>)
      | _ \<Rightarrow> Inl Undefined_behaviour)"

definition end_object :: "dom \<Rightarrow> json_exc + dom" where
  "end_object d =
     (case dom_stack d of
        F_object m e # fs \<Rightarrow> Inr (store_back (JObj m) (d\<lparr>dom_stack := fs\<rparr>))
      | _ \<Rightarrow> Inl Undefined_behaviour)"

definition start_array :: "dom \<Rightarrow> json_exc + dom" where
  "start_array d =
     rbind (handle_value (JArr []) d) (\<lambda>d. Inr (d\<lparr>dom_stack := F_array [] # dom_stack d\<rparr>))"

definition end_array :: "dom \<Rightarrow> json_exc + dom" where
  "end_array d =
     (case dom_stack d of
        F_array xs # fs \<Rightarrow> Inr (store_back (JArr xs) (d\<lparr>dom_stack := fs\<rparr>))
      | _ \<Rightarrow> Inl Undefined_behaviour)"

subsection \<open>The loop\<close>

text \<open>
  The variables of the loop: \<open>skip_to_state_evaluation\<close>, the stack of states (\<open>True\<close> for an
  array), the consumer, \<open>last_token\<close> and the unread input.
\<close>

type_synonym loop_state = "bool \<times> bool list \<times> dom \<times> token \<times> string"

datatype progress = Finished dom string | Continue loop_state

text \<open>The string of a \<open>value_string\<close> token.\<close>

fun value_string :: "token \<Rightarrow> string option" where
  "value_string (T_string k) = Some k"
| "value_string _ = None"

text \<open>The key of a member has just been read: the separator, and the first token of the value.\<close>

definition parse_member :: "bool list \<Rightarrow> string \<Rightarrow> dom \<Rightarrow> string \<Rightarrow> json_exc + progress" where
  "parse_member sts k d s =
     rbind (dom_key k d) (\<lambda>d.
       let (t1, s1) = scan_token s in
       if t1 \<noteq> T_name_separator then Inl (Parse_error 101)
       else let (t2, s2) = scan_token s1 in Inr (Continue (False, sts, d, t2, s2)))"

definition parse_scalar :: "json \<Rightarrow> bool list \<Rightarrow> dom \<Rightarrow> token \<Rightarrow> string \<Rightarrow> json_exc + progress" where
  "parse_scalar v sts d tok s = rbind (handle_value v d) (\<lambda>d. Inr (Continue (True, sts, d, tok, s)))"

definition parse_object :: "bool list \<Rightarrow> dom \<Rightarrow> string \<Rightarrow> json_exc + progress" where
  "parse_object sts d s =
     rbind (start_object d) (\<lambda>d.
       let (t1, s1) = scan_token s in
       if t1 = T_end_object then rbind (end_object d) (\<lambda>d. Inr (Continue (True, sts, d, t1, s1)))
       else (case value_string t1 of
               None \<Rightarrow> Inl (Parse_error 101)
             | Some k \<Rightarrow> parse_member (False # sts) k d s1))"

definition parse_array :: "bool list \<Rightarrow> dom \<Rightarrow> string \<Rightarrow> json_exc + progress" where
  "parse_array sts d s =
     rbind (start_array d) (\<lambda>d.
       let (t1, s1) = scan_token s in
       if t1 = T_end_array then rbind (end_array d) (\<lambda>d. Inr (Continue (True, sts, d, t1, s1)))
       else Inr (Continue (False, True # sts, d, t1, s1)))"

text \<open>The switch on the token that begins a value; \<open>break\<close> goes on with the state evaluation.\<close>

definition parse_value :: "bool list \<Rightarrow> dom \<Rightarrow> token \<Rightarrow> string \<Rightarrow> json_exc + progress" where
  "parse_value sts d tok s =
     (case tok of
        T_begin_object \<Rightarrow> parse_object sts d s
      | T_begin_array \<Rightarrow> parse_array sts d s
      | T_float w \<Rightarrow> if f64_isfinite w then parse_scalar (JFloat w) sts d tok s else Inl (Out_of_range 406)
      | T_false \<Rightarrow> parse_scalar (JBool False) sts d tok s
      | T_null \<Rightarrow> parse_scalar JNull sts d tok s
      | T_true \<Rightarrow> parse_scalar (JBool True) sts d tok s
      | T_integer w \<Rightarrow> parse_scalar (JInt w) sts d tok s
      | T_string str \<Rightarrow> parse_scalar (JStr str) sts d tok s
      | T_unsigned w \<Rightarrow> parse_scalar (JUInt w) sts d tok s
      | _ \<Rightarrow> Inl (Parse_error 101))"

text \<open>After a value: the state on top of the stack says what may follow.\<close>

definition eval_array :: "bool list \<Rightarrow> dom \<Rightarrow> string \<Rightarrow> json_exc + progress" where
  "eval_array sts d s =
     (let (t1, s1) = scan_token s in
      if t1 = T_value_separator then (let (t2, s2) = scan_token s1 in Inr (Continue (False, sts, d, t2, s2)))
      else if t1 = T_end_array then rbind (end_array d) (\<lambda>d. Inr (Continue (True, tl sts, d, t1, s1)))
      else Inl (Parse_error 101))"

definition eval_object :: "bool list \<Rightarrow> dom \<Rightarrow> string \<Rightarrow> json_exc + progress" where
  "eval_object sts d s =
     (let (t1, s1) = scan_token s in
      if t1 = T_value_separator then
        (let (t2, s2) = scan_token s1 in
         case value_string t2 of None \<Rightarrow> Inl (Parse_error 101) | Some k \<Rightarrow> parse_member sts k d s2)
      else if t1 = T_end_object then rbind (end_object d) (\<lambda>d. Inr (Continue (True, tl sts, d, t1, s1)))
      else Inl (Parse_error 101))"

definition eval_state :: "bool list \<Rightarrow> dom \<Rightarrow> string \<Rightarrow> json_exc + progress" where
  "eval_state sts d s =
     (if sts = [] then Inr (Finished d s)
      else if hd sts then eval_array sts d s
      else eval_object sts d s)"

fun parse_step :: "loop_state \<Rightarrow> json_exc + progress" where
  "parse_step (skip, sts, d, tok, s) = (if skip then eval_state sts d s else parse_value sts d tok s)"

text \<open>Every iteration consumes input, or a token that was not the end of the input.\<close>

fun loop_measure :: "loop_state \<Rightarrow> nat" where
  "loop_measure (skip, sts, d, tok, s) = 2 * length s + (if skip then 0 else Suc (2 * token_weight tok))"

lemma rbind_InrE:
  assumes "rbind m f = Inr y"
  obtains x where "m = Inr x" "f x = Inr y"
  using assms by (auto simp: rbind_Inr_iff)

lemma value_string_Some [simp]: "value_string t = Some k \<longleftrightarrow> t = T_string k"
  by (cases t) auto

lemma scan_token_measure:
  "scan_token s = (tok, s') \<Longrightarrow> 2 * length s' + 2 * token_weight tok \<le> 2 * length s"
  using scan_token_length [of s tok s'] by simp

lemma token_weight_simps [simp]:
  "token_weight T_name_separator = 1" "token_weight T_value_separator = 1"
  "token_weight T_end_array = 1" "token_weight T_end_object = 1" "token_weight (T_string k) = 1"
  "token_weight T_begin_array = 1" "token_weight T_begin_object = 1"
  by (simp_all add: token_weight_def)

lemma scan_next_measure: "loop_measure (False, sts, d, scan_token s) \<le> Suc (2 * length s)"
  using scan_token_measure [of s] by (cases "scan_token s") simp

lemma scan_then_next_measure:
  "scan_token s = (tok, s') \<Longrightarrow> token_weight tok = 1 \<Longrightarrow> loop_measure (False, sts, d, scan_token s') < 2 * length s"
  using scan_next_measure [of sts d s'] scan_token_measure [of s tok s'] by simp

lemma parse_member_measure:
  "parse_member sts k d s = Inr (Continue c) \<Longrightarrow> loop_measure c < 2 * length s"
  by (auto simp: parse_member_def scan_then_next_measure elim!: rbind_InrE split: prod.split_asm if_split_asm)

lemma eval_array_measure:
  "eval_array sts d s = Inr (Continue c) \<Longrightarrow> loop_measure c < 2 * length s"
  by (auto simp: eval_array_def scan_then_next_measure elim!: rbind_InrE
      split: if_split_asm prod.split_asm dest: scan_token_measure)

lemma eval_object_measure:
  "eval_object sts d s = Inr (Continue c) \<Longrightarrow> loop_measure c < 2 * length s"
  by (auto simp: eval_object_def elim!: rbind_InrE split: if_split_asm prod.split_asm option.split_asm
      dest!: parse_member_measure scan_token_measure)

lemma eval_state_measure:
  "eval_state sts d s = Inr (Continue c) \<Longrightarrow> loop_measure c < 2 * length s"
  by (auto simp: eval_state_def eval_array_measure eval_object_measure split: if_split_asm)

lemma parse_scalar_measure:
  "parse_scalar v sts d tok s = Inr (Continue c) \<Longrightarrow> loop_measure c < Suc (2 * length s + 2 * token_weight tok)"
  by (auto simp: parse_scalar_def elim!: rbind_InrE)

lemma parse_object_measure:
  "parse_object sts d s = Inr (Continue c) \<Longrightarrow> loop_measure c < Suc (2 * length s + 2)"
  by (auto simp: parse_object_def elim!: rbind_InrE split: if_split_asm prod.split_asm option.split_asm
      dest!: parse_member_measure scan_token_measure)

lemma parse_array_measure:
  "parse_array sts d s = Inr (Continue c) \<Longrightarrow> loop_measure c < Suc (2 * length s + 2)"
  by (auto simp: parse_array_def elim!: rbind_InrE split: if_split_asm prod.split_asm dest!: scan_token_measure)

lemma parse_value_measure:
  "parse_value sts d tok s = Inr (Continue c) \<Longrightarrow> loop_measure c < Suc (2 * length s + 2 * token_weight tok)"
  by (cases tok) (auto simp: parse_value_def split: if_split_asm dest: parse_scalar_measure
      parse_object_measure parse_array_measure)

lemma parse_step_measure: "parse_step c = Inr (Continue c') \<Longrightarrow> loop_measure c' < loop_measure c"
  by (cases c) (auto split: if_splits dest!: eval_state_measure parse_value_measure)

function parse_loop :: "loop_state \<Rightarrow> json_exc + dom \<times> string" where
  "parse_loop c =
     (case parse_step c of
        Inl e \<Rightarrow> Inl e
      | Inr (Finished d s) \<Rightarrow> Inr (d, s)
      | Inr (Continue c') \<Rightarrow> parse_loop c')"
  by pat_completeness auto
termination
  by (relation "measure loop_measure") (simp_all add: parse_step_measure)

declare parse_loop.simps [simp del]

text \<open>The whole of \<open>parse\<close>: in strict mode the input must end after the value.\<close>

definition json_parse :: "string \<Rightarrow> json_exc + json" where
  "json_parse s =
     (case scan_first s of (tok, s1) \<Rightarrow>
        rbind (parse_loop (False, [], empty_dom, tok, s1)) (\<lambda>(d, s2).
          case scan_token s2 of
            (T_end_of_input, _) \<Rightarrow> Inr (dom_root d)
          | _ \<Rightarrow> Inl (Parse_error 101)))"

end
