(* ===== verification/Parser_Safety.thy ===== *)
theory Parser_Safety
  imports Json_Parser
begin

text \<open>
  What the parser guarantees on every input: no assertion of its consumer fails, it fails
  only with \<open>parse_error.101\<close> or \<open>out_of_range.406\<close>, and a value it returns is textual:
  objects are sorted maps, strings and keys are well-formed UTF-8, doubles are finite, and
  there is neither binary nor discarded value in it.
\<close>

fun textual :: "json \<Rightarrow> bool" where
  "textual (JObj m) = (om_wf m \<and> (\<forall>kv \<in> set m. utf8_valid (fst kv) \<and> textual (snd kv)))"
| "textual (JArr xs) = (\<forall>x \<in> set xs. textual x)"
| "textual (JStr s) = utf8_valid s"
| "textual (JFloat w) = f64_isfinite w"
| "textual (JBin _ _) = False"
| "textual JDiscarded = False"
| "textual _ = True"

text \<open>
  What the parser returns is more special: a number is kept as a signed integer only when
  its text has a minus sign.
\<close>

fun parsed :: "json \<Rightarrow> bool" where
  "parsed (JObj m) = (om_wf m \<and> (\<forall>kv \<in> set m. utf8_valid (fst kv) \<and> parsed (snd kv)))"
| "parsed (JArr xs) = (\<forall>x \<in> set xs. parsed x)"
| "parsed (JStr s) = utf8_valid s"
| "parsed (JFloat w) = f64_isfinite w"
| "parsed (JInt w) = (sint w \<le> 0)"
| "parsed (JBin _ _) = False"
| "parsed JDiscarded = False"
| "parsed _ = True"

lemma parsed_textual: "parsed v \<Longrightarrow> textual v"
  by (induction v) force+

lemma textual_wf: "textual v \<Longrightarrow> json_wf v"
  by (induction v) force+

lemma textual_strings: "textual v \<Longrightarrow> strings_valid v"
  by (induction v) force+

subsection \<open>Strings of the lexer are well-formed UTF-8\<close>

lemma utf8_valid_snoc_bytes: "utf8_valid a \<Longrightarrow> utf8_valid b \<Longrightarrow> utf8_valid (a @ b)"
  by (simp add: utf8_valid_append)

lemma lead_ranges_tail: "0x80 \<le> b \<Longrightarrow> lead_ranges b = utf8_tail b"
  by (auto simp: lead_ranges_def utf8_tail_def)

lemma next_byte_in_range_follow:
  "next_byte_in_range rs s = (case follow rs s of None \<Rightarrow> None | Some s' \<Rightarrow> Some (take (length rs) s, s'))"
  by (induction rs s rule: next_byte_in_range.induct) (auto split: option.splits)

lemma follow_take: "follow rs s = Some s' \<Longrightarrow> follow rs (take (length rs) s) = Some []"
  by (induction rs s rule: follow.induct) (auto split: if_splits)

lemma sequence_valid:
  "0x80 \<le> byte c \<Longrightarrow> lead_ranges (byte c) = Some rs \<Longrightarrow> next_byte_in_range rs s = Some (bs, s') \<Longrightarrow> utf8_valid (c # bs)"
  by (auto simp: lead_ranges_tail next_byte_in_range_follow follow_take split: option.splits)

lemma codepoint_from_bound:
  "codepoint_from fs cp s = Some (n, s') \<Longrightarrow> n \<le> cp + sum_list (map (\<lambda>f. push_bit f 15) fs)"
proof (induction fs cp s rule: codepoint_from.induct)
  case (3 f fs cp c s)
  then obtain d where d: "hex_value c = Some d" "codepoint_from fs (cp + push_bit f d) s = Some (n, s')"
    by (auto split: option.splits)
  have "d \<le> 15" using d(1) by (auto simp: hex_value_def split: if_splits)
  then have "push_bit f d \<le> push_bit f 15" by (simp add: push_bit_eq_mult)
  with "3.IH" [OF d] show ?case by simp
qed auto

lemma get_codepoint_bound: "get_codepoint s = Some (n, s') \<Longrightarrow> n \<le> 0xFFFF"
  using codepoint_from_bound [of "[12, 8, 4, 0]" 0 s n s'] by (simp add: get_codepoint_def push_bit_eq_mult)

text \<open>The encoder's bit operations as arithmetic.\<close>

lemma or_add: "n < 2 ^ k \<Longrightarrow> (a * 2 ^ k OR n :: nat) = a * 2 ^ k + n"
proof -
  assume "n < 2 ^ k"
  then have n: "n = take_bit k n" by (simp add: take_bit_nat_eq_self)
  have "push_bit k a OR take_bit k n = push_bit k a + take_bit k n"
    by (rule disjunctive_add [symmetric]) (auto simp: bit_simps)
  then show ?thesis using n by (simp add: push_bit_eq_mult)
qed

lemma or_lead:
  "n < 64 \<Longrightarrow> (0x80 OR n :: nat) = 0x80 + n" "n < 32 \<Longrightarrow> (0xC0 OR n :: nat) = 0xC0 + n"
  "n < 16 \<Longrightarrow> (0xE0 OR n :: nat) = 0xE0 + n" "n < 8 \<Longrightarrow> (0xF0 OR n :: nat) = 0xF0 + n"
  using or_add [of n 6 2] or_add [of n 5 6] or_add [of n 4 14] or_add [of n 3 30] by simp_all

lemma and_3F: "(n AND 0x3F :: nat) = n mod 64"
  using take_bit_eq_mask [of 6 n] by (simp add: mask_eq_exp_minus_1 take_bit_eq_mod)

lemma codepoint_bytes_arith:
  "codepoint_bytes cp =
     (if cp < 0x80 then [char_of cp]
      else if cp \<le> 0x7FF then [char_of (0xC0 + cp div 64), char_of (0x80 + cp mod 64)]
      else if cp \<le> 0xFFFF then
        [char_of (0xE0 + cp div 4096), char_of (0x80 + cp div 64 mod 64), char_of (0x80 + cp mod 64)]
      else [char_of (0xF0 OR cp div 262144), char_of (0x80 + cp div 4096 mod 64),
            char_of (0x80 + cp div 64 mod 64), char_of (0x80 + cp mod 64)])"
  by (simp add: codepoint_bytes_def and_3F drop_bit_eq_div or_lead)

lemma two_byte_valid:
  "2 \<le> a \<Longrightarrow> a < 32 \<Longrightarrow> b < 64 \<Longrightarrow> utf8_valid [char_of (0xC0 + a :: nat), char_of (0x80 + b :: nat)]"
  by (simp add: utf8_tail_def)

lemma three_byte_valid:
  "a < 16 \<Longrightarrow> b < 64 \<Longrightarrow> c < 64 \<Longrightarrow> (a = 0 \<longrightarrow> 32 \<le> b) \<Longrightarrow> (a = 13 \<longrightarrow> b < 32) \<Longrightarrow>
   utf8_valid [char_of (0xE0 + a :: nat), char_of (0x80 + b :: nat), char_of (0x80 + c :: nat)]"
  by (cases "a = 0"; cases "a = 13") (simp_all add: utf8_tail_def)

lemma four_byte_valid:
  "a < 5 \<Longrightarrow> b < 64 \<Longrightarrow> c < 64 \<Longrightarrow> e < 64 \<Longrightarrow> (a = 0 \<longrightarrow> 16 \<le> b) \<Longrightarrow> (a = 4 \<longrightarrow> b < 16) \<Longrightarrow>
   utf8_valid [char_of (0xF0 + a :: nat), char_of (0x80 + b :: nat), char_of (0x80 + c :: nat), char_of (0x80 + e :: nat)]"
  by (cases "a = 0"; cases "a = 4") (simp_all add: utf8_tail_def)

lemma codepoint_bytes_valid:
  assumes "cp \<le> 0x10FFFF" "\<not> (0xD800 \<le> cp \<and> cp \<le> 0xDFFF)"
  shows "utf8_valid (codepoint_bytes cp)"
proof -
  define r q m a n b where "r = cp mod 64" and "q = cp div 64" and "m = q mod 64" and "a = q div 64"
    and "n = a mod 64" and "b = a div 64"
  have eqs: "cp = 64 * q + r" "q = 64 * a + m" "a = 64 * b + n" "r < 64" "m < 64" "n < 64"
    by (simp_all add: r_def q_def m_def a_def n_def b_def)
  have divs: "cp mod 64 = r" "cp div 64 = q" "q mod 64 = m" "cp div 4096 = a" "a mod 64 = n" "cp div 262144 = b"
    by (simp_all add: r_def q_def m_def a_def n_def b_def div_mult2_eq [symmetric])
  note bytes = codepoint_bytes_arith [of cp, unfolded divs]
  consider "cp < 0x80" | "0x80 \<le> cp" "cp \<le> 0x7FF" | "0x7FF < cp" "cp \<le> 0xFFFF" | "0xFFFF < cp" by linarith
  then show ?thesis
  proof cases
    case 1
    then show ?thesis by (simp add: bytes utf8_tail_def)
  next
    case 2
    then have "2 \<le> q" "q < 32" using eqs by linarith+
    then show ?thesis using 2 two_byte_valid [of q r] eqs(4) by (simp add: bytes)
  next
    case 3
    then have "a < 16" "a = 0 \<longrightarrow> 32 \<le> m" "a = 13 \<longrightarrow> m < 32" using eqs assms(2) by linarith+
    then show ?thesis using 3 three_byte_valid [of a m r] eqs(4,5) by (simp add: bytes)
  next
    case 4
    then have "b < 5" "b = 0 \<longrightarrow> 16 \<le> n" "b = 4 \<longrightarrow> n < 16" using eqs assms(1) by linarith+
    then show ?thesis using 4 four_byte_valid [of b n m r] or_lead(4) [of b] eqs(4-6) by (simp add: bytes)
  qed
qed

lemma scan_unicode_valid: "scan_unicode s = Some (bs, s') \<Longrightarrow> utf8_valid bs"
  by (auto simp: scan_unicode_def push_bit_eq_mult intro!: codepoint_bytes_valid
      split: option.splits if_splits list.splits dest!: get_codepoint_bound) linarith

lemma scan_escape_valid: "scan_escape s = Some (bs, s') \<Longrightarrow> utf8_valid bs"
  by (auto simp: scan_escape_def utf8_tail_def split: list.splits if_splits dest!: scan_unicode_valid)

lemma scan_string_valid: "scan_string buf s = (T_string k, s') \<Longrightarrow> utf8_valid buf \<Longrightarrow> utf8_valid k"
proof (induction buf s rule: scan_string.induct)
  case (2 buf c s)
  have esc: ?case if "scan_escape s = Some (bs, s1)" "c = backslash" for bs s1
    using 2 that scan_escape_valid [OF that(1)] by (auto simp: utf8_valid_append)
  have seq: ?case
    if "lead_ranges (byte c) = Some rs" "next_byte_in_range rs s = Some (bs, s1)"
      "c \<noteq> quote" "c \<noteq> backslash" "\<not> control_character c" "\<not> plain_character c" for rs bs s1
    using 2 that sequence_valid [of c rs s bs s1]
    by (auto simp: utf8_valid_append control_character_def plain_character_def simp del: utf8_valid.simps)
  have ascii: "utf8_valid (buf @ [c])" if "plain_character c"
    using that 2(5) by (simp add: utf8_valid_append utf8_tail_def plain_character_def)
  show ?case
    using 2 esc seq ascii by (auto split: if_splits option.splits)
qed simp

definition token_textual :: "token \<Rightarrow> bool" where
  "token_textual t \<longleftrightarrow> (\<forall>k. t = T_string k \<longrightarrow> utf8_valid k) \<and> (\<forall>w. t = T_integer w \<longrightarrow> sint w \<le> 0)"

lemma token_textual_simps [simp]:
  "token_textual T_true" "token_textual T_false" "token_textual T_null" "token_textual (T_unsigned w)"
  "token_textual (T_integer w) \<longleftrightarrow> sint w \<le> 0" "token_textual (T_float w)" "token_textual T_begin_array"
  "token_textual T_begin_object" "token_textual T_end_array" "token_textual T_end_object"
  "token_textual T_name_separator" "token_textual T_value_separator" "token_textual T_error"
  "token_textual T_end_of_input" "token_textual (T_string k) \<longleftrightarrow> utf8_valid k"
  by (simp_all add: token_textual_def)

lemma scan_literal_textual: "token_textual t \<Longrightarrow> token_textual (fst (scan_literal ls t s))"
  by (induction ls t s rule: scan_literal.induct) simp_all

lemma negated_nat_nonpositive:
  assumes "n \<le> 2 ^ 63"
  shows "sint (- word_of_nat n :: 64 word) \<le> 0"
proof -
  have word: "(- word_of_nat n :: 64 word) = word_of_int (- int n)" by simp
  have "sint (- word_of_nat n :: 64 word) = - int n"
    unfolding word using assms by (subst sint_sbintrunc', subst signed_take_bit_int_eq_self) simp_all
  then show ?thesis by simp
qed

lemma strtoll_nonpositive: "strtoll (CHR ''-'' # s) = Some w \<Longrightarrow> sint w \<le> 0"
  using negated_nat_nonpositive by (auto simp: strtoll_def split: if_split_asm)

text \<open>The type of a number is integer only when its text begins with a minus sign.\<close>

lemma number_from_minus:
  assumes "number_from st nt buf s = (Some (Num_integer, buf'), s')"
    and "nt = Num_integer \<Longrightarrow> hd buf = CHR ''-''" "buf \<noteq> []"
  shows "buf' \<noteq> [] \<and> hd buf' = CHR ''-''"
  using assms
proof (induction st nt buf s rule: number_from.induct)
  case (2 st nt buf c s)
  have enter: "enter_state st' nt = Num_integer \<Longrightarrow> nt = Num_integer" if "number_next st c = Some st'" for st'
    using that by (cases st; cases st') (auto simp: enter_state_def number_next_defs split: if_split_asm)
  show ?case
    using 2 enter by (auto split: option.splits if_split_asm)
qed (auto split: if_split_asm)

lemma number_token_textual:
  "(nt = Num_integer \<Longrightarrow> buf \<noteq> [] \<and> hd buf = CHR ''-'') \<Longrightarrow> token_textual (number_token nt buf)"
  by (cases nt; cases "strtoull buf"; cases "strtoll buf"; cases buf)
    (auto simp: number_token_def intro: strtoll_nonpositive)

lemma scan_number_textual: "token_textual (fst (scan_number c s))"
proof -
  let ?st = "if c = CHR ''-'' then N_minus else if c = CHR ''0'' then N_zero else N_any1"
  obtain r s' where r: "number_from ?st (enter_state ?st Num_unsigned) [c] s = (r, s')" by force
  have "hd [c] = CHR ''-''" if "enter_state ?st Num_unsigned = Num_integer"
    using that by (simp add: enter_state_def split: if_split_asm)
  then have "buf \<noteq> [] \<and> hd buf = CHR ''-''" if "r = Some (Num_integer, buf)" for buf
    using number_from_minus [OF r [unfolded that]] by blast
  then show ?thesis unfolding scan_number_def Let_def r
    by (cases r) (auto intro!: number_token_textual)
qed

lemma scan_string_no_integer: "fst (scan_string buf s) \<noteq> T_integer w"
  by (induction buf s rule: scan_string.induct) (auto split: option.split)

lemma scan_string_textual: "token_textual (fst (scan_string [] s))"
  using scan_string_valid [of "[]" s _ "snd (scan_string [] s)"] scan_string_no_integer [of "[]" s]
  by (cases "scan_string [] s") (simp add: token_textual_def)

lemma scan_token_fst_textual: "token_textual (fst (scan_token s))"
  unfolding scan_token_def
  by (simp add: if_distrib [of fst] if_distrib [of token_textual] scan_literal_textual scan_number_textual
      scan_string_textual split: list.split split del: if_split cong del: if_weak_cong)

lemma scan_token_textual: "scan_token s = (t, s') \<Longrightarrow> token_textual t"
  using scan_token_fst_textual [of s] by simp

lemma scan_first_textual: "scan_first s = (t, s') \<Longrightarrow> token_textual t"
  by (auto simp: scan_first_def token_textual_def [of T_error] split: option.splits dest: scan_token_textual)

subsection \<open>The invariant of the loop\<close>

definition members_textual :: "(string \<times> json) list \<Rightarrow> bool" where
  "members_textual m \<longleftrightarrow> om_wf m \<and> (\<forall>kv \<in> set m. utf8_valid (fst kv) \<and> parsed (snd kv))"

fun frame_ok :: "bool \<Rightarrow> frame \<Rightarrow> bool" where
  "frame_ok st (F_array xs) \<longleftrightarrow> st \<and> (\<forall>x \<in> set xs. parsed x)"
| "frame_ok st (F_object m None) \<longleftrightarrow> False"
| "frame_ok st (F_object m (Some k)) \<longleftrightarrow> \<not> st \<and> members_textual m \<and> utf8_valid k"

definition dom_ok :: "bool list \<Rightarrow> dom \<Rightarrow> bool" where
  "dom_ok sts d \<longleftrightarrow> list_all2 frame_ok sts (dom_stack d) \<and> parsed (dom_root d)"

fun loop_inv :: "loop_state \<Rightarrow> bool" where
  "loop_inv (skip, sts, d, tok, s) \<longleftrightarrow> dom_ok sts d \<and> token_textual tok"

lemma members_textual_put:
  "members_textual m \<Longrightarrow> utf8_valid k \<Longrightarrow> parsed v \<Longrightarrow> members_textual (om_put k v m)"
  by (auto simp: members_textual_def dest!: in_set_om_put)

lemma members_textual_emplace:
  "members_textual m \<Longrightarrow> utf8_valid k \<Longrightarrow> members_textual (om_emplace k JNull m)"
  by (simp add: om_emplace_def members_textual_put)

lemma dom_ok_cases:
  assumes "dom_ok sts d"
  obtains "sts = []" "dom_stack d = []" "parsed (dom_root d)"
  | xs fs sts' where "sts = True # sts'" "dom_stack d = F_array xs # fs" "\<forall>x \<in> set xs. parsed x"
      "dom_ok sts' (d\<lparr>dom_stack := fs\<rparr>)"
  | m k fs sts' where "sts = False # sts'" "dom_stack d = F_object m (Some k) # fs" "members_textual m" "utf8_valid k"
      "dom_ok sts' (d\<lparr>dom_stack := fs\<rparr>)"
proof (cases "dom_stack d")
  case Nil
  then show ?thesis using assms that(1) by (simp add: dom_ok_def)
next
  case (Cons fr fs)
  then obtain st sts' where sts: "sts = st # sts'" "frame_ok st fr" "dom_ok sts' (d\<lparr>dom_stack := fs\<rparr>)"
    using assms by (auto simp: dom_ok_def list_all2_Cons2)
  show ?thesis
  proof (cases fr)
    case (F_object m e)
    then show ?thesis using that(3) Cons sts by (cases e) auto
  next
    case (F_array xs)
    then show ?thesis using that(2) Cons sts by auto
  qed
qed

lemma handle_value_ok:
  "dom_ok sts d \<Longrightarrow> parsed v \<Longrightarrow> \<exists>d'. handle_value v d = Inr d' \<and> dom_ok sts d'"
  by (erule dom_ok_cases) (auto simp: handle_value_def dom_ok_def members_textual_put)

lemma store_back_ok: "dom_ok sts d \<Longrightarrow> parsed v \<Longrightarrow> dom_ok sts (store_back v d)"
  by (erule dom_ok_cases) (auto simp: store_back_def dom_ok_def members_textual_put dest!: in_set_butlastD)

lemma start_object_ok:
  "dom_ok sts d \<Longrightarrow> \<exists>d'. start_object d = Inr (d'\<lparr>dom_stack := F_object [] None # dom_stack d'\<rparr>) \<and> dom_ok sts d'"
  using handle_value_ok [of sts d "JObj []"] by (auto simp: start_object_def)

lemma start_array_ok:
  "dom_ok sts d \<Longrightarrow> \<exists>d'. start_array d = Inr (d'\<lparr>dom_stack := F_array [] # dom_stack d'\<rparr>) \<and> dom_ok sts d'"
  using handle_value_ok [of sts d "JArr []"] by (auto simp: start_array_def)

lemma textual_members: "parsed (JObj m) \<longleftrightarrow> members_textual m"
  by (simp add: members_textual_def)

lemma end_object_ok:
  "dom_ok (False # sts) d \<Longrightarrow> \<exists>d'. end_object d = Inr d' \<and> dom_ok sts d'"
  by (erule dom_ok_cases) (auto simp: end_object_def textual_members simp del: parsed.simps intro!: store_back_ok)

lemma end_array_ok:
  "dom_ok (True # sts) d \<Longrightarrow> \<exists>d'. end_array d = Inr d' \<and> dom_ok sts d'"
  by (erule dom_ok_cases) (auto simp: end_array_def intro!: store_back_ok)

lemma dom_key_ok:
  "dom_ok (False # sts) d \<Longrightarrow> utf8_valid k \<Longrightarrow> \<exists>d'. dom_key k d = Inr d' \<and> dom_ok (False # sts) d'"
  by (erule dom_ok_cases) (auto simp: dom_key_def dom_ok_def members_textual_emplace)

subsection \<open>One iteration keeps the invariant, and fails only with a documented error\<close>

definition parse_failure :: "json_exc \<Rightarrow> bool" where
  "parse_failure e \<longleftrightarrow> e = Parse_error 101 \<or> e = Out_of_range 406"

fun progress_ok :: "json_exc + progress \<Rightarrow> bool" where
  "progress_ok (Inl e) \<longleftrightarrow> parse_failure e"
| "progress_ok (Inr (Finished d s)) \<longleftrightarrow> dom_ok [] d"
| "progress_ok (Inr (Continue c)) \<longleftrightarrow> loop_inv c"

lemma parse_failure_simps [simp]: "parse_failure (Parse_error 101)" "parse_failure (Out_of_range 406)"
  by (simp_all add: parse_failure_def)

lemma progress_ok_next: "dom_ok sts d \<Longrightarrow> progress_ok (Inr (Continue (False, sts, d, scan_token s)))"
  using scan_token_textual [of s] by (cases "scan_token s") simp

lemma parse_member_ok:
  "dom_ok (False # sts) d \<Longrightarrow> utf8_valid k \<Longrightarrow> progress_ok (parse_member (False # sts) k d s)"
  using dom_key_ok [of sts d k]
  by (auto simp: parse_member_def progress_ok_next simp del: progress_ok.simps(3) split: prod.split)

lemma parse_scalar_ok: "dom_ok sts d \<Longrightarrow> parsed v \<Longrightarrow> token_textual tok \<Longrightarrow> progress_ok (parse_scalar v sts d tok s)"
  using handle_value_ok [of sts d v] by (auto simp: parse_scalar_def)

lemma parse_object_ok:
  assumes "dom_ok sts d"
  shows "progress_ok (parse_object sts d s)"
proof -
  obtain d' where d': "start_object d = Inr (d'\<lparr>dom_stack := F_object [] None # dom_stack d'\<rparr>)" "dom_ok sts d'"
    using start_object_ok [OF assms] by blast
  let ?d = "d'\<lparr>dom_stack := F_object [] None # dom_stack d'\<rparr>"
  have close: "end_object ?d = Inr (store_back (JObj []) d')" by (simp add: end_object_def)
  have key: "\<exists>e. dom_key k ?d = Inr e \<and> dom_ok (False # sts) e" if "utf8_valid k" for k
    using d'(2) that by (auto simp: dom_key_def dom_ok_def om_emplace_def members_textual_def om_wf_Cons)
  have member: "progress_ok (parse_member (False # sts) k ?d s1)" if "utf8_valid k" for k s1
    using key [OF that]
    by (auto simp: parse_member_def progress_ok_next simp del: progress_ok.simps(3) split: prod.split)
  obtain t s1 where t: "scan_token s = (t, s1)" by force
  then have "token_textual t" by (rule scan_token_textual)
  then show ?thesis
    using d' close member store_back_ok [OF d'(2), of "JObj []"]
    by (auto simp: parse_object_def t split: option.split)
qed

lemma parse_array_ok:
  assumes "dom_ok sts d"
  shows "progress_ok (parse_array sts d s)"
proof -
  obtain d' where d': "start_array d = Inr (d'\<lparr>dom_stack := F_array [] # dom_stack d'\<rparr>)" "dom_ok sts d'"
    using start_array_ok [OF assms] by blast
  let ?d = "d'\<lparr>dom_stack := F_array [] # dom_stack d'\<rparr>"
  have started: "dom_ok (True # sts) ?d" using d'(2) by (simp add: dom_ok_def)
  obtain t s1 where t: "scan_token s = (t, s1)" by force
  then have "token_textual t" by (rule scan_token_textual)
  then show ?thesis
    using d' started end_array_ok [OF started] by (auto simp: parse_array_def t)
qed

lemma parse_value_ok: "dom_ok sts d \<Longrightarrow> token_textual tok \<Longrightarrow> progress_ok (parse_value sts d tok s)"
  by (cases tok) (auto simp: parse_value_def parse_scalar_ok parse_object_ok parse_array_ok)

lemma eval_array_ok:
  assumes "dom_ok (True # sts) d"
  shows "progress_ok (eval_array (True # sts) d s)"
proof -
  obtain t s1 where t: "scan_token s = (t, s1)" by force
  show ?thesis using assms end_array_ok [OF assms] progress_ok_next [OF assms, of s1]
    by (auto simp: eval_array_def t split: prod.split)
qed

lemma eval_object_ok:
  assumes "dom_ok (False # sts) d"
  shows "progress_ok (eval_object (False # sts) d s)"
proof -
  obtain t s1 where t: "scan_token s = (t, s1)" by force
  obtain t2 s2 where t2: "scan_token s1 = (t2, s2)" by force
  then have "token_textual t2" by (rule scan_token_textual)
  then show ?thesis using assms end_object_ok [OF assms] parse_member_ok [OF assms]
    by (auto simp: eval_object_def t t2 split: option.split)
qed

lemma eval_state_ok: "dom_ok sts d \<Longrightarrow> progress_ok (eval_state sts d s)"
proof (cases sts)
  case (Cons st outer)
  assume "dom_ok sts d"
  then show ?thesis using Cons eval_array_ok [of outer d s] eval_object_ok [of outer d s]
    by (cases st) (auto simp: eval_state_def)
qed (simp add: eval_state_def)

lemma parse_step_ok: "loop_inv c \<Longrightarrow> progress_ok (parse_step c)"
  by (cases c) (auto simp: eval_state_ok parse_value_ok)

lemma parse_loop_ok:
  "loop_inv c \<Longrightarrow> (case parse_loop c of Inl e \<Rightarrow> parse_failure e | Inr (d, s) \<Rightarrow> dom_ok [] d)"
proof (induction c rule: parse_loop.induct)
  case (1 c)
  have step: "progress_ok (parse_step c)" using 1(2) by (rule parse_step_ok)
  show ?case
  proof (cases "parse_step c")
    case (Inl e)
    then show ?thesis using step by (simp add: parse_loop.simps [of c])
  next
    case (Inr p)
    then show ?thesis using step 1(1) [OF Inr]
      by (cases p) (auto simp: parse_loop.simps [of c])
  qed
qed

lemma loop_inv_start: "scan_first s = (tok, s1) \<Longrightarrow> loop_inv (False, [], empty_dom, tok, s1)"
  using scan_first_textual [of s tok s1] by (simp add: dom_ok_def empty_dom_def)

lemma json_parse_parsed:
  "case json_parse s of Inl e \<Rightarrow> parse_failure e | Inr v \<Rightarrow> parsed v"
proof -
  obtain tok s1 where first: "scan_first s = (tok, s1)" by force
  show ?thesis
    using parse_loop_ok [OF loop_inv_start [OF first]]
    by (auto simp: json_parse_def first rbind_def dom_ok_def split: sum.splits prod.splits token.splits)
qed

lemma json_parse_ok:
  "case json_parse s of Inl e \<Rightarrow> parse_failure e | Inr v \<Rightarrow> textual v"
  using json_parse_parsed [of s] parsed_textual by (auto split: sum.splits)

end
