(* ===== verification/Parser_Roundtrip.thy ===== *)
theory Parser_Roundtrip
  imports Parser_Safety
begin

text \<open>
  The parser undoes the serializer: the compact rendering of a textual value is parsed back
  to the value, up to the one thing the text does not carry, whether a non-negative integer
  was stored signed or unsigned.
\<close>

text \<open>What \<open>parse\<close> makes of an integer stored as \<open>number_integer\<close>.\<close>

fun canon :: "json \<Rightarrow> json" where
  "canon (JObj m) = JObj (map (\<lambda>(k, v). (k, canon v)) m)"
| "canon (JArr xs) = JArr (map canon xs)"
| "canon (JInt w) = (if 0 \<le> sint w then JUInt w else JInt w)"
| "canon v = v"

text \<open>The characters that may follow a value in the compact rendering.\<close>

definition ends :: "string \<Rightarrow> bool" where
  "ends t \<longleftrightarrow> (case t of [] \<Rightarrow> True | c # _ \<Rightarrow> c = CHR '','' \<or> c = CHR '']'' \<or> c = CHR ''}'')"

text \<open>
  What is assumed of the float printer, on the doubles of the value only: its text scans as
  the same double.
\<close>

fun floats :: "json \<Rightarrow> 64 word list" where
  "floats (JObj m) = concat (map (\<lambda>kv. floats (snd kv)) m)"
| "floats (JArr xs) = concat (map floats xs)"
| "floats (JFloat w) = [w]"
| "floats _ = []"

definition exact_float :: "float_printer \<Rightarrow> 64 word \<Rightarrow> bool" where
  "exact_float fc w \<longleftrightarrow> (\<forall>t. ends t \<longrightarrow> scan_token (fc w @ t) = (T_float w, t))"

subsection \<open>Strings\<close>

lemma hex_value_digit: "n < 16 \<Longrightarrow> hex_value (hex_digit n) = Some n"
  by (auto simp: hex_value_def hex_digit_def)

lemma get_codepoint_hex4: "n < 0x10000 \<Longrightarrow> get_codepoint (hex4 n @ s) = Some (n, s)"
proof -
  assume "n < 0x10000"
  then have "n div 4096 mod 16 = n div 4096" by simp
  moreover have "n div 4096 * 4096 + n div 256 mod 16 * 256 + n div 16 mod 16 * 16 + n mod 16 = n"
  proof -
    have "n = 16 * (n div 16) + n mod 16" "n div 16 = 16 * (n div 256) + n div 16 mod 16"
      "n div 256 = 16 * (n div 4096) + n div 256 mod 16"
      using div_mult2_eq [of n 16 16] div_mult2_eq [of n 256 16] by simp_all
    then show ?thesis by linarith
  qed
  ultimately show ?thesis
    using \<open>n < 0x10000\<close> by (simp add: get_codepoint_def hex4_def hex_value_digit push_bit_eq_mult)
qed

lemma scan_unicode_control: "n < 0x80 \<Longrightarrow> scan_unicode (hex4 n @ s) = Some ([char_of n], s)"
  by (simp add: scan_unicode_def get_codepoint_hex4 codepoint_bytes_def)

lemma simple_escape_cases:
  "simple_escape x = Some e \<Longrightarrow>
   (x, e) \<in> {(0x08, CHR ''b''), (0x09, CHR ''t''), (0x0A, CHR ''n''), (0x0C, CHR ''f''), (0x0D, CHR ''r''),
     (0x22, quote), (0x5C, backslash)}"
  by (simp add: simple_escape_def split: if_split_asm)

lemma scan_escape_pairs:
  "(n, e) \<in> {(0x08, CHR ''b''), (0x09, CHR ''t''), (0x0A, CHR ''n''), (0x0C, CHR ''f''), (0x0D, CHR ''r''),
     (0x22, quote), (0x5C, backslash)} \<Longrightarrow> scan_escape (e # s) = Some ([char_of (n :: nat)], s)"
  by (elim insertE emptyE; simp add: scan_escape_def char_of_def bit_0)

lemma scan_escape_simple: "simple_escape (of_nat (byte c)) = Some e \<Longrightarrow> scan_escape (e # s) = Some ([c], s)"
proof -
  let ?x = "of_nat (byte c) :: 32 word"
  assume "simple_escape ?x = Some e"
  then have "(?x, e) \<in> {(0x08, CHR ''b''), (0x09, CHR ''t''), (0x0A, CHR ''n''), (0x0C, CHR ''f''), (0x0D, CHR ''r''),
     (0x22, quote), (0x5C, backslash)}" by (rule simple_escape_cases)
  then have "(unat ?x, e) \<in> {(0x08, CHR ''b''), (0x09, CHR ''t''), (0x0A, CHR ''n''), (0x0C, CHR ''f''), (0x0D, CHR ''r''),
     (0x22, quote), (0x5C, backslash)}" by (elim insertE emptyE) simp_all
  then have "scan_escape (e # s) = Some ([char_of (unat ?x)], s)" by (rule scan_escape_pairs)
  moreover have "unat ?x = byte c" by (simp add: unat_of_nat byte_mod)
  ultimately show ?thesis by simp
qed

lemma scan_string_escape_byte:
  assumes "byte c < 0x80"
  shows "scan_string buf (escape_byte c @ s) = scan_string (buf @ [c]) s"
proof (cases "simple_escape (of_nat (byte c))")
  case (Some e)
  then show ?thesis by (simp add: escape_byte_def scan_escape_simple [OF Some])
next
  case None
  show ?thesis
  proof (cases "byte c < 32")
    case True
    then have "scan_escape (CHR ''u'' # hex4 (byte c) @ s) = Some ([c], s)"
      by (simp add: scan_escape_def scan_unicode_control)
    then show ?thesis using True None by (simp add: escape_byte_def)
  next
    case False
    have "c \<noteq> quote" "c \<noteq> backslash" using None by (auto simp: simple_escape_def)
    then show ?thesis using False None assms
      by (simp add: escape_byte_def control_character_def plain_character_def)
  qed
qed

lemma high_not_special: "0x80 \<le> byte c \<Longrightarrow> c \<noteq> quote \<and> c \<noteq> backslash"
  by auto

lemma follow_split: "follow rs s = Some s' \<Longrightarrow> s = take (length rs) s @ s'"
proof (induction rs s rule: follow.induct)
  case (3 r rs c s)
  then show ?case by (simp split: if_splits)
qed simp_all

lemma escape_split:
  "follow rs s = Some s' \<Longrightarrow> high_tail rs \<Longrightarrow> escape s = take (length rs) s @ escape s'"
  by (induction rs s rule: follow.induct) (auto simp: high_tail_def escape_byte_high split: if_splits)

lemma scan_string_escape:
  "utf8_valid k \<Longrightarrow> scan_string buf (escape k @ quote # t) = (T_string (buf @ k), t)"
proof (induction k arbitrary: buf rule: utf8_valid.induct)
  case (2 c s)
  then obtain rs s' where rs: "utf8_tail (byte c) = Some rs" "follow rs s = Some s'" "utf8_valid s'"
    by (auto split: option.splits)
  with 2 have IH: "scan_string b (escape s' @ quote # t) = (T_string (b @ s'), t)" for b by blast
  show ?case
  proof (cases "byte c < 0x80")
    case True
    then have "s' = s" using rs by (simp add: utf8_tail_def)
    then show ?thesis using IH True by (simp add: scan_string_escape_byte)
  next
    case False
    then have lead: "lead_ranges (byte c) = Some rs" using rs(1) lead_ranges_tail by simp
    let ?bs = "take (length rs) s"
    have high: "high_tail rs" using rs(1) by (rule utf8_tail_high)
    have "follow rs (escape s @ quote # t) = Some (escape s' @ quote # t)"
      using follow_append [OF follow_escape [OF rs(2) high]] .
    moreover have "follow rs ?bs = Some []" using rs(2) by (rule follow_take)
    moreover have "escape s = ?bs @ escape s'" using rs(2) high by (rule escape_split)
    moreover have "length ?bs = length rs" using follow_length [OF rs(2)] by simp
    ultimately have "next_byte_in_range rs (escape s @ quote # t) = Some (?bs, escape s' @ quote # t)"
      by (simp add: next_byte_in_range_follow)
    then show ?thesis
      using False lead high_not_special [of c] IH [of "buf @ c # ?bs"] follow_split [OF rs(2)]
      by (simp add: escape_byte_high control_character_def plain_character_def)
  qed
qed simp

subsection \<open>Tokens of rendered values\<close>

lemma scan_token_string: "utf8_valid k \<Longrightarrow> scan_token (render_string k @ t) = (T_string k, t)"
  using scan_string_escape [of k "[]" t]
  by (simp add: scan_token_def render_string_def json_space_def)

lemma scan_token_punctuation [simp]:
  "scan_token (CHR ''['' # t) = (T_begin_array, t)" "scan_token (CHR '']'' # t) = (T_end_array, t)"
  "scan_token (CHR ''{'' # t) = (T_begin_object, t)" "scan_token (CHR ''}'' # t) = (T_end_object, t)"
  "scan_token (CHR '':'' # t) = (T_name_separator, t)" "scan_token (CHR '','' # t) = (T_value_separator, t)"
  by (simp_all add: scan_token_def json_space_def)

lemma scan_token_literal:
  "scan_token (''null'' @ t) = (T_null, t)" "scan_token (''true'' @ t) = (T_true, t)"
  "scan_token (''false'' @ t) = (T_false, t)"
  by (simp_all add: scan_token_def json_space_def)

lemma scan_token_number:
  "is_digit c \<or> c = CHR ''-'' \<Longrightarrow> scan_token (c # s) = scan_number c s"
proof -
  assume c: "is_digit c \<or> c = CHR ''-''"
  have "\<not> is_digit d \<and> d \<noteq> CHR ''-''"
    if "d \<in> {CHR ''['', CHR '']'', CHR ''{'', CHR ''}'', CHR '':'', CHR '','', CHR ''t'', CHR ''f'', CHR ''n'', quote,
      CHR '' '', CHR 0x09, CHR 0x0A, CHR 0x0D}" for d
    using that by (elim insertE emptyE) (simp_all add: is_digit_def)
  then have "c \<notin> {CHR ''['', CHR '']'', CHR ''{'', CHR ''}'', CHR '':'', CHR '','', CHR ''t'', CHR ''f'', CHR ''n'', quote,
      CHR '' '', CHR 0x09, CHR 0x0A, CHR 0x0D}" using c by blast
  moreover have "c = CHR ''-'' \<or> is_digit c" using c by blast
  ultimately show ?thesis by (simp add: scan_token_def json_space_def)
qed

subsection \<open>Integers\<close>

lemma digits_value_snoc: "digits_value (s @ [c]) = digits_value s * 10 + (byte c - 48)"
  by (simp add: digits_value_def)

lemma digits_value_dec: "digits_value (dec n) = n"
proof (induction n rule: dec.induct)
  case (1 n)
  show ?case
  proof (cases "n < 10")
    case True
    then show ?thesis by (simp add: dec_small digits_value_def)
  next
    case False
    then show ?thesis using 1 by (simp add: dec_step digits_value_snoc)
  qed
qed

lemma dec_hd: "0 < n \<Longrightarrow> hd (dec n) \<noteq> CHR ''0''"
proof (induction n rule: dec.induct)
  case (1 n)
  show ?case
  proof (cases "n < 10")
    case True
    have "digit_char n \<noteq> CHR ''0''"
    proof
      assume "digit_char n = CHR ''0''"
      then have "byte (digit_char n) = byte CHR ''0''" by (rule arg_cong)
      then show False using True 1(2) by simp
    qed
    then show ?thesis using True by (simp add: dec_small)
  next
    case False
    then show ?thesis using 1 by (simp add: dec_step)
  qed
qed

lemma ends_number:
  "ends t \<Longrightarrow> st = N_zero \<or> st = N_any1 \<Longrightarrow> number_from st nt buf t = (Some (nt, buf), t)"
  by (cases t; elim disjE)
     (simp_all add: ends_def number_next_defs number_accepts_def is_digit_def Let_def, (elim disjE; simp)+)

lemma number_from_digits:
  "\<forall>c \<in> set ds. is_digit c \<Longrightarrow> ends t \<Longrightarrow> nt \<noteq> Num_float \<Longrightarrow>
   number_from N_any1 nt buf (ds @ t) = (Some (nt, buf @ ds), t)"
  by (induction ds arbitrary: buf) (simp_all add: ends_number number_next_defs enter_state_def Let_def)

lemma scan_number_unsigned:
  assumes "ends t" "dec n = c # ds"
  shows "scan_number c (ds @ t) = (number_token Num_unsigned (dec n), t)"
proof (cases "n = 0")
  case True
  then have "c = CHR ''0''" "ds = []" using assms(2) by auto
  then show ?thesis using True assms(1) by (simp add: scan_number_def enter_state_def ends_number)
next
  case False
  then have "c \<noteq> CHR ''0''" using dec_hd [of n] assms(2) by simp
  moreover have "is_digit c" "\<forall>x \<in> set ds. is_digit x" using dec_digits [of _ n] assms(2) by auto
  moreover have "c \<noteq> CHR ''-''" using \<open>is_digit c\<close> by (auto simp: is_digit_def)
  ultimately show ?thesis
    using assms by (simp add: scan_number_def enter_state_def number_from_digits)
qed

lemma scan_number_negative:
  assumes "ends t" "0 < n"
  shows "scan_number CHR ''-'' (dec n @ t) = (number_token Num_integer (CHR ''-'' # dec n), t)"
proof -
  obtain c ds where c: "dec n = c # ds" by (cases "dec n") auto
  have "c \<noteq> CHR ''0''" using dec_hd [OF assms(2)] c by simp
  moreover have "is_digit c" "\<forall>x \<in> set ds. is_digit x" using dec_digits [of _ n] c by auto
  ultimately show ?thesis
    using assms(1) by (simp add: scan_number_def c enter_state_def number_next_defs number_from_digits)
qed

lemma scan_token_unsigned: "ends t \<Longrightarrow> scan_token (dec (unat w) @ t) = (T_unsigned w, t)"
proof -
  assume t: "ends t"
  obtain c ds where c: "dec (unat w) = c # ds" by (cases "dec (unat w)") auto
  have "is_digit c" using dec_digits [of c "unat w"] c by simp
  then have "scan_token (dec (unat w) @ t) = (number_token Num_unsigned (dec (unat w)), t)"
    using scan_number_unsigned [OF t c] by (simp add: c scan_token_number)
  moreover have "unat w < 2 ^ 64" using unsigned_less [of w] by simp
  ultimately show ?thesis by (simp add: number_token_def strtoull_def digits_value_dec)
qed

lemma scan_token_signed:
  assumes "ends t" "sint w < 0"
  shows "scan_token (dec_int (sint w) @ t) = (T_integer w, t)"
proof -
  let ?n = "nat (- sint w)"
  have n: "0 < ?n" "?n \<le> 2 ^ 63" using assms(2) sint_ge [of w] by simp_all
  have "- word_of_nat ?n = (word_of_int (sint w) :: 64 word)" using assms(2) by simp
  then have w: "- word_of_nat ?n = w" by simp
  have "scan_token (CHR ''-'' # dec ?n @ t) = (number_token Num_integer (CHR ''-'' # dec ?n), t)"
    using scan_number_negative [OF assms(1) n(1)] by (simp add: scan_token_number)
  then show ?thesis
    using assms(2) n(2) w by (simp add: dec_int_def number_token_def strtoll_def digits_value_dec)
qed

subsection \<open>One value\<close>

abbreviation after :: "bool list \<Rightarrow> dom \<Rightarrow> string \<Rightarrow> loop_state" where
  "after sts d t \<equiv> (True, sts, d, T_end_of_input, t)"

lemma parse_loop_after: "parse_loop (True, sts, d, tok, t) = parse_loop (after sts d t)"
  by (simp add: parse_loop.simps [of "(True, sts, d, tok, t)"] parse_loop.simps [of "after sts d t"])

lemma parse_loop_continue: "parse_step c = Inr (Continue c') \<Longrightarrow> parse_loop c = parse_loop c'"
  by (simp add: parse_loop.simps [of c])

text \<open>
  The text \<open>r\<close> is read as the value \<open>v\<close>, wherever a value is expected and whatever delimiter
  follows: the loop stores \<open>v\<close> and goes on after the text.
\<close>

definition reads_as :: "string \<Rightarrow> json \<Rightarrow> bool" where
  "reads_as r v \<longleftrightarrow>
     (\<forall>sts d d' t. ends t \<longrightarrow> handle_value v d = Inr d' \<longrightarrow>
        (\<exists>tok s. scan_token (r @ t) = (tok, s) \<and> tok \<noteq> T_end_array \<and> tok \<noteq> T_error \<and>
           parse_loop (False, sts, d, tok, s) = parse_loop (after sts d' t)))"

lemma reads_asD:
  assumes "reads_as r v" "ends t" "handle_value v d = Inr d'"
  obtains tok s where "scan_token (r @ t) = (tok, s)" "tok \<noteq> T_end_array" "tok \<noteq> T_error"
    "parse_loop (False, sts, d, tok, s) = parse_loop (after sts d' t)"
  using assms unfolding reads_as_def by blast

lemma reads_as_scalar:
  assumes "\<And>t. ends t \<Longrightarrow> scan_token (r @ t) = (tok, t)"
    and "\<And>sts d s. parse_value sts d tok s = parse_scalar v sts d tok s" and "tok \<noteq> T_end_array" "tok \<noteq> T_error"
  shows "reads_as r v"
  unfolding reads_as_def
proof (intro allI impI exI conjI)
  fix sts d d' t
  assume "ends t" "handle_value v d = Inr d'"
  then show "scan_token (r @ t) = (tok, t)" using assms(1) by blast
  have "parse_loop (False, sts, d, tok, t) = parse_loop (True, sts, d', tok, t)"
    by (rule parse_loop_continue) (simp add: assms(2) parse_scalar_def \<open>handle_value v d = Inr d'\<close>)
  then show "parse_loop (False, sts, d, tok, t) = parse_loop (after sts d' t)"
    by (simp add: parse_loop_after [of _ _ tok])
qed (use assms in auto)

subsection \<open>Storing through the stack\<close>

lemma om_put_put: "om_put k v (om_put k u m) = om_put k v m"
  by (induction k u m rule: om_put.induct) auto

lemma om_put_emplace: "om_put k v (om_emplace k u m) = om_put k v m"
  by (simp add: om_emplace_def om_put_put)

lemma store_back_handle:
  "handle_value v d = Inr d' \<Longrightarrow> \<exists>d0. handle_value u d = Inr d0 \<and> store_back v d0 = d'"
  by (cases d; cases "dom_stack d" rule: list.exhaust)
     (auto simp: handle_value_def store_back_def om_put_put split: frame.splits option.splits)

lemma ends_simps [simp]: "ends []" "ends (CHR '','' # t)" "ends (CHR '']'' # t)" "ends (CHR ''}'' # t)"
  by (simp_all add: ends_def)

subsection \<open>Arrays\<close>

lemma parse_elements:
  assumes "\<forall>x \<in> set xs. reads_as (f x) (g x)"
  shows "parse_loop (after (True # sts) (d\<lparr>dom_stack := F_array ys # fs\<rparr>)
      (concat (map (\<lambda>x. CHR '','' # f x) xs) @ CHR '']'' # t)) =
    parse_loop (after sts (store_back (JArr (ys @ map g xs)) (d\<lparr>dom_stack := fs\<rparr>)) t)"
  using assms
proof (induction xs arbitrary: ys)
  case Nil
  have "parse_loop (after (True # sts) (d\<lparr>dom_stack := F_array ys # fs\<rparr>) (CHR '']'' # t)) =
      parse_loop (True, sts, store_back (JArr ys) (d\<lparr>dom_stack := fs\<rparr>), T_end_array, t)"
    by (rule parse_loop_continue) (simp add: eval_state_def eval_array_def end_array_def)
  then show ?case by (simp add: parse_loop_after [of _ _ T_end_array])
next
  case (Cons x xs)
  let ?d = "d\<lparr>dom_stack := F_array ys # fs\<rparr>" and ?d' = "d\<lparr>dom_stack := F_array (ys @ [g x]) # fs\<rparr>"
  let ?t = "concat (map (\<lambda>x. CHR '','' # f x) xs) @ CHR '']'' # t"
  have "handle_value (g x) ?d = Inr ?d'" by (simp add: handle_value_def)
  moreover have "ends ?t" by (cases xs) simp_all
  moreover have "reads_as (f x) (g x)" using Cons.prems by simp
  ultimately obtain tok s where s: "scan_token (f x @ ?t) = (tok, s)"
      "parse_loop (False, True # sts, ?d, tok, s) = parse_loop (after (True # sts) ?d' ?t)"
    by (blast elim: reads_asD)
  have "parse_loop (after (True # sts) ?d (CHR '','' # f x @ ?t)) = parse_loop (False, True # sts, ?d, tok, s)"
    by (rule parse_loop_continue) (simp add: eval_state_def eval_array_def s(1))
  then show ?case using s(2) Cons.IH [of "ys @ [g x]"] Cons.prems by simp
qed

lemma join_comma: "join '','' (x # xs) = x @ concat (map (\<lambda>y. CHR '','' # y) xs)"
  by (induction xs arbitrary: x) simp_all

lemma reads_as_array:
  assumes "\<forall>x \<in> set xs. reads_as (f x) (g x)"
  shows "reads_as (CHR ''['' # join '','' (map f xs) @ '']'') (JArr (map g xs))"
  unfolding reads_as_def
proof (intro allI impI exI conjI)
  fix sts d d' t
  let ?s = "join '','' (map f xs) @ CHR '']'' # t"
  show "scan_token ((CHR ''['' # join '','' (map f xs) @ '']'') @ t) = (T_begin_array, ?s)" by simp
  assume "handle_value (JArr (map g xs)) d = Inr d'"
  then obtain d0 where d0: "handle_value (JArr []) d = Inr d0" "store_back (JArr (map g xs)) d0 = d'"
    using store_back_handle by blast
  let ?d = "d0\<lparr>dom_stack := F_array [] # dom_stack d0\<rparr>"
  have start: "start_array d = Inr ?d" by (simp add: start_array_def d0)
  show "parse_loop (False, sts, d, T_begin_array, ?s) = parse_loop (after sts d' t)"
  proof (cases xs)
    case Nil
    have "parse_loop (False, sts, d, T_begin_array, ?s) = parse_loop (True, sts, d', T_end_array, t)"
      by (rule parse_loop_continue) (use Nil d0 in \<open>simp add: parse_value_def parse_array_def start end_array_def\<close>)
    then show ?thesis by (simp add: parse_loop_after [of _ _ T_end_array])
  next
    case (Cons x xs')
    let ?t = "concat (map (\<lambda>x. CHR '','' # f x) xs') @ CHR '']'' # t"
    let ?d1 = "d0\<lparr>dom_stack := F_array [g x] # dom_stack d0\<rparr>"
    have "handle_value (g x) ?d = Inr ?d1" by (simp add: handle_value_def)
    moreover have "ends ?t" by (cases xs') simp_all
    moreover have "reads_as (f x) (g x)" using assms Cons by simp
    ultimately obtain tok s where s: "scan_token (f x @ ?t) = (tok, s)" "tok \<noteq> T_end_array"
        "parse_loop (False, True # sts, ?d, tok, s) = parse_loop (after (True # sts) ?d1 ?t)"
      by (blast elim: reads_asD)
    have "?s = f x @ ?t" by (simp add: Cons join_comma comp_def)
    then have "parse_loop (False, sts, d, T_begin_array, ?s) = parse_loop (False, True # sts, ?d, tok, s)"
      by (intro parse_loop_continue) (use s in \<open>simp add: parse_value_def parse_array_def start\<close>)
    also have "\<dots> = parse_loop (after sts d' t)"
      using s(3) parse_elements [where xs = xs' and f = f and g = g and sts = sts and d = d0
            and ys = "[g x]" and fs = "dom_stack d0" and t = t] assms Cons d0(2) by simp
    finally show ?thesis .
  qed
qed simp_all

subsection \<open>Objects\<close>

definition member_text :: "('a \<Rightarrow> string) \<Rightarrow> string \<times> 'a \<Rightarrow> string" where
  "member_text f = (\<lambda>(k, v). render_string k @ '':'' @ f v)"

lemma member_text_pair [simp]: "member_text f (k, v) = render_string k @ '':'' @ f v"
  by (simp add: member_text_def)

lemma parse_member_reads:
  assumes "reads_as (f v) (g v)" "ends t" "\<forall>a \<in> fst ` set m. a < k"
  obtains c where
    "parse_member (False # sts) k (d\<lparr>dom_stack := F_object m e # fs\<rparr>) (CHR '':'' # f v @ t) = Inr (Continue c)"
    "parse_loop c = parse_loop (after (False # sts) (d\<lparr>dom_stack := F_object (m @ [(k, g v)]) (Some k) # fs\<rparr>) t)"
proof -
  let ?d = "d\<lparr>dom_stack := F_object (om_emplace k JNull m) (Some k) # fs\<rparr>"
  have "om_put k (g v) (om_emplace k JNull m) = m @ [(k, g v)]"
    using assms(3) by (simp add: om_put_emplace om_put_greater)
  then have "handle_value (g v) ?d = Inr (d\<lparr>dom_stack := F_object (m @ [(k, g v)]) (Some k) # fs\<rparr>)"
    by (simp add: handle_value_def)
  with assms(1,2) obtain tok s where s: "scan_token (f v @ t) = (tok, s)"
      "parse_loop (False, False # sts, ?d, tok, s) =
       parse_loop (after (False # sts) (d\<lparr>dom_stack := F_object (m @ [(k, g v)]) (Some k) # fs\<rparr>) t)"
    by (blast elim: reads_asD)
  show ?thesis
    by (rule that [OF _ s(2)]) (simp add: parse_member_def dom_key_def s(1))
qed

lemma parse_members:
  assumes "\<forall>kv \<in> set kvs. utf8_valid (fst kv) \<and> reads_as (f (snd kv)) (g (snd kv))"
    and "om_wf (m @ map (\<lambda>(k, v). (k, g v)) kvs)"
  shows "parse_loop (after (False # sts) (d\<lparr>dom_stack := F_object m e # fs\<rparr>)
      (concat (map (\<lambda>kv. CHR '','' # member_text f kv) kvs) @ CHR ''}'' # t)) =
    parse_loop (after sts (store_back (JObj (m @ map (\<lambda>(k, v). (k, g v)) kvs)) (d\<lparr>dom_stack := fs\<rparr>)) t)"
  using assms
proof (induction kvs arbitrary: m e)
  case Nil
  have "parse_loop (after (False # sts) (d\<lparr>dom_stack := F_object m e # fs\<rparr>) (CHR ''}'' # t)) =
      parse_loop (True, sts, store_back (JObj m) (d\<lparr>dom_stack := fs\<rparr>), T_end_object, t)"
    by (rule parse_loop_continue) (simp add: eval_state_def eval_object_def end_object_def)
  then show ?case by (simp add: parse_loop_after [of _ _ T_end_object])
next
  case (Cons kv kvs)
  obtain k v where kv: "kv = (k, v)" by force
  let ?t = "concat (map (\<lambda>kv. CHR '','' # member_text f kv) kvs) @ CHR ''}'' # t"
  let ?d = "d\<lparr>dom_stack := F_object m e # fs\<rparr>"
  have "ends ?t" by (cases kvs) simp_all
  moreover have "\<forall>a \<in> fst ` set m. a < k" using Cons.prems(2) by (auto simp: kv om_wf_append)
  moreover have "reads_as (f v) (g v)" using Cons.prems(1) by (simp add: kv)
  ultimately obtain c where c: "parse_member (False # sts) k ?d (CHR '':'' # f v @ ?t) = Inr (Continue c)"
    "parse_loop c = parse_loop (after (False # sts) (d\<lparr>dom_stack := F_object (m @ [(k, g v)]) (Some k) # fs\<rparr>) ?t)"
    by (blast elim: parse_member_reads)
  have "utf8_valid k" using Cons.prems(1) by (simp add: kv)
  then have key: "scan_token (render_string k @ s) = (T_string k, s)" for s by (rule scan_token_string)
  have "parse_loop (after (False # sts) ?d (CHR '','' # member_text f kv @ ?t)) = parse_loop c"
    by (rule parse_loop_continue) (simp add: eval_state_def eval_object_def kv key c(1))
  then show ?case
    using c(2) Cons.IH [of "m @ [(k, g v)]" "Some k"] Cons.prems by (simp add: kv)
qed

lemma reads_as_object:
  assumes "\<forall>kv \<in> set m. utf8_valid (fst kv) \<and> reads_as (f (snd kv)) (g (snd kv))"
    and "om_wf (map (\<lambda>(k, v). (k, g v)) m)"
  shows "reads_as (CHR ''{'' # join '','' (map (member_text f) m) @ ''}'') (JObj (map (\<lambda>(k, v). (k, g v)) m))"
  unfolding reads_as_def
proof (intro allI impI exI conjI)
  fix sts d d' t
  let ?v = "JObj (map (\<lambda>(k, v). (k, g v)) m)"
  let ?s = "join '','' (map (member_text f) m) @ CHR ''}'' # t"
  show "scan_token ((CHR ''{'' # join '','' (map (member_text f) m) @ ''}'') @ t) = (T_begin_object, ?s)" by simp
  assume "handle_value ?v d = Inr d'"
  then obtain d0 where d0: "handle_value (JObj []) d = Inr d0" "store_back ?v d0 = d'"
    using store_back_handle by blast
  let ?d = "d0\<lparr>dom_stack := F_object [] None # dom_stack d0\<rparr>"
  have start: "start_object d = Inr ?d" by (simp add: start_object_def d0)
  show "parse_loop (False, sts, d, T_begin_object, ?s) = parse_loop (after sts d' t)"
  proof (cases m)
    case Nil
    have "parse_loop (False, sts, d, T_begin_object, ?s) = parse_loop (True, sts, d', T_end_object, t)"
      by (rule parse_loop_continue) (use Nil d0 in \<open>simp add: parse_value_def parse_object_def start end_object_def\<close>)
    then show ?thesis by (simp add: parse_loop_after [of _ _ T_end_object])
  next
    case (Cons kv m')
    obtain k v where kv: "kv = (k, v)" by force
    let ?t = "concat (map (\<lambda>kv. CHR '','' # member_text f kv) m') @ CHR ''}'' # t"
    have "reads_as (f v) (g v)" using assms(1) by (simp add: Cons kv)
    moreover have "ends ?t" by (cases m') simp_all
    ultimately obtain c where c: "parse_member (False # sts) k ?d (CHR '':'' # f v @ ?t) = Inr (Continue c)"
      "parse_loop c = parse_loop (after (False # sts) (d0\<lparr>dom_stack := F_object ([] @ [(k, g v)]) (Some k) # dom_stack d0\<rparr>) ?t)"
      by (rule parse_member_reads [where m = "[]" and e = None and k = k and sts = sts and d = d0
            and fs = "dom_stack d0"]) auto
    have "utf8_valid k" using assms(1) by (simp add: Cons kv)
    then have key: "scan_token (render_string k @ s) = (T_string k, s)" for s by (rule scan_token_string)
    have "?s = render_string k @ CHR '':'' # f v @ ?t" by (simp add: Cons kv join_comma comp_def kv)
    then have "parse_loop (False, sts, d, T_begin_object, ?s) = parse_loop c"
      by (intro parse_loop_continue) (simp add: parse_value_def parse_object_def start key c(1))
    also have "\<dots> = parse_loop (after sts d' t)"
      using c(2) parse_members [where kvs = m' and f = f and g = g and sts = sts and d = d0
          and m = "[(k, g v)]" and e = "Some k" and fs = "dom_stack d0" and t = t] assms d0(2)
      by (simp add: Cons kv)
    finally show ?thesis .
  qed
qed simp_all

subsection \<open>Every textual value\<close>

lemma om_wf_map_snd: "om_wf m \<Longrightarrow> om_wf (map (\<lambda>(k, v). (k, g v)) m)"
  by (simp add: om_wf_def comp_def case_prod_beta')

lemma reads_as_render:
  assumes "\<forall>w \<in> set (floats v). exact_float fc w" "textual v"
  shows "reads_as (render fc v) (canon v)"
  using assms
proof (induction v)
  case (JObj m)
  have "reads_as (CHR ''{'' # join '','' (map (member_text (render fc)) m) @ ''}'') (JObj (map (\<lambda>(k, v). (k, canon v)) m))"
    using JObj by (intro reads_as_object om_wf_map_snd) (force intro: snds.intros)+
  then show ?case by (simp add: member_text_def)
next
  case (JArr xs)
  then show ?case by (simp add: reads_as_array)
next
  case (JFloat w)
  then show ?case 
    by (intro reads_as_scalar [where tok = "T_float w"]) (auto simp: exact_float_def parse_value_def)
next
  case (JInt w)
  show ?case
  proof (cases "0 \<le> sint w")
    case True
    then have "dec_int (sint w) = dec (unat w)" by (simp add: dec_int_def unat_nonneg)
    then show ?thesis using True scan_token_unsigned
      by (simp, intro reads_as_scalar [where tok = "T_unsigned w"]) (auto simp: parse_value_def)
  next
    case False
    then show ?thesis using scan_token_signed
      by (simp, intro reads_as_scalar [where tok = "T_integer w"]) (auto simp: parse_value_def)
  qed
next
  case (JUInt w)
  show ?case using scan_token_unsigned
    by (simp, intro reads_as_scalar [where tok = "T_unsigned w"]) (auto simp: parse_value_def)
next
  case (JStr s)
  then show ?case using scan_token_string
    by (simp, intro reads_as_scalar [where tok = "T_string s"]) (auto simp: parse_value_def)
next
  case (JBool b)
  show ?case
  proof (cases b)
    case True
    then show ?thesis using scan_token_literal
      by (simp, intro reads_as_scalar [where tok = T_true]) (auto simp: parse_value_def)
  next
    case False
    then show ?thesis using scan_token_literal
      by (simp, intro reads_as_scalar [where tok = T_false]) (auto simp: parse_value_def)
  qed
next
  case JNull
  show ?case using scan_token_literal
    by (simp, intro reads_as_scalar [where tok = "T_null"]) (auto simp: parse_value_def)
qed simp_all

lemma reads_as_parse:
  assumes "reads_as r v"
  shows "json_parse r = Inr v"
proof -
  have "handle_value v empty_dom = Inr (empty_dom\<lparr>dom_root := v\<rparr>)"
    by (simp add: handle_value_def empty_dom_def)
  then obtain tok s where s: "scan_token (r @ []) = (tok, s)" "tok \<noteq> T_error"
      "parse_loop (False, [], empty_dom, tok, s) = parse_loop (after [] (empty_dom\<lparr>dom_root := v\<rparr>) [])"
    using reads_asD [OF assms ends_simps(1)] by blast
  have bom: "scan_token (c # s') = (T_error, s')" if "byte c = 0xEF" for c s'
  proof -
    have "byte c = byte CHR 0xEF" using that by simp
    then have "c = CHR 0xEF" by (simp only: byte_eq_iff)
    then show ?thesis by (simp add: scan_token_def json_space_def is_digit_def)
  qed
  have "skip_bom r = Some r"
  proof (cases r)
    case (Cons c s')
    then have "byte c \<noteq> 0xEF" using s(1,2) bom [of c s'] by auto
    then show ?thesis by (simp add: skip_bom_def Cons)
  qed (simp add: skip_bom_def)
  then have "scan_first r = (tok, s)" using s(1) by (simp add: scan_first_def)
  moreover have "parse_loop (after [] d t) = Inr (d, t)" for d t
    by (simp add: parse_loop.simps [of "after [] d t"] eval_state_def)
  moreover have "scan_token [] = (T_end_of_input, [])" by (simp add: scan_token_def)
  ultimately show ?thesis using s(3) by (simp add: json_parse_def)
qed

lemma json_parse_render:
  "\<forall>w \<in> set (floats v). exact_float fc w \<Longrightarrow> textual v \<Longrightarrow> json_parse (render fc v) = Inr (canon v)"
  by (intro reads_as_parse reads_as_render)

end
