(* ===== verification/Nesting.thy ===== *)
theory Nesting
  imports Parser_Roundtrip Effects
begin

text \<open>
  The nesting check that the stdio transport makes on a line before it is parsed
  (\<open>excessive_depth\<close> in transport.hpp), proved against the lexer and the parser: a line it
  accepts never opens more values than the limit at once, so the parser's stack, and the
  depth of the value it returns, are bounded.
\<close>

subsection \<open>The nesting check\<close>

fun depth_scan :: "nat \<Rightarrow> nat \<Rightarrow> bool \<Rightarrow> bool \<Rightarrow> string \<Rightarrow> bool" where
  "depth_scan limit depth quoted escaped [] = False"
| "depth_scan limit depth quoted escaped (ch # s) =
     (if quoted then
        (if escaped then depth_scan limit depth True False s
         else if ch = backslash then depth_scan limit depth True True s
         else if ch = quote then depth_scan limit depth False False s
         else depth_scan limit depth True False s)
      else if ch = quote then depth_scan limit depth True escaped s
      else if ch = CHR ''{'' \<or> ch = CHR ''['' then
        (if depth = limit then True else depth_scan limit (Suc depth) False escaped s)
      else if (ch = CHR ''}'' \<or> ch = CHR '']'') \<and> 0 < depth then depth_scan limit (depth - 1) False escaped s
      else depth_scan limit depth False escaped s)"

definition excessive_depth :: "stdio_options \<Rightarrow> string \<Rightarrow> bool" where
  "excessive_depth opts line = depth_scan (max_json_depth opts) 0 False False line"

text \<open>The nesting of a value.\<close>

fun json_depth :: "json \<Rightarrow> nat" where
  "json_depth (JObj m) = Suc (foldr (\<lambda>kv. max (json_depth (snd kv))) m 0)"
| "json_depth (JArr xs) = Suc (foldr (\<lambda>x. max (json_depth x)) xs 0)"
| "json_depth _ = 0"

lemma foldr_max_le: "foldr (\<lambda>x. max (f x)) xs 0 \<le> n \<longleftrightarrow> (\<forall>x \<in> set xs. f x \<le> n)" for n :: nat
  by (induction xs) auto

lemma json_depth_le:
  "json_depth (JObj m) \<le> n \<longleftrightarrow> 0 < n \<and> (\<forall>kv \<in> set m. Suc (json_depth (snd kv)) \<le> n)"
  "json_depth (JArr xs) \<le> n \<longleftrightarrow> 0 < n \<and> (\<forall>x \<in> set xs. Suc (json_depth x) \<le> n)"
  by (cases n; simp add: foldr_max_le)+

subsection \<open>The check follows the lexer\<close>

text \<open>Inside a string only a quote and a backslash matter.\<close>

definition inert :: "string \<Rightarrow> bool" where
  "inert s \<longleftrightarrow> quote \<notin> set s \<and> backslash \<notin> set s"

lemma depth_scan_inert: "inert p \<Longrightarrow> depth_scan n d True False (p @ s) = depth_scan n d True False s"
  by (induction p) (auto simp: inert_def)

lemma codepoint_from_inert:
  "codepoint_from fs cp s = Some (x, s') \<Longrightarrow> \<exists>p. s = p @ s' \<and> inert p"
proof (induction fs cp s rule: codepoint_from.induct)
  case (3 f fs cp c s)
  then obtain v where v: "hex_value c = Some v" "codepoint_from fs (cp + push_bit f v) s = Some (x, s')"
    by (auto split: option.splits)
  with 3 obtain p where "s = p @ s'" "inert p" by blast
  moreover have "c \<noteq> quote" "c \<noteq> backslash" using v(1) by (auto simp: hex_value_def)
  ultimately have "c # s = (c # p) @ s' \<and> inert (c # p)" by (simp add: inert_def)
  then show ?case by blast
qed (auto simp: inert_def)

lemma scan_unicode_depth:
  assumes "scan_unicode s = Some (bs, s')"
  shows "depth_scan n d True False s = depth_scan n d True False s'"
proof -
  obtain cp1 s1 where cp1: "get_codepoint s = Some (cp1, s1)" using assms
    by (auto simp: scan_unicode_def split: option.split_asm)
  then obtain p where p: "s = p @ s1" "inert p" unfolding get_codepoint_def by (blast dest: codepoint_from_inert)
  show ?thesis
  proof (cases "s' = s1")
    case True
    then show ?thesis using p by (simp add: depth_scan_inert)
  next
    case False
    then obtain s2 cp2 where "s1 = backslash # CHR ''u'' # s2" "get_codepoint s2 = Some (cp2, s')"
      using assms by (auto simp: scan_unicode_def cp1 split: if_split_asm list.split_asm option.split_asm)
    moreover obtain q where "s2 = q @ s'" "inert q"
      using calculation(2) unfolding get_codepoint_def by (blast dest: codepoint_from_inert)
    ultimately show ?thesis using p by (simp add: depth_scan_inert)
  qed
qed

lemma scan_escape_depth:
  "scan_escape s = Some (bs, s') \<Longrightarrow> depth_scan n d True True s = depth_scan n d True False s'"
  by (auto simp: scan_escape_def scan_unicode_depth split: list.split_asm if_split_asm)

lemma next_byte_in_range_split:
  "next_byte_in_range rs s = Some (bs, s') \<Longrightarrow> \<forall>r \<in> set rs. 0x80 \<le> fst r \<Longrightarrow> s = bs @ s' \<and> inert bs"
proof (induction rs s arbitrary: bs rule: next_byte_in_range.induct)
  case (3 r rs c s)
  then obtain bs' where bs': "next_byte_in_range rs s = Some (bs', s')" "bs = c # bs'" "fst r \<le> byte c"
      "byte c \<le> snd r"
    by (auto split: if_split_asm option.split_asm)
  with 3 have "s = bs' @ s' \<and> inert bs'" by simp
  moreover have "0x80 \<le> byte c" using 3(3) bs'(3) by simp
  ultimately show ?case using bs'(2) high_not_special [of c] by (simp add: inert_def) metis
qed (simp_all add: inert_def)

lemma lead_ranges_high: "lead_ranges b = Some rs \<Longrightarrow> \<forall>r \<in> set rs. 0x80 \<le> fst r"
  by (simp add: lead_ranges_def split: if_split_asm) auto

lemma scan_string_depth:
  "scan_string buf s = (T_string k, s') \<Longrightarrow> depth_scan n d True False s = depth_scan n d False False s'"
proof (induction buf s rule: scan_string.induct)
  case (2 buf c s)
  have esc: ?case if "scan_escape s = Some (bs, s1)" "c = backslash" for bs s1
    using 2 that scan_escape_depth [OF that(1)] by simp
  have seq: ?case
    if "lead_ranges (byte c) = Some rs" "next_byte_in_range rs s = Some (bs, s1)"
      "c \<noteq> quote" "c \<noteq> backslash" "\<not> control_character c" "\<not> plain_character c" for rs bs s1
    using 2 that next_byte_in_range_split [OF that(2) lead_ranges_high [OF that(1)]]
    by (simp add: depth_scan_inert)
  show ?case
    using 2 esc seq by (auto split: if_splits option.splits)
qed simp

text \<open>Bytes that are neither brackets nor quotes do not matter outside strings.\<close>

definition bland :: "char \<Rightarrow> bool" where
  "bland c \<longleftrightarrow> c \<noteq> quote \<and> c \<noteq> CHR ''{'' \<and> c \<noteq> CHR ''['' \<and> c \<noteq> CHR ''}'' \<and> c \<noteq> CHR '']''"

lemma depth_scan_bland: "bland c \<Longrightarrow> depth_scan n d False False (c # s) = depth_scan n d False False s"
  by (simp add: bland_def)

lemma depth_scan_space: "depth_scan n d False False (dropWhile json_space s) = depth_scan n d False False s"
  by (induction s) (auto simp: json_space_def)

lemma scan_literal_depth:
  "scan_literal ls t s = (t', s') \<Longrightarrow> \<forall>c \<in> set ls. bland c \<Longrightarrow> t' \<noteq> T_error \<Longrightarrow>
   depth_scan n d False False s = depth_scan n d False False s'"
  by (induction ls t s rule: scan_literal.induct) (auto simp: depth_scan_bland simp del: depth_scan.simps split: if_splits)

lemma number_next_bland: "number_next st c = Some st' \<Longrightarrow> bland c"
  by (cases st) (auto simp: number_next_defs bland_def is_digit_def split: if_splits)

lemma number_from_depth:
  "number_from st nt buf s = (r, s') \<Longrightarrow> depth_scan n d False False s = depth_scan n d False False s'"
  by (induction st nt buf s rule: number_from.induct)
     (auto simp: depth_scan_bland simp del: depth_scan.simps split: option.splits dest: number_next_bland)

fun token_depth :: "nat \<Rightarrow> token \<Rightarrow> nat" where
  "token_depth d T_begin_array = Suc d"
| "token_depth d T_begin_object = Suc d"
| "token_depth d T_end_array = d - 1"
| "token_depth d T_end_object = d - 1"
| "token_depth d _ = d"

definition begins :: "token \<Rightarrow> bool" where
  "begins tok \<longleftrightarrow> tok = T_begin_array \<or> tok = T_begin_object"

lemma token_depth_other: "token_weight tok = 1 \<Longrightarrow> \<not> begins tok \<Longrightarrow> tok \<noteq> T_end_array \<Longrightarrow> tok \<noteq> T_end_object \<Longrightarrow> token_depth d tok = d"
  by (cases tok) (simp_all add: begins_def)

lemma scan_token_shape:
  assumes "scan_token s = (tok, s')" "token_weight tok = 1"
  obtains "dropWhile json_space s = CHR ''['' # s'" "tok = T_begin_array"
  | "dropWhile json_space s = CHR '']'' # s'" "tok = T_end_array"
  | "dropWhile json_space s = CHR ''{'' # s'" "tok = T_begin_object"
  | "dropWhile json_space s = CHR ''}'' # s'" "tok = T_end_object"
  | c where "dropWhile json_space s = c # s'" "c = CHR '':'' \<or> c = CHR '',''" "tok \<in> {T_name_separator, T_value_separator}"
  | c r ls where "dropWhile json_space s = c # r" "c \<in> {CHR ''t'', CHR ''f'', CHR ''n''}"
      "scan_literal ls tok r = (tok, s')" "ls \<in> {''rue'', ''alse'', ''ull''}" "tok \<in> {T_true, T_false, T_null}"
  | r k where "dropWhile json_space s = quote # r" "scan_string [] r = (T_string k, s')" "tok = T_string k"
  | c r where "dropWhile json_space s = c # r" "c = CHR ''-'' \<or> is_digit c" "scan_number c r = (tok, s')"
proof (cases "dropWhile json_space s")
  case Nil
  show ?thesis using assms
    by (simp add: scan_token_def token_weight_def Nil del: dropWhile_eq_Nil_conv split: if_split_asm)
next
  case (Cons c r)
  have lit: "scan_literal ls t r = (tok, s') \<Longrightarrow> tok = t" for ls t
    using assms(2) scan_literal_textual [of t ls r] by (induction ls t r rule: scan_literal.induct)
      (auto simp: token_weight_def split: if_splits)
  have str: "scan_string buf x = (tok, s') \<Longrightarrow> \<exists>k. tok = T_string k" for buf x
    using assms(2) by (induction buf x rule: scan_string.induct)
      (auto simp: token_weight_def split: if_splits option.splits)
  show ?thesis
    using assms Cons that lit str [of "[]" r] unfolding scan_token_def
    by (simp split: if_split_asm) (auto simp: token_weight_def)
qed

lemma number_token_kind: "number_token nt buf \<in> range T_unsigned \<union> range T_integer \<union> range T_float"
  by (cases nt; cases "strtoull buf"; cases "strtoll buf") (simp_all add: number_token_def)

lemma scan_number_shape:
  assumes "scan_number c r = (tok, s')" "tok \<noteq> T_error"
  shows "tok \<in> range T_unsigned \<union> range T_integer \<union> range T_float"
    and "depth_scan n d False False r = depth_scan n d False False s'"
proof -
  let ?st = "if c = CHR ''-'' then N_minus else if c = CHR ''0'' then N_zero else N_any1"
  obtain res s1 where res: "number_from ?st (enter_state ?st Num_unsigned) [c] r = (res, s1)" by force
  have eq: "(tok, s') = (case res of None \<Rightarrow> (T_error, s1) | Some (nt, buf) \<Rightarrow> (number_token nt buf, s1))"
    using assms(1) unfolding scan_number_def Let_def res by (cases res) auto
  then have "s1 = s'" by (cases res) auto
  then show "depth_scan n d False False r = depth_scan n d False False s'"
    using number_from_depth [OF res] by simp
  obtain nt buf where "res = Some (nt, buf)" using eq assms(2) by (cases res) auto
  then show "tok \<in> range T_unsigned \<union> range T_integer \<union> range T_float"
    using eq number_token_kind [of nt buf] by simp
qed

lemma digit_bland: "is_digit c \<Longrightarrow> bland c"
  by (auto simp: bland_def is_digit_def)

lemma scan_token_depth:
  assumes "scan_token s = (tok, s')" "token_weight tok = 1" "\<not> depth_scan n d False False s"
  shows "\<not> depth_scan n (token_depth d tok) False False s' \<and> (begins tok \<longrightarrow> d \<noteq> n)"
proof -
  have space: "\<not> depth_scan n d False False (dropWhile json_space s)"
    using assms(3) by (simp add: depth_scan_space)
  show ?thesis
    using assms(1,2)
  proof (cases rule: scan_token_shape)
    case (6 c r ls)
    then have "tok \<noteq> T_error" "bland c" "\<forall>x \<in> set ls. bland x" by (auto simp: bland_def)
    then have "\<not> depth_scan n d False False s'"
      using 6(1) space scan_literal_depth [OF 6(3), of n d] by (simp add: depth_scan_bland del: depth_scan.simps)
    then show ?thesis using 6(5) by (auto simp: begins_def)
  next
    case (7 r k)
    then show ?thesis using space scan_string_depth [OF 7(2), of n d] by (simp add: begins_def)
  next
    case (8 c r)
    have err: "tok \<noteq> T_error" using assms(2) by (auto simp: token_weight_def)
    have "bland c" using 8(2) digit_bland by (auto simp: bland_def)
    then have "\<not> depth_scan n d False False s'"
      using space 8(1) scan_number_shape(2) [OF 8(3) err, of n d] by (simp add: depth_scan_bland del: depth_scan.simps)
    then show ?thesis using scan_number_shape(1) [OF 8(3) err] by (auto simp: begins_def)
  next
    case (5 c)
    then show ?thesis using space by (auto simp: begins_def)
  qed (use space in \<open>cases "0 < d"; simp add: begins_def split: if_split_asm\<close>)+
qed

subsection \<open>The parser never nests deeper than the check allows\<close>

fun frame_values :: "frame \<Rightarrow> json set" where
  "frame_values (F_array xs) = set xs"
| "frame_values (F_object m k) = snd ` set m"

fun frames_deep :: "nat \<Rightarrow> frame list \<Rightarrow> bool" where
  "frames_deep n [] = True"
| "frames_deep n (fr # fs) \<longleftrightarrow>
     length fs < n \<and> (\<forall>v \<in> frame_values fr. json_depth v + Suc (length fs) \<le> n) \<and> frames_deep n fs"

definition dom_deep :: "nat \<Rightarrow> dom \<Rightarrow> bool" where
  "dom_deep n d \<longleftrightarrow> frames_deep n (dom_stack d) \<and> json_depth (dom_root d) \<le> n"

text \<open>A token is read with the nesting of the open frames, and leaves the rest of the line unread.\<close>

definition token_deep :: "nat \<Rightarrow> nat \<Rightarrow> token \<Rightarrow> string \<Rightarrow> bool" where
  "token_deep n d tok s \<longleftrightarrow>
     (token_weight tok = 1 \<longrightarrow> \<not> depth_scan n (token_depth d tok) False False s \<and> (begins tok \<longrightarrow> d < n))"

fun loop_deep :: "nat \<Rightarrow> loop_state \<Rightarrow> bool" where
  "loop_deep n (skip, sts, d, tok, s) \<longleftrightarrow>
     length sts = length (dom_stack d) \<and> length sts \<le> n \<and> dom_deep n d \<and>
     (if skip then \<not> depth_scan n (length sts) False False s else token_deep n (length sts) tok s)"

lemma token_deep_scan:
  "scan_token s = (tok, s') \<Longrightarrow> \<not> depth_scan n d False False s \<Longrightarrow> d \<le> n \<Longrightarrow> token_deep n d tok s'"
  using scan_token_depth [of s tok s' n d] by (auto simp: token_deep_def)

lemma om_put_values: "snd ` set (om_put k v m) \<subseteq> insert v (snd ` set m)"
  by (auto dest!: in_set_om_put)

lemma handle_value_deep:
  "handle_value v d = Inr d' \<Longrightarrow> dom_deep n d \<Longrightarrow> json_depth v + length (dom_stack d) \<le> n \<Longrightarrow>
   dom_deep n d' \<and> length (dom_stack d') = length (dom_stack d)"
  using om_put_values [of _ v]
  by (fastforce simp: handle_value_def dom_deep_def split: list.split_asm frame.split_asm option.split_asm)

lemma store_back_deep:
  "dom_deep n d \<Longrightarrow> json_depth v + length (dom_stack d) \<le> n \<Longrightarrow>
   dom_deep n (store_back v d) \<and> length (dom_stack (store_back v d)) = length (dom_stack d)"
  using om_put_values [of _ v]
  by (fastforce simp: store_back_def dom_deep_def split: list.split frame.split option.split dest: in_set_butlastD)

lemma start_array_deep:
  "start_array d = Inr d' \<Longrightarrow> dom_deep n d \<Longrightarrow> length (dom_stack d) < n \<Longrightarrow>
   dom_deep n d' \<and> length (dom_stack d') = Suc (length (dom_stack d))"
  by (auto simp: start_array_def dom_deep_def elim!: rbind_InrE dest!: handle_value_deep [of _ _ _ n])

lemma start_object_deep:
  "start_object d = Inr d' \<Longrightarrow> dom_deep n d \<Longrightarrow> length (dom_stack d) < n \<Longrightarrow>
   dom_deep n d' \<and> length (dom_stack d') = Suc (length (dom_stack d))"
  by (auto simp: start_object_def dom_deep_def elim!: rbind_InrE dest!: handle_value_deep [of _ _ _ n])

lemma end_array_deep:
  assumes "end_array d = Inr d'" "dom_deep n d"
  shows "dom_deep n d' \<and> length (dom_stack d) = Suc (length (dom_stack d'))"
proof -
  obtain xs fs where d: "dom_stack d = F_array xs # fs" "d' = store_back (JArr xs) (d\<lparr>dom_stack := fs\<rparr>)"
    using assms(1) by (auto simp: end_array_def split: list.split_asm frame.split_asm)
  have "json_depth (JArr xs) \<le> n - length fs"
    using assms(2) d(1) unfolding json_depth_le by (auto simp: dom_deep_def)
  then show ?thesis
    using store_back_deep [of n "d\<lparr>dom_stack := fs\<rparr>" "JArr xs"] assms(2) d by (auto simp: dom_deep_def simp del: json_depth.simps)
qed

lemma end_object_deep:
  assumes "end_object d = Inr d'" "dom_deep n d"
  shows "dom_deep n d' \<and> length (dom_stack d) = Suc (length (dom_stack d'))"
proof -
  obtain m e fs where d: "dom_stack d = F_object m e # fs" "d' = store_back (JObj m) (d\<lparr>dom_stack := fs\<rparr>)"
    using assms(1) by (auto simp: end_object_def split: list.split_asm frame.split_asm)
  have "json_depth (JObj m) \<le> n - length fs"
    using assms(2) d(1) unfolding json_depth_le by (force simp: dom_deep_def)
  then show ?thesis
    using store_back_deep [of n "d\<lparr>dom_stack := fs\<rparr>" "JObj m"] assms(2) d by (auto simp: dom_deep_def simp del: json_depth.simps)
qed

lemma dom_key_deep:
  "dom_key k d = Inr d' \<Longrightarrow> dom_deep n d \<Longrightarrow> dom_deep n d' \<and> length (dom_stack d') = length (dom_stack d)"
  using om_put_values [of k JNull]
  by (fastforce simp: dom_key_def dom_deep_def om_emplace_def split: list.split_asm frame.split_asm if_split_asm)

text \<open>What one iteration leaves: a value within the limit, or a loop state with the invariant.\<close>

fun progress_deep :: "nat \<Rightarrow> json_exc + progress \<Rightarrow> bool" where
  "progress_deep n (Inl e) = True"
| "progress_deep n (Inr (Finished d s)) \<longleftrightarrow> json_depth (dom_root d) \<le> n"
| "progress_deep n (Inr (Continue c)) \<longleftrightarrow> loop_deep n c"

lemma progress_deep_rbind: "(\<And>x. m = Inr x \<Longrightarrow> progress_deep n (f x)) \<Longrightarrow> progress_deep n (rbind m f)"
  by (cases m) auto

lemma token_deepD: "token_deep n d tok s \<Longrightarrow> token_weight tok = 1 \<Longrightarrow> \<not> depth_scan n (token_depth d tok) False False s"
  by (simp add: token_deep_def)

lemma parse_member_deep:
  assumes "dom_deep n d" "length sts = length (dom_stack d)" "length sts \<le> n" "\<not> depth_scan n (length sts) False False s"
  shows "progress_deep n (parse_member sts k d s)"
  unfolding parse_member_def
proof (rule progress_deep_rbind)
  fix d' assume "dom_key k d = Inr d'"
  then have d': "dom_deep n d'" "length sts = length (dom_stack d')" using dom_key_deep assms by fastforce+
  obtain t1 s1 where t1: "scan_token s = (t1, s1)" by force
  obtain t2 s2 where t2: "scan_token s1 = (t2, s2)" by force
  have "t1 = T_name_separator \<Longrightarrow> \<not> depth_scan n (length sts) False False s1"
    using token_deepD [OF token_deep_scan [OF t1 assms(4,3)]] by simp
  then show "progress_deep n (let (t1, s1) = scan_token s in
       if t1 \<noteq> T_name_separator then Inl (Parse_error 101)
       else let (t2, s2) = scan_token s1 in Inr (Continue (False, sts, d', t2, s2)))"
    using d' assms(3) token_deep_scan [OF t2] by (simp add: t1 t2)
qed

lemma eval_state_deep:
  assumes "dom_deep n d" "length sts = length (dom_stack d)" "length sts \<le> n" "\<not> depth_scan n (length sts) False False s"
  shows "progress_deep n (eval_state sts d s)"
proof (cases sts)
  case Nil
  then show ?thesis using assms(1) by (simp add: eval_state_def dom_deep_def)
next
  case (Cons st outer)
  obtain t1 s1 where t1: "scan_token s = (t1, s1)" by force
  obtain t2 s2 where t2: "scan_token s1 = (t2, s2)" by force
  note d1 = token_deepD [OF token_deep_scan [OF t1 assms(4,3)]]
  have sep: "t1 = T_value_separator \<Longrightarrow> \<not> depth_scan n (length sts) False False s1" using d1 by simp
  have next_ok: "t1 = T_value_separator \<Longrightarrow> token_deep n (length sts) t2 s2"
    using sep token_deep_scan [OF t2] assms(3) by simp
  have key: "\<not> depth_scan n (length sts) False False s2" if "t1 = T_value_separator" "t2 = T_string k" for k
    using token_deepD [OF next_ok [OF that(1)]] that(2) by simp
  have close: "progress_deep n (rbind m (\<lambda>d. Inr (Continue (True, outer, d, t1, s1))))"
    if "m = end_array d \<or> m = end_object d" "t1 = T_end_array \<or> t1 = T_end_object" for m
  proof (rule progress_deep_rbind)
    fix d' assume "m = Inr d'"
    then have "dom_deep n d' \<and> length (dom_stack d) = Suc (length (dom_stack d'))"
      using that(1) end_array_deep [OF _ assms(1)] end_object_deep [OF _ assms(1)] by metis
    moreover have "\<not> depth_scan n (length outer) False False s1" using d1 that(2) Cons by auto
    ultimately show "progress_deep n (Inr (Continue (True, outer, d', t1, s1)))"
      using assms(2,3) Cons by simp
  qed
  show ?thesis
  proof (cases st)
    case True
    then show ?thesis using Cons assms next_ok close
      by (auto simp: eval_state_def eval_array_def t1 t2)
  next
    case False
    then show ?thesis using Cons assms close key parse_member_deep [OF assms(1-3)]
      by (auto simp: eval_state_def eval_object_def t1 t2 split: option.split)
  qed
qed

lemma parse_scalar_deep:
  assumes "dom_deep n d" "length sts = length (dom_stack d)" "length sts \<le> n" "\<not> depth_scan n (length sts) False False s"
    and "json_depth v = 0"
  shows "progress_deep n (parse_scalar v sts d tok s)"
  unfolding parse_scalar_def
  using assms handle_value_deep [of v d _ n] by (intro progress_deep_rbind) simp

lemma parse_array_deep:
  assumes "dom_deep n d" "length sts = length (dom_stack d)" "length sts < n" "\<not> depth_scan n (Suc (length sts)) False False s"
  shows "progress_deep n (parse_array sts d s)"
  unfolding parse_array_def
proof (rule progress_deep_rbind)
  fix d1 assume "start_array d = Inr d1"
  then have d1: "dom_deep n d1" "length (dom_stack d1) = Suc (length sts)" using start_array_deep assms by metis+
  obtain t1 s1 where t1: "scan_token s = (t1, s1)" by force
  have tok: "token_deep n (Suc (length sts)) t1 s1" using token_deep_scan [OF t1 assms(4)] assms(3) by simp
  have "progress_deep n (rbind (end_array d1) (\<lambda>d. Inr (Continue (True, sts, d, t1, s1))))" if "t1 = T_end_array"
    using end_array_deep [OF _ d1(1)] d1(2) assms(3) token_deepD [OF tok] that
    by (intro progress_deep_rbind) fastforce
  then show "progress_deep n (let (t1, s1) = scan_token s in
       if t1 = T_end_array then rbind (end_array d1) (\<lambda>d. Inr (Continue (True, sts, d, t1, s1)))
       else Inr (Continue (False, True # sts, d1, t1, s1)))"
    using d1 assms(3) tok by (simp add: t1)
qed

lemma parse_object_deep:
  assumes "dom_deep n d" "length sts = length (dom_stack d)" "length sts < n" "\<not> depth_scan n (Suc (length sts)) False False s"
  shows "progress_deep n (parse_object sts d s)"
  unfolding parse_object_def
proof (rule progress_deep_rbind)
  fix d1 assume "start_object d = Inr d1"
  then have d1: "dom_deep n d1" "length (dom_stack d1) = Suc (length sts)" using start_object_deep assms by metis+
  obtain t1 s1 where t1: "scan_token s = (t1, s1)" by force
  have tok: "token_deep n (Suc (length sts)) t1 s1" using token_deep_scan [OF t1 assms(4)] assms(3) by simp
  have "progress_deep n (rbind (end_object d1) (\<lambda>d. Inr (Continue (True, sts, d, t1, s1))))" if "t1 = T_end_object"
    using end_object_deep [OF _ d1(1)] d1(2) assms(3) token_deepD [OF tok] that
    by (intro progress_deep_rbind) fastforce
  moreover have "progress_deep n (parse_member (False # sts) k d1 s1)" if "t1 = T_string k" for k
    using d1 assms(3) token_deepD [OF tok] that by (intro parse_member_deep) simp_all
  ultimately show "progress_deep n (let (t1, s1) = scan_token s in
       if t1 = T_end_object then rbind (end_object d1) (\<lambda>d. Inr (Continue (True, sts, d, t1, s1)))
       else (case value_string t1 of None \<Rightarrow> Inl (Parse_error 101) | Some k \<Rightarrow> parse_member (False # sts) k d1 s1))"
    by (simp add: t1 split: option.split)
qed

lemma parse_value_deep:
  assumes "dom_deep n d" "length sts = length (dom_stack d)" "length sts \<le> n" "token_deep n (length sts) tok s"
  shows "progress_deep n (parse_value sts d tok s)"
proof -
  have scalar: "progress_deep n (parse_scalar v sts d tok s)"
    if "token_weight tok = 1" "token_depth (length sts) tok = length sts" "json_depth v = 0" for v
    using that token_deepD [OF assms(4)] by (intro parse_scalar_deep assms) simp_all
  show ?thesis
    using assms scalar parse_array_deep [OF assms(1,2)] parse_object_deep [OF assms(1,2)]
    by (cases tok) (auto simp: parse_value_def token_weight_def token_deep_def begins_def)
qed

lemma parse_loop_deep:
  "loop_deep n c \<Longrightarrow> parse_loop c = Inr (d, s) \<Longrightarrow> json_depth (dom_root d) \<le> n"
proof (induction c rule: parse_loop.induct)
  case (1 c)
  obtain skip sts e tok r where c: "c = (skip, sts, e, tok, r)" by (cases c)
  have step: "progress_deep n (parse_step c)"
    using 1(2) by (auto simp: c intro: eval_state_deep parse_value_deep split: if_split_asm)
  obtain p where p: "parse_step c = Inr p"
    using 1(3) by (cases "parse_step c") (auto simp: parse_loop.simps [of c])
  then show ?case
    using step 1(1) [OF p] 1(3) by (cases p) (auto simp: parse_loop.simps [of c])
qed

lemma byte_bland: "0x80 \<le> byte c \<Longrightarrow> bland c"
  by (auto simp: bland_def)

lemma skip_bom_depth:
  assumes "skip_bom line = Some r"
  shows "depth_scan n d False False line = depth_scan n d False False r"
proof (cases "r = line")
  case False
  then obtain a b c where abc: "line = a # b # c # r" "byte a = 0xEF" "byte b = 0xBB" "byte c = 0xBF"
    using assms by (auto simp: skip_bom_def split: list.split_asm if_split_asm)
  then have "bland a" "bland b" "bland c" by (auto intro: byte_bland)
  then show ?thesis by (simp only: abc(1) depth_scan_bland)
qed simp

theorem json_parse_deep:
  assumes "\<not> depth_scan n 0 False False line" "json_parse line = Inr v"
  shows "json_depth v \<le> n"
proof -
  obtain tok s1 where first: "scan_first line = (tok, s1)" by force
  obtain d s2 where loop: "parse_loop (False, [], empty_dom, tok, s1) = Inr (d, s2)" "v = dom_root d"
    using assms(2) by (auto simp: json_parse_def first elim!: rbind_InrE split: prod.split_asm token.split_asm)
  have "token_deep n 0 tok s1"
  proof (cases "skip_bom line")
    case None
    then have "tok = T_error" using first by (simp add: scan_first_def)
    then show ?thesis by (simp add: token_deep_def token_weight_def)
  next
    case (Some r)
    then have "depth_scan n 0 False False line = depth_scan n 0 False False r" by (rule skip_bom_depth)
    then show ?thesis using token_deep_scan [of r tok s1 n 0] first Some assms(1) by (simp add: scan_first_def)
  qed
  then have "loop_deep n (False, [], empty_dom, tok, s1)"
    by (simp add: dom_deep_def empty_dom_def)
  then show ?thesis using parse_loop_deep loop by blast
qed

end
