(* ===== verification/Parser_Properties.thy ===== *)
theory Parser_Properties
  imports Nesting
begin

text \<open>
  The properties of the JSON parser and of the nesting check in front of it.
\<close>

subsection \<open>Concrete values\<close>

definition sample_printer :: float_printer where
  "sample_printer w = ''1.5''"

definition sample_value :: json where
  "sample_value =
     JObj [(''a'', JArr [JNull, JBool True, JInt (- 7), JInt 7, JFloat 0x3FF8000000000000]), (''b'', JStr ''x'')]"

lemma sample_textual: "textual sample_value"
  by (simp add: sample_value_def om_wf_Cons utf8_tail_def f64_isfinite_def f64_exponent_def)

subsection \<open>Termination with a bound\<close>

text \<open>The loop cut off after a number of iterations.\<close>

fun parse_within :: "nat \<Rightarrow> loop_state \<Rightarrow> (json_exc + dom \<times> string) option" where
  "parse_within 0 c = None"
| "parse_within (Suc n) c =
     (case parse_step c of
        Inl e \<Rightarrow> Some (Inl e)
      | Inr (Finished d s) \<Rightarrow> Some (Inr (d, s))
      | Inr (Continue c') \<Rightarrow> parse_within n c')"

lemma parse_within_enough: "loop_measure c < n \<Longrightarrow> parse_within n c = Some (parse_loop c)"
proof (induction n arbitrary: c)
  case (Suc n)
  show ?case
  proof (cases "parse_step c")
    case (Inr p)
    then show ?thesis
    proof (cases p)
      case (Continue c')
      then have "loop_measure c' < n" using parse_step_measure [of c c'] Inr Suc.prems by simp
      then show ?thesis using Suc.IH Inr Continue by (simp add: parse_loop.simps [of c])
    qed (simp add: parse_loop.simps [of c])
  qed (simp add: parse_loop.simps [of c])
qed simp

lemma scan_first_length: "scan_first s = (tok, s') \<Longrightarrow> length s' + token_weight tok \<le> length s"
  by (auto simp: scan_first_def skip_bom_def token_weight_def [of T_error]
      split: option.split_asm list.split_asm if_split_asm dest!: scan_token_length)

text \<open>
  C21. Parsing a text of $n$ bytes takes at most $2n + 2$ iterations of the loop of
  \<open>sax_parse_internal\<close>: cut off there, it has returned, and with the result of the parser.
\<close>

theorem parser_iterations_bounded:
  "parse_within (2 * length s + 2) (case scan_first s of (tok, s1) \<Rightarrow> (False, [], empty_dom, tok, s1)) =
   Some (parse_loop (case scan_first s of (tok, s1) \<Rightarrow> (False, [], empty_dom, tok, s1)))"
  by (cases "scan_first s", rule parse_within_enough) (auto dest: scan_first_length)

subsection \<open>What is parsed\<close>


text \<open>
  C24. The nesting check protects the parser: a line that \<open>excessive_depth\<close> lets through
  never parses to a value nested deeper than \<open>max_json_depth\<close>. The check skips strings the
  way the lexer does, so no bracket hidden by quotes or escapes gets past it.
\<close>

theorem nesting_check_bounds_values:
  assumes "\<not> excessive_depth opts line" and "json_parse line = Inr v"
  shows "json_depth v \<le> max_json_depth opts"
  using assms by (auto simp: excessive_depth_def intro: json_parse_deep)

theorem nesting_check_bounds_values_witness:
  "json_depth (JArr [JArr [JNull]]) \<le> max_json_depth default_stdio_options"
proof (rule nesting_check_bounds_values)
  have "render sample_printer (JArr [JArr [JNull]]) = ''[[null]]''" by simp
  then show "json_parse ''[[null]]'' = Inr (JArr [JArr [JNull]])"
    using json_parse_render [of "JArr [JArr [JNull]]" sample_printer] by simp
  show "\<not> excessive_depth default_stdio_options ''[[null]]''"
    by (simp add: excessive_depth_def default_stdio_options_def)
qed

text \<open>A NUL byte outside a string is taken for the end of the input: the rest is ignored.\<close>

lemma nul_ends_input: "json_parse (''null'' @ CHR 0x00 # rest) = Inr JNull"
proof -
  have "scan_first (''null'' @ CHR 0x00 # rest) = (T_null, CHR 0x00 # rest)" by (simp add: scan_first_def skip_bom_def scan_token_def json_space_def)
  moreover have "scan_token (CHR 0x00 # rest) = (T_end_of_input, rest)"
    by (simp add: scan_token_def json_space_def is_digit_def)
  ultimately show ?thesis
    by (simp add: json_parse_def parse_loop.simps parse_value_def parse_scalar_def handle_value_def empty_dom_def eval_state_def)
qed

end
