(* ===== verification/Stdio_Transport.thy ===== *)
theory Stdio_Transport
  imports Nesting
begin

text \<open>
  The stdio transport (transport.hpp, class \<open>stdio_transport\<close>): one record for the fields
  behind its mutex and the positions of its reader and writer threads, one operation per
  region of code that runs under the mutex or touches only thread-local data, and the step
  relation that interleaves them. Reads and writes of the native endpoint are events of the
  environment. The histories record what the threads did: the bytes received, whether the
  input has ended and the lines taken from it, the bytes written, the frames accepted by
  \<open>send\<close>, the values handed to the message callback and the reasons given to the close
  callback. Allocation failures are not modelled.
\<close>

subsection \<open>Arithmetic on \<open>std::size_t\<close>\<close>

definition size_sub :: "nat \<Rightarrow> nat \<Rightarrow> nat" where
  "size_sub a b = (a + 2 ^ 64 - b) mod 2 ^ 64"

lemma size_sub_exact: "b \<le> a \<Longrightarrow> a < 2 ^ 64 \<Longrightarrow> size_sub a b = a - b"
proof -
  assume "b \<le> a" "a < 2 ^ 64"
  then have "a + 2 ^ 64 - b = (a - b) + 2 ^ 64" "a - b < 2 ^ 64" by simp_all
  then show ?thesis unfolding size_sub_def by (metis mod_add_self2 mod_less)
qed

subsection \<open>State\<close>

datatype close_reason = cr_eof | cr_requested_stop | cr_io_error | cr_protocol_limit

text \<open>
  Positions of the reader. \<open>cont\<close> is what is left of the chunk being scanned, \<open>None\<close> once
  the input has ended.
\<close>

datatype reader_pc =
    RP_none | RP_wait | RP_loop | RP_failed
  | RP_bytes "string option" | RP_diag "string option" | RP_call json "string option"
  | RP_close close_reason | RP_after | RP_publish close_reason | RP_finish | RP_done

datatype writer_pc =
    WP_none | WP_wait | WP_loop | WP_write string nat
  | WP_close | WP_after | WP_publish close_reason | WP_finish | WP_done

record transport =
  limits :: stdio_options
  io_open :: bool
  io_stopped :: bool
  queue :: "string list"
  queued_bytes :: nat
  consumed :: bool
  started :: bool
  released :: bool
  closing :: bool
  reader_done :: bool
  writer_done :: bool
  close_done :: bool
  close_claimed :: bool
  reason :: "close_reason option"
  flush_deadline :: int
  reader_stop :: bool
  aborting :: bool
  reader_at :: reader_pc
  reader_line :: string
  writer_at :: writer_pc
  received :: string
  at_eof :: bool
  lines :: "string list"
  written :: string
  accepted :: "string list"
  delivered :: "json list"
  closed :: "close_reason list"

definition new_transport :: "stdio_options \<Rightarrow> transport" where
  "new_transport opts =
     \<lparr>limits = opts, io_open = False, io_stopped = False, queue = [], queued_bytes = 0, consumed = False,
      started = False, released = False, closing = False, reader_done = True, writer_done = True,
      close_done = True, close_claimed = False, reason = None, flush_deadline = 0, reader_stop = False,
      aborting = False, reader_at = RP_none, reader_line = [], writer_at = WP_none,
      received = [], at_eof = False, lines = [], written = [],
      accepted = [], delivered = [], closed = []\<rparr>"

subsection \<open>The bounded buffer\<close>

record bounded_buffer =
  bb_bytes :: string
  bb_limit :: nat
  bb_full :: bool

definition new_buffer :: "nat \<Rightarrow> bounded_buffer" where
  "new_buffer limit = \<lparr>bb_bytes = [], bb_limit = limit, bb_full = False\<rparr>"

text \<open>\<open>xsputn\<close>, which takes all the bytes or none; \<open>overflow\<close> is a call with one byte.\<close>

definition xsputn :: "string \<Rightarrow> bounded_buffer \<Rightarrow> bool \<times> bounded_buffer" where
  "xsputn data b =
     (if length data > size_sub (bb_limit b) (length (bb_bytes b)) then (False, b\<lparr>bb_full := True\<rparr>)
      else (True, b\<lparr>bb_bytes := bb_bytes b @ data\<rparr>))"

text \<open>The stream throws at the first write that is not taken whole.\<close>

fun stream_write :: "string list \<Rightarrow> bounded_buffer \<Rightarrow> bool \<times> bounded_buffer" where
  "stream_write [] b = (True, b)"
| "stream_write (s # ss) b =
     (case xsputn s b of (ok, b') \<Rightarrow> if ok then stream_write ss b' else (False, b'))"

subsection \<open>Client operations\<close>

definition stdio_failure :: "sdk_errc \<Rightarrow> string \<Rightarrow> sdk_error + 'a" where
  "stdio_failure code text = Inl \<lparr>sdk_code = code, sdk_message = text\<rparr>"

text \<open>
  \<open>start\<close> up to the release of the mutex; the arguments say whether the endpoint could be
  opened and the two threads created. A thread that was created but must not run is joined
  by \<open>stdio_start_abort\<close>.
\<close>

definition stdio_options_valid :: "stdio_options \<Rightarrow> bool" where
  "stdio_options_valid opts \<longleftrightarrow>
     max_frame_bytes opts \<noteq> 0 \<and> max_json_depth opts \<noteq> 0 \<and> max_outbound_bytes opts \<noteq> 0 \<and>
     0 < flush_budget opts \<and> flush_budget opts \<le> 250"

definition stdio_start :: "(sdk_error + unit) \<Rightarrow> bool \<Rightarrow> bool \<Rightarrow> transport \<Rightarrow> (sdk_error + unit) option \<times> transport" where
  "stdio_start opened writer_ok reader_ok t =
     (if consumed t then (Some (stdio_failure invalid_state ''Transport already started or stopped''), t)
      else let t = t\<lparr>consumed := True\<rparr> in
      if \<not> stdio_options_valid (limits t) then (Some (stdio_failure invalid_state ''Invalid stdio limits''), t)
      else case opened of
        Inl e \<Rightarrow> (Some (Inl e), t)
      | Inr _ \<Rightarrow>
          let t = t\<lparr>io_open := True\<rparr> in
          if \<not> writer_ok then
            (None, t\<lparr>closing := True, released := True, io_stopped := True, aborting := True\<rparr>)
          else let t = t\<lparr>writer_done := False, writer_at := WP_wait\<rparr> in
          if \<not> reader_ok then
            (None, t\<lparr>closing := True, released := True, io_stopped := True, aborting := True\<rparr>)
          else
            (Some (Inr ()), t\<lparr>reader_done := False, reader_at := RP_wait, started := True, released := True\<rparr>))"

definition stdio_start_abort :: "transport \<Rightarrow> (sdk_error + unit) \<times> transport" where
  "stdio_start_abort t =
     (stdio_failure resource_exhausted ''Cannot start stdio work'', t\<lparr>io_open := False, aborting := False\<rparr>)"

definition max_encoded_frame_bytes :: "transport \<Rightarrow> nat" where
  "max_encoded_frame_bytes t =
     (if max_outbound_bytes (limits t) = 0 then 0
      else min (max_frame_bytes (limits t)) (size_sub (max_outbound_bytes (limits t)) 1))"

definition stdio_send :: "float_printer \<Rightarrow> json \<Rightarrow> transport \<Rightarrow> (sdk_error + unit) \<times> transport" where
  "stdio_send fc msg t =
     (if \<not> started t \<or> closing t then (stdio_failure invalid_state ''Transport is not running'', t)
      else
        let limit = min (max_frame_bytes (limits t)) (size_sub (max_outbound_bytes (limits t)) 1);
            (chunks, thrown) = stream_json fc msg;
            (ok, b) = stream_write chunks (new_buffer limit)
        in if \<not> ok then
             (if bb_full b then (stdio_failure resource_exhausted ''Encoded frame limit exceeded'', t)
              else (stdio_failure resource_exhausted ''Cannot queue JSON frame'', t))
           else if thrown \<noteq> None then (stdio_failure invalid_state ''Cannot encode JSON frame'', t)
           else
             let bytes = bb_bytes b @ ''\<newline>'' in
             if length bytes > size_sub (max_outbound_bytes (limits t)) (queued_bytes t)
             then (stdio_failure resource_exhausted ''Writer queue is full'', t)
             else (Inr (), t\<lparr>queue := queue t @ [bytes], queued_bytes := queued_bytes t + length bytes,
                             accepted := accepted t @ [bytes]\<rparr>))"

text \<open>\<open>begin_close\<close> under the mutex; the stop request to the reader follows as a step of its own.\<close>

definition stdio_begin_close :: "close_reason \<Rightarrow> int \<Rightarrow> transport \<Rightarrow> transport" where
  "stdio_begin_close r now t =
     (let t = t\<lparr>consumed := True\<rparr> in
      if closing t then t
      else t\<lparr>closing := True, reason := Some r, flush_deadline := now + flush_budget (limits t),
             close_done := \<not> started t\<rparr>)"

text \<open>
  One round of \<open>join_until\<close>: refused inside a callback, else finished, timed out, or
  \<open>None\<close> to wait again.
\<close>

definition stdio_join :: "bool \<Rightarrow> int \<Rightarrow> int option \<Rightarrow> transport \<Rightarrow> (sdk_error + bool option) \<times> transport" where
  "stdio_join in_callback now deadline t =
     (if in_callback then (stdio_failure invalid_state ''Cannot wait inside transport callback'', t)
      else
        let t = (if io_open t \<and> closing t \<and> flush_deadline t \<le> now then t\<lparr>io_stopped := True\<rparr> else t) in
        if reader_done t \<and> writer_done t \<and> close_done t then (Inr (Some True), t)
        else if (case deadline of None \<Rightarrow> False | Some d \<Rightarrow> d \<le> now) then (Inr (Some False), t)
        else (Inr None, t))"

subsection \<open>The reader\<close>

definition parse_error_diagnostic :: json where
  "parse_error_diagnostic =
     json_object [(''jsonrpc'', JStr ''2.0''), (''id'', JNull),
       (''error'', json_object [(''code'', JInt (- 32700)), (''message'', JStr ''Parse error'')])]"

text \<open>\<open>frame\<close> up to its first call that leaves the thread.\<close>

definition frame_next :: "stdio_options \<Rightarrow> string \<Rightarrow> string option \<Rightarrow> reader_pc" where
  "frame_next opts line cont =
     (if line = [] then RP_bytes cont
      else if excessive_depth opts line then RP_close cr_protocol_limit
      else case json_parse line of
        Inr v \<Rightarrow> RP_call v cont
      | Inl (Parse_error n) \<Rightarrow> RP_diag cont
      | Inl (Out_of_range n) \<Rightarrow> if n = 406 then RP_diag cont else RP_close cr_io_error
      | Inl _ \<Rightarrow> RP_close cr_io_error)"

datatype read_event = Read_failed | Read_bytes string

definition reader_released :: "transport \<Rightarrow> transport" where
  "reader_released t =
     (if started t then t\<lparr>reader_at := RP_loop\<rparr> else t\<lparr>reader_done := True, reader_at := RP_done\<rparr>)"

definition reader_read :: "read_event \<Rightarrow> transport \<Rightarrow> transport" where
  "reader_read ev t =
     (if reader_stop t then t\<lparr>reader_at := RP_after\<rparr>
      else case ev of
        Read_failed \<Rightarrow> t\<lparr>reader_at := RP_failed\<rparr>
      | Read_bytes bs \<Rightarrow>
          if bs = [] then
            t\<lparr>at_eof := True,
              reader_at := (if reader_line t \<noteq> [] then frame_next (limits t) (reader_line t) None else RP_close cr_eof)\<rparr>
          else t\<lparr>received := received t @ bs, reader_at := RP_bytes (Some bs)\<rparr>)"

definition reader_failed :: "transport \<Rightarrow> transport" where
  "reader_failed t = t\<lparr>reader_at := (if reader_stop t then RP_after else RP_close cr_io_error)\<rparr>"

definition reader_byte :: "string option \<Rightarrow> transport \<Rightarrow> transport" where
  "reader_byte cont t =
     (case cont of
        None \<Rightarrow> t\<lparr>reader_at := RP_close cr_eof\<rparr>
      | Some [] \<Rightarrow> t\<lparr>reader_at := RP_loop\<rparr>
      | Some (c # cs) \<Rightarrow>
          if reader_stop t then t\<lparr>reader_at := RP_after\<rparr>
          else if c = CHR ''\<newline>'' then
            t\<lparr>lines := lines t @ [reader_line t], reader_line := [],
              reader_at := frame_next (limits t) (reader_line t) (Some cs)\<rparr>
          else if length (reader_line t) = max_frame_bytes (limits t) then t\<lparr>reader_at := RP_close cr_protocol_limit\<rparr>
          else t\<lparr>reader_line := reader_line t @ [c], reader_at := RP_bytes (Some cs)\<rparr>)"

definition reader_diag :: "float_printer \<Rightarrow> string option \<Rightarrow> transport \<Rightarrow> transport" where
  "reader_diag fc cont t =
     (case stdio_send fc parse_error_diagnostic t of
        (Inl e, t') \<Rightarrow> t'\<lparr>reader_at := RP_close cr_protocol_limit\<rparr>
      | (Inr _, t') \<Rightarrow> t'\<lparr>reader_at := RP_bytes cont\<rparr>)"

definition reader_call :: "bool \<Rightarrow> json \<Rightarrow> string option \<Rightarrow> transport \<Rightarrow> transport" where
  "reader_call returned v cont t =
     t\<lparr>delivered := delivered t @ [v],
       reader_at := (if returned then RP_bytes cont else RP_close cr_io_error)\<rparr>"

subsection \<open>The writer\<close>

definition writer_released :: "transport \<Rightarrow> transport" where
  "writer_released t =
     (if started t then t\<lparr>writer_at := WP_loop\<rparr> else t\<lparr>writer_done := True, writer_at := WP_done\<rparr>)"

text \<open>The region that waits for work; \<open>None\<close> while its condition is false.\<close>

definition writer_pop :: "int \<Rightarrow> transport \<Rightarrow> transport option" where
  "writer_pop now t =
     (if \<not> closing t \<and> queue t = [] then None
      else Some
        (case queue t of
           [] \<Rightarrow> t\<lparr>writer_at := WP_after\<rparr>
         | bytes # rest \<Rightarrow>
             if closing t \<and> flush_deadline t \<le> now then t\<lparr>writer_at := WP_after\<rparr>
             else t\<lparr>queue := rest, writer_at := WP_write bytes 0\<rparr>))"

text \<open>
  One round of the write loop; \<open>count\<close> is the result of \<open>write_some\<close> on the rest of the
  frame, \<open>None\<close> for an error.
\<close>

definition writer_write :: "nat option \<Rightarrow> string \<Rightarrow> nat \<Rightarrow> transport \<Rightarrow> transport" where
  "writer_write count bytes offset t =
     (if offset < length bytes then
        (case count of
           None \<Rightarrow> t\<lparr>writer_at := WP_close\<rparr>
         | Some n \<Rightarrow>
             if n = 0 then t\<lparr>writer_at := WP_close\<rparr>
             else t\<lparr>written := written t @ take n (drop offset bytes), writer_at := WP_write bytes (offset + n)\<rparr>)
      else t\<lparr>queued_bytes := size_sub (queued_bytes t) (length bytes), writer_at := WP_loop\<rparr>)"

subsection \<open>The end of a worker\<close>

text \<open>\<open>publish_close\<close>: the first worker that finds a reason claims the callback.\<close>

definition may_publish :: "transport \<Rightarrow> close_reason option" where
  "may_publish t = (if \<not> started t \<or> close_claimed t then None else reason t)"

definition publish_done :: "close_reason \<Rightarrow> transport \<Rightarrow> transport" where
  "publish_done r t = t\<lparr>closed := closed t @ [r], close_done := True\<rparr>"

definition reader_publish :: "transport \<Rightarrow> transport" where
  "reader_publish t =
     (case may_publish t of
        None \<Rightarrow> t\<lparr>reader_at := RP_finish\<rparr>
      | Some r \<Rightarrow> t\<lparr>close_claimed := True, reader_at := RP_publish r\<rparr>)"

definition writer_publish :: "transport \<Rightarrow> transport" where
  "writer_publish t =
     (case may_publish t of
        None \<Rightarrow> t\<lparr>writer_at := WP_finish\<rparr>
      | Some r \<Rightarrow> t\<lparr>close_claimed := True, writer_at := WP_publish r\<rparr>)"

subsection \<open>Interleaving\<close>

inductive tstep :: "float_printer \<Rightarrow> transport \<Rightarrow> transport \<Rightarrow> bool" for fc where
  t_start: "tstep fc t (snd (stdio_start opened writer_ok reader_ok t))"
| t_abort: "aborting t \<Longrightarrow> reader_done t \<Longrightarrow> writer_done t \<Longrightarrow> tstep fc t (snd (stdio_start_abort t))"
| t_send: "tstep fc t (snd (stdio_send fc msg t))"
| t_stop: "tstep fc t (stdio_begin_close cr_requested_stop now t)"
| t_signal: "closing t \<Longrightarrow> tstep fc t (t\<lparr>reader_stop := True\<rparr>)"
| t_join: "tstep fc t (snd (stdio_join in_callback now deadline t))"
| r_released: "reader_at t = RP_wait \<Longrightarrow> released t \<Longrightarrow> tstep fc t (reader_released t)"
| r_read: "reader_at t = RP_loop \<Longrightarrow> tstep fc t (reader_read ev t)"
| r_failed: "reader_at t = RP_failed \<Longrightarrow> tstep fc t (reader_failed t)"
| r_byte: "reader_at t = RP_bytes cont \<Longrightarrow> tstep fc t (reader_byte cont t)"
| r_diag: "reader_at t = RP_diag cont \<Longrightarrow> tstep fc t (reader_diag fc cont t)"
| r_call: "reader_at t = RP_call v cont \<Longrightarrow> tstep fc t (reader_call returned v cont t)"
| r_close: "reader_at t = RP_close r \<Longrightarrow> tstep fc t ((stdio_begin_close r now t)\<lparr>reader_at := RP_after\<rparr>)"
| r_publish: "reader_at t = RP_after \<Longrightarrow> tstep fc t (reader_publish t)"
| r_published: "reader_at t = RP_publish r \<Longrightarrow> tstep fc t ((publish_done r t)\<lparr>reader_at := RP_finish\<rparr>)"
| r_finish: "reader_at t = RP_finish \<Longrightarrow> tstep fc t (t\<lparr>reader_done := True, reader_at := RP_done\<rparr>)"
| w_released: "writer_at t = WP_wait \<Longrightarrow> released t \<Longrightarrow> tstep fc t (writer_released t)"
| w_pop: "writer_at t = WP_loop \<Longrightarrow> writer_pop now t = Some t' \<Longrightarrow> tstep fc t t'"
| w_write: "writer_at t = WP_write bytes offset \<Longrightarrow> (case count of None \<Rightarrow> True | Some n \<Rightarrow> n \<le> length bytes - offset) \<Longrightarrow>
    tstep fc t (writer_write count bytes offset t)"
| w_close: "writer_at t = WP_close \<Longrightarrow> tstep fc t ((stdio_begin_close cr_io_error now t)\<lparr>writer_at := WP_after\<rparr>)"
| w_publish: "writer_at t = WP_after \<Longrightarrow> tstep fc t (writer_publish t)"
| w_published: "writer_at t = WP_publish r \<Longrightarrow> tstep fc t ((publish_done r t)\<lparr>writer_at := WP_finish\<rparr>)"
| w_finish: "writer_at t = WP_finish \<Longrightarrow> tstep fc t (t\<lparr>writer_done := True, writer_at := WP_done\<rparr>)"

end
