(* ===== verification/Stdio_Inv.thy ===== *)
theory Stdio_Inv
  imports Stdio_Transport
begin

text \<open>
  Invariants of the stdio transport over every interleaving: the byte accounting of the
  writer queue and the order of what is written, the shape of the frames, the single
  publication of the first close reason, and the bounds on what reaches the message
  callback.
\<close>

subsection \<open>Encoding into the bounded buffer\<close>

lemma stream_write_ok:
  "stream_write ss b = (True, b') \<Longrightarrow> length (bb_bytes b) \<le> bb_limit b \<Longrightarrow> bb_limit b < 2 ^ 64 \<Longrightarrow>
   bb_bytes b' = bb_bytes b @ concat ss \<and> length (bb_bytes b') \<le> bb_limit b"
proof (induction ss arbitrary: b)
  case (Cons s ss)
  let ?b = "b\<lparr>bb_bytes := bb_bytes b @ s\<rparr>"
  have "size_sub (bb_limit b) (length (bb_bytes b)) = bb_limit b - length (bb_bytes b)"
    using Cons.prems by (intro size_sub_exact) simp_all
  then have "\<not> bb_limit b - length (bb_bytes b) < length s" and w: "stream_write ss ?b = (True, b')"
    using Cons.prems(1) by (auto simp: xsputn_def split: if_split_asm)
  then have "length (bb_bytes ?b) \<le> bb_limit ?b" using Cons.prems(2) by simp
  then show ?case using Cons.IH [OF w] Cons.prems(3) by auto
qed simp

lemma stream_write_full:
  "stream_write ss b = (False, b') \<Longrightarrow> length (bb_bytes b) \<le> bb_limit b \<Longrightarrow> bb_limit b < 2 ^ 64 \<Longrightarrow>
   bb_full b' \<and> bb_limit b < length (bb_bytes b) + length (concat ss)"
proof (induction ss arbitrary: b)
  case (Cons s ss)
  let ?b = "b\<lparr>bb_bytes := bb_bytes b @ s\<rparr>"
  have size: "size_sub (bb_limit b) (length (bb_bytes b)) = bb_limit b - length (bb_bytes b)"
    using Cons.prems by (intro size_sub_exact) simp_all
  show ?case
  proof (cases "length s \<le> bb_limit b - length (bb_bytes b)")
    case True
    then have "length (bb_bytes ?b) \<le> bb_limit ?b" using Cons.prems(2) by simp
    moreover have "stream_write ss ?b = (False, b')" using Cons.prems(1) True size by (simp add: xsputn_def)
    ultimately show ?thesis using Cons.IH [of ?b] Cons.prems(3) by simp
  next
    case False
    then show ?thesis using Cons.prems(1) size by (auto simp: xsputn_def)
  qed
qed simp

text \<open>The options are values of \<open>size_t\<close>, and \<open>start\<close> has checked the outbound limit.\<close>

definition limits_fit :: "stdio_options \<Rightarrow> bool" where
  "limits_fit opts \<longleftrightarrow> max_frame_bytes opts < 2 ^ 64 \<and> max_outbound_bytes opts < 2 ^ 64"

definition frame_limit :: "stdio_options \<Rightarrow> nat" where
  "frame_limit opts = min (max_frame_bytes opts) (max_outbound_bytes opts - 1)"

text \<open>A frame: the rendering of a value within the limit, and a newline.\<close>

definition frame_of :: "float_printer \<Rightarrow> stdio_options \<Rightarrow> json \<Rightarrow> string \<Rightarrow> bool" where
  "frame_of fc opts msg bytes \<longleftrightarrow>
     strings_valid msg \<and> bytes = render fc msg @ ''\<newline>'' \<and> length (render fc msg) \<le> frame_limit opts"

lemma stdio_send_cases:
  assumes "limits_fit (limits t)" "0 < max_outbound_bytes (limits t)" "queued_bytes t \<le> max_outbound_bytes (limits t)"
  obtains (rejected) e where "stdio_send fc msg t = (Inl e, t)"
  | (queued) bytes where "stdio_send fc msg t =
        (Inr (), t\<lparr>queue := queue t @ [bytes], queued_bytes := queued_bytes t + length bytes, accepted := accepted t @ [bytes]\<rparr>)"
      "started t" "\<not> closing t" "frame_of fc (limits t) msg bytes"
      "queued_bytes t + length bytes \<le> max_outbound_bytes (limits t)"
proof -
  let ?limit = "min (max_frame_bytes (limits t)) (size_sub (max_outbound_bytes (limits t)) 1)"
  have limit: "?limit = frame_limit (limits t)" "?limit < 2 ^ 64"
    using assms(1,2) by (auto simp: size_sub_exact frame_limit_def limits_fit_def)
  obtain chunks thrown where ws: "stream_json fc msg = (chunks, thrown)" by force
  obtain ok b where b: "stream_write chunks (new_buffer ?limit) = (ok, b)" by force
  have room: "size_sub (max_outbound_bytes (limits t)) (queued_bytes t) = max_outbound_bytes (limits t) - queued_bytes t"
    using assms by (simp add: size_sub_exact limits_fit_def)
  show ?thesis
  proof (cases "started t \<and> \<not> closing t \<and> ok \<and> thrown = None \<and>
      length (bb_bytes b @ ''\<newline>'') \<le> max_outbound_bytes (limits t) - queued_bytes t")
    case True
    then have bytes: "bb_bytes b = concat chunks" "length (concat chunks) \<le> frame_limit (limits t)"
      using stream_write_ok [of chunks "new_buffer ?limit" b] b limit by (auto simp: new_buffer_def)
    have "w_text (stream_json fc msg) = Inr (concat chunks)" using True ws by (simp add: w_text_def)
    then have "json_dump fc msg = Inr (concat chunks)" by (simp add: json_dump_def stream_json_def)
    then have "strings_valid msg" "concat chunks = render fc msg"
      by (simp_all add: json_dump_render split: if_split_asm)
    then have "frame_of fc (limits t) msg (bb_bytes b @ ''\<newline>'')"
      using bytes by (simp add: frame_of_def)
    moreover have "stdio_send fc msg t =
        (Inr (), t\<lparr>queue := queue t @ [bb_bytes b @ ''\<newline>''],
           queued_bytes := queued_bytes t + length (bb_bytes b @ ''\<newline>''),
           accepted := accepted t @ [bb_bytes b @ ''\<newline>'']\<rparr>)"
      using True unfolding stdio_send_def Let_def ws room prod.case b by simp
    ultimately show ?thesis
      using True assms(3) by (intro queued [of "bb_bytes b @ ''\<newline>''"]) (simp_all, linarith)
  next
    case False
    then have "fst (stdio_send fc msg t) \<noteq> Inr () \<and> snd (stdio_send fc msg t) = t"
      unfolding stdio_send_def Let_def ws room prod.case b by (auto simp: stdio_failure_def)
    then obtain e where "stdio_send fc msg t = (Inl e, t)"
      by (cases "stdio_send fc msg t"; cases "fst (stdio_send fc msg t)") auto
    then show ?thesis by (rule rejected)
  qed
qed

subsection \<open>The writer queue\<close>

fun unwritten :: "writer_pc \<Rightarrow> string" where
  "unwritten (WP_write bytes offset) = drop offset bytes"
| "unwritten _ = []"

fun active_bytes :: "writer_pc \<Rightarrow> nat" where
  "active_bytes (WP_write bytes offset) = length bytes"
| "active_bytes _ = 0"

fun writer_live :: "writer_pc \<Rightarrow> bool" where
  "writer_live WP_none = True"
| "writer_live WP_wait = True"
| "writer_live WP_loop = True"
| "writer_live (WP_write bytes offset) = True"
| "writer_live _ = False"

definition stream_ok :: "transport \<Rightarrow> bool" where
  "stream_ok t \<longleftrightarrow>
     (\<exists>rest. concat (accepted t) = written t @ rest \<and>
        (writer_live (writer_at t) \<longrightarrow> rest = unwritten (writer_at t) @ concat (queue t)))"

definition bytes_ok :: "transport \<Rightarrow> bool" where
  "bytes_ok t \<longleftrightarrow>
     sum_list (map length (queue t)) + active_bytes (writer_at t) \<le> queued_bytes t \<and>
     (started t \<longrightarrow> queued_bytes t \<le> max_outbound_bytes (limits t)) \<and>
     (writer_live (writer_at t) \<longrightarrow> queued_bytes t = sum_list (map length (queue t)) + active_bytes (writer_at t))"

definition start_ok :: "transport \<Rightarrow> bool" where
  "start_ok t \<longleftrightarrow>
     limits_fit (limits t) \<and> (started t \<longrightarrow> consumed t \<and> 0 < max_outbound_bytes (limits t)) \<and>
     (\<not> started t \<longrightarrow> accepted t = [] \<and> queue t = [] \<and> queued_bytes t = 0 \<and> written t = [] \<and>
        writer_at t \<in> {WP_none, WP_wait, WP_done})"

definition queue_inv :: "float_printer \<Rightarrow> transport \<Rightarrow> bool" where
  "queue_inv fc t \<longleftrightarrow> start_ok t \<and> bytes_ok t \<and> stream_ok t \<and>
     (\<forall>f \<in> set (accepted t). \<exists>msg. frame_of fc (limits t) msg f)"

lemmas queue_inv_defs = queue_inv_def start_ok_def bytes_ok_def stream_ok_def

text \<open>Only these fields matter, and \<open>consumed\<close> only grows.\<close>

lemma queue_inv_keep:
  assumes "queue_inv fc t" "limits t' = limits t" "started t' = started t" "consumed t \<longrightarrow> consumed t'"
    "queue t' = queue t" "queued_bytes t' = queued_bytes t" "writer_at t' = writer_at t"
    "written t' = written t" "accepted t' = accepted t"
  shows "queue_inv fc t'"
  using assms by (simp add: queue_inv_defs)

lemma queue_inv_leave:
  assumes "queue_inv fc t" "started t" "\<not> writer_live pc"
  shows "queue_inv fc (t\<lparr>writer_at := pc\<rparr>)"
proof -
  have "active_bytes pc = 0" using assms(3) by (cases pc) simp_all
  then show ?thesis using assms by (auto simp: queue_inv_defs)
qed

lemma queue_inv_send:
  assumes "queue_inv fc t"
  shows "queue_inv fc (snd (stdio_send fc msg t))"
proof (cases "started t")
  case False
  then show ?thesis using assms by (simp add: stdio_send_def)
next
  case True
  then have "limits_fit (limits t)" "0 < max_outbound_bytes (limits t)" "queued_bytes t \<le> max_outbound_bytes (limits t)"
    using assms by (simp_all add: queue_inv_defs)
  then show ?thesis
  proof (cases rule: stdio_send_cases [of t fc msg])
    case (rejected e)
    then show ?thesis using assms by simp
  next
    case (queued bytes)
    then show ?thesis using assms True by (auto simp: queue_inv_defs)
  qed
qed

lemma queue_inv_pop:
  assumes "queue_inv fc t" "writer_at t = WP_loop" "writer_pop now t = Some t'"
  shows "queue_inv fc t'"
proof -
  have "started t" using assms(1,2) by (auto simp: queue_inv_defs)
  then show ?thesis
    using assms queue_inv_leave [OF assms(1), of WP_after]
    by (auto simp: writer_pop_def queue_inv_defs split: if_split_asm list.split_asm)
qed

lemma queue_inv_write:
  assumes "queue_inv fc t" "writer_at t = WP_write bytes offset"
    and "case count of None \<Rightarrow> True | Some n \<Rightarrow> n \<le> length bytes - offset"
  shows "queue_inv fc (writer_write count bytes offset t)"
proof -
  have started: "started t" using assms(1,2) by (auto simp: queue_inv_defs)
  have leave: "queue_inv fc (t\<lparr>writer_at := WP_close\<rparr>)" by (rule queue_inv_leave [OF assms(1) started]) simp
  show ?thesis
  proof (cases "offset < length bytes")
    case True
    have "take n (drop offset bytes) @ drop (offset + n) bytes = drop offset bytes" for n
      by (metis add.commute append_take_drop_id drop_drop)
    then show ?thesis
      using assms True leave by (auto simp: writer_write_def queue_inv_defs split: option.split)
  next
    case False
    then have "size_sub (queued_bytes t) (length bytes) = queued_bytes t - length bytes"
      using assms(1,2) started by (intro size_sub_exact) (auto simp: queue_inv_defs limits_fit_def)
    then show ?thesis using assms(1,2) False started by (auto simp: writer_write_def queue_inv_defs)
  qed
qed

text \<open>How \<open>start\<close> can leave the transport.\<close>

abbreviation aborted :: "transport \<Rightarrow> transport" where
  "aborted t \<equiv> t\<lparr>closing := True, released := True, io_stopped := True, aborting := True\<rparr>"

lemma stdio_start_cases:
  obtains (refused) "snd (stdio_start opened writer_ok reader_ok t) = t" "consumed t"
  | (invalid) "snd (stdio_start opened writer_ok reader_ok t) = t\<lparr>consumed := True\<rparr>" "\<not> consumed t"
  | (no_writer) "snd (stdio_start opened writer_ok reader_ok t) = aborted (t\<lparr>consumed := True, io_open := True\<rparr>)"
      "\<not> consumed t"
  | (no_reader) "snd (stdio_start opened writer_ok reader_ok t) =
      aborted (t\<lparr>consumed := True, io_open := True, writer_done := False, writer_at := WP_wait\<rparr>)" "\<not> consumed t"
  | (running) "snd (stdio_start opened writer_ok reader_ok t) =
      t\<lparr>consumed := True, io_open := True, writer_done := False, writer_at := WP_wait, reader_done := False,
        reader_at := RP_wait, started := True, released := True\<rparr>"
      "\<not> consumed t" "stdio_options_valid (limits t)"
proof (cases "consumed t")
  case True
  then show ?thesis by (intro refused) (simp_all add: stdio_start_def)
next
  case False
  show ?thesis
  proof (cases "stdio_options_valid (limits t) \<and> (\<exists>x. opened = Inr x)")
    case True
    then obtain x where x: "opened = Inr x" "stdio_options_valid (limits t)" by blast
    show ?thesis
    proof (cases writer_ok)
      case False
      then show ?thesis using \<open>\<not> consumed t\<close> x by (intro no_writer) (simp_all add: stdio_start_def Let_def)
    next
      case True
      show ?thesis
      proof (cases reader_ok)
        case True
        then show ?thesis using \<open>\<not> consumed t\<close> \<open>writer_ok\<close> x by (intro running) (simp_all add: stdio_start_def Let_def)
      next
        case False
        then show ?thesis using \<open>\<not> consumed t\<close> \<open>writer_ok\<close> x by (intro no_reader) (simp_all add: stdio_start_def Let_def)
      qed
    qed
  next
    case no: False
    then have "snd (stdio_start opened writer_ok reader_ok t) = t\<lparr>consumed := True\<rparr>"
      using False by (cases opened) (auto simp: stdio_start_def Let_def)
    then show ?thesis using False by (rule invalid)
  qed
qed

lemma queue_inv_start:
  assumes "queue_inv fc t"
  shows "queue_inv fc (snd (stdio_start opened writer_ok reader_ok t))"
proof (cases rule: stdio_start_cases [of opened writer_ok reader_ok t])
  case running
  then show ?thesis using assms by (auto simp: queue_inv_defs stdio_options_valid_def)
next
  case no_reader
  then show ?thesis using assms by (auto simp: queue_inv_defs)
next
  case invalid
  then show ?thesis using queue_inv_keep [OF assms, of "t\<lparr>consumed := True\<rparr>"] by simp
next
  case no_writer
  then show ?thesis using queue_inv_keep [OF assms, of "aborted (t\<lparr>consumed := True, io_open := True\<rparr>)"] by simp
next
  case refused
  then show ?thesis using assms by simp
qed

lemma begin_close_fields [simp]:
  "limits (stdio_begin_close r now t) = limits t" "started (stdio_begin_close r now t) = started t"
  "queue (stdio_begin_close r now t) = queue t" "queued_bytes (stdio_begin_close r now t) = queued_bytes t"
  "writer_at (stdio_begin_close r now t) = writer_at t" "written (stdio_begin_close r now t) = written t"
  "accepted (stdio_begin_close r now t) = accepted t" "consumed (stdio_begin_close r now t)"
  "reader_at (stdio_begin_close r now t) = reader_at t" "closing (stdio_begin_close r now t)"
  "reader_line (stdio_begin_close r now t) = reader_line t" "delivered (stdio_begin_close r now t) = delivered t"
  by (simp_all add: stdio_begin_close_def Let_def)

lemma reader_diag_sends:
  obtains pc where "reader_diag fc cont t = (snd (stdio_send fc parse_error_diagnostic t))\<lparr>reader_at := pc\<rparr>"
    "pc = RP_close cr_protocol_limit \<or> pc = RP_bytes cont"
proof -
  obtain r t' where "stdio_send fc parse_error_diagnostic t = (r, t')" by force
  then show ?thesis using that by (cases r) (simp_all add: reader_diag_def)
qed

lemma queue_inv_diag: "queue_inv fc t \<Longrightarrow> queue_inv fc (reader_diag fc cont t)"
  by (rule reader_diag_sends [of fc cont t])
     (use queue_inv_send [of fc t parse_error_diagnostic] in \<open>simp add: queue_inv_defs\<close>)

lemma queue_inv_step: "tstep fc t t' \<Longrightarrow> queue_inv fc t \<Longrightarrow> queue_inv fc t'"
proof (induction rule: tstep.induct)
  case (w_pop t now t')
  then show ?case by (blast intro: queue_inv_pop)
next
  case (w_write t bytes offset count)
  then show ?case by (blast intro: queue_inv_write)
next
  case (w_close t now)
  then have "started t" by (auto simp: queue_inv_defs)
  then show ?case using w_close queue_inv_keep [of fc t "stdio_begin_close cr_io_error now t"]
    by (intro queue_inv_leave) simp_all
next
  case (w_publish t)
  then have "started t" by (auto simp: queue_inv_defs)
  then show ?case using w_publish queue_inv_leave [of fc t WP_finish] queue_inv_leave [of fc t "WP_publish r" for r]
    by (auto simp: writer_publish_def queue_inv_defs split: option.split)
next
  case (w_published t r)
  then have "started t" by (auto simp: queue_inv_defs)
  then show ?case using w_published queue_inv_keep [of fc t "publish_done r t"]
    by (intro queue_inv_leave) (simp_all add: publish_done_def)
next
  case (w_finish t)
  then have "started t" by (auto simp: queue_inv_defs)
  then show ?case using w_finish queue_inv_keep [of fc t "t\<lparr>writer_done := True\<rparr>"]
    queue_inv_leave [of fc "t\<lparr>writer_done := True\<rparr>" WP_done] by simp
next
  case (w_released t)
  then show ?case by (auto simp: writer_released_def queue_inv_defs)
qed (auto simp: queue_inv_send queue_inv_start queue_inv_diag stdio_start_abort_def stdio_join_def stdio_failure_def Let_def
    reader_released_def reader_read_def reader_failed_def reader_byte_def reader_call_def reader_publish_def publish_done_def
    elim: queue_inv_keep split: option.split list.split read_event.split)

lemma queue_inv_new: "limits_fit opts \<Longrightarrow> queue_inv fc (new_transport opts)"
  by (simp add: queue_inv_defs new_transport_def)

interpretation stdio_queue: invariant_system "tstep fc" "queue_inv fc" for fc
  by unfold_locales (rule queue_inv_step)

end
