(* ===== verification/Stdio_Close.thy ===== *)
theory Stdio_Close
  imports Stdio_Inv
begin

text \<open>
  Closing the stdio transport: the first reason wins and is published once, by one of the
  two workers, and a completed wait has seen the publication.
\<close>

fun reader_ended :: "reader_pc \<Rightarrow> bool" where
  "reader_ended RP_after = True"
| "reader_ended (RP_publish r) = True"
| "reader_ended RP_finish = True"
| "reader_ended RP_done = True"
| "reader_ended _ = False"

fun writer_ended :: "writer_pc \<Rightarrow> bool" where
  "writer_ended WP_after = True"
| "writer_ended (WP_publish r) = True"
| "writer_ended WP_finish = True"
| "writer_ended WP_done = True"
| "writer_ended _ = False"

text \<open>The reasons that are being published, at most one.\<close>

fun reader_publishing :: "reader_pc \<Rightarrow> close_reason list" where
  "reader_publishing (RP_publish r) = [r]"
| "reader_publishing _ = []"

fun writer_publishing :: "writer_pc \<Rightarrow> close_reason list" where
  "writer_publishing (WP_publish r) = [r]"
| "writer_publishing _ = []"

definition publications :: "transport \<Rightarrow> close_reason list" where
  "publications t = closed t @ reader_publishing (reader_at t) @ writer_publishing (writer_at t)"

definition claim_ok :: "transport \<Rightarrow> bool" where
  "claim_ok t \<longleftrightarrow>
     (if close_claimed t then started t \<and> closing t \<and> (\<exists>r. reason t = Some r \<and> publications t = [r])
      else publications t = [])"

definition closing_ok :: "transport \<Rightarrow> bool" where
  "closing_ok t \<longleftrightarrow>
     (started t \<longrightarrow> consumed t) \<and> (closing t \<longrightarrow> consumed t) \<and> (reason t \<noteq> None \<longrightarrow> closing t) \<and>
     (started t \<and> closing t \<longrightarrow> reason t \<noteq> None \<and> close_done t = (closed t \<noteq> [])) \<and>
     (reader_stop t \<longrightarrow> closing t)"

definition workers_ok :: "transport \<Rightarrow> bool" where
  "workers_ok t \<longleftrightarrow>
     (if started t then
        (reader_ended (reader_at t) \<or> writer_ended (writer_at t) \<longrightarrow> closing t) \<and>
        (reader_at t \<in> {RP_finish, RP_done} \<or> writer_at t \<in> {WP_finish, WP_done} \<longrightarrow> close_claimed t) \<and>
        (reader_done t \<longrightarrow> reader_at t = RP_done) \<and> (writer_done t \<longrightarrow> writer_at t = WP_done)
      else reader_at t \<in> {RP_none, RP_wait, RP_done} \<and> writer_at t \<in> {WP_none, WP_wait, WP_done})"

definition close_inv :: "transport \<Rightarrow> bool" where
  "close_inv t \<longleftrightarrow> claim_ok t \<and> closing_ok t \<and> workers_ok t"

lemmas close_inv_defs = close_inv_def claim_ok_def closing_ok_def workers_ok_def publications_def

lemma close_inv_new: "close_inv (new_transport opts)"
  by (simp add: close_inv_defs new_transport_def)

lemma stdio_send_fields [simp]:
  "closing (snd (stdio_send fc msg t)) = closing t" "started (snd (stdio_send fc msg t)) = started t"
  "consumed (snd (stdio_send fc msg t)) = consumed t" "reason (snd (stdio_send fc msg t)) = reason t"
  "close_done (snd (stdio_send fc msg t)) = close_done t" "close_claimed (snd (stdio_send fc msg t)) = close_claimed t"
  "closed (snd (stdio_send fc msg t)) = closed t" "reader_stop (snd (stdio_send fc msg t)) = reader_stop t"
  "reader_at (snd (stdio_send fc msg t)) = reader_at t" "writer_at (snd (stdio_send fc msg t)) = writer_at t"
  "reader_done (snd (stdio_send fc msg t)) = reader_done t" "writer_done (snd (stdio_send fc msg t)) = writer_done t"
  "reader_line (snd (stdio_send fc msg t)) = reader_line t" "delivered (snd (stdio_send fc msg t)) = delivered t"
  "limits (snd (stdio_send fc msg t)) = limits t"
  by (simp_all add: stdio_send_def Let_def split: prod.split)

lemma close_inv_keep:
  assumes "close_inv t" "started t' = started t" "consumed t \<longrightarrow> consumed t'" "closing t' = closing t"
    "reason t' = reason t" "close_done t' = close_done t" "close_claimed t' = close_claimed t" "closed t' = closed t"
    "reader_stop t' = reader_stop t" "reader_at t' = reader_at t" "writer_at t' = writer_at t"
    "reader_done t' = reader_done t" "writer_done t' = writer_done t"
  shows "close_inv t'"
proof -
  have "claim_ok t' = claim_ok t" "workers_ok t' = workers_ok t"
    using assms(2-) by (simp_all add: claim_ok_def workers_ok_def publications_def)
  moreover have "closing_ok t \<Longrightarrow> closing_ok t'" using assms(2-) by (simp add: closing_ok_def)
  ultimately show ?thesis using assms(1) by (simp add: close_inv_def)
qed

text \<open>The reader and the writer may move between positions that end nothing.\<close>

lemma close_inv_reader:
  assumes "close_inv t" "started t" "reader_publishing (reader_at t) = []" "reader_publishing pc = []"
    "reader_ended pc \<longrightarrow> closing t" "pc \<notin> {RP_finish, RP_done}" "reader_at t \<noteq> RP_done"
  shows "close_inv (t\<lparr>reader_at := pc\<rparr>)"
  using assms unfolding close_inv_defs by (simp split: if_split_asm)

lemma close_inv_writer:
  assumes "close_inv t" "started t" "writer_publishing (writer_at t) = []" "writer_publishing pc = []"
    "writer_ended pc \<longrightarrow> closing t" "pc \<notin> {WP_finish, WP_done}" "writer_at t \<noteq> WP_done"
  shows "close_inv (t\<lparr>writer_at := pc\<rparr>)"
  using assms unfolding close_inv_defs by (simp split: if_split_asm)

lemma close_inv_begin:
  assumes "close_inv t"
  shows "close_inv (stdio_begin_close r now t)"
proof (cases "closing t")
  case True
  then have "stdio_begin_close r now t = t\<lparr>consumed := True\<rparr>" by (simp add: stdio_begin_close_def Let_def)
  then show ?thesis using close_inv_keep [OF assms, of "t\<lparr>consumed := True\<rparr>"] by simp
next
  case False
  then have "\<not> close_claimed t" "closed t = []" "\<not> reader_stop t" "reason t = None"
    using assms unfolding close_inv_defs by (auto split: if_split_asm)
  then show ?thesis using assms False unfolding close_inv_defs stdio_begin_close_def Let_def
    by (auto split: if_split_asm)
qed

lemma frame_next_plain [simp]:
  "reader_publishing (frame_next opts line cont) = []" "\<not> reader_ended (frame_next opts line cont)"
  "frame_next opts line cont \<noteq> RP_done" "frame_next opts line cont \<noteq> RP_finish"
  by (simp_all add: frame_next_def split: sum.split json_exc.split)

lemma close_inv_start:
  assumes "close_inv t"
  shows "close_inv (snd (stdio_start opened writer_ok reader_ok t))"
proof (cases rule: stdio_start_cases [of opened writer_ok reader_ok t])
  case refused
  then show ?thesis using assms by simp
next
  case invalid
  then show ?thesis using close_inv_keep [OF assms, of "t\<lparr>consumed := True\<rparr>"] by simp
next
  case no_writer
  then have "\<not> started t" using assms by (auto simp: close_inv_defs)
  then show ?thesis unfolding no_writer(1) using assms by (auto simp: close_inv_defs split: if_split_asm)
next
  case no_reader
  then have "\<not> started t" using assms by (auto simp: close_inv_defs)
  then show ?thesis unfolding no_reader(1) using assms by (auto simp: close_inv_defs split: if_split_asm)
next
  case running
  then have "\<not> started t" "\<not> closing t" using assms by (auto simp: close_inv_defs)
  then show ?thesis unfolding running(1) using assms by (auto simp: close_inv_defs split: if_split_asm)
qed

lemma active_reader_started: "close_inv t \<Longrightarrow> reader_at t \<notin> {RP_none, RP_wait, RP_done} \<Longrightarrow> started t"
  by (auto simp: close_inv_defs split: if_split_asm)

lemma active_writer_started: "close_inv t \<Longrightarrow> writer_at t \<notin> {WP_none, WP_wait, WP_done} \<Longrightarrow> started t"
  by (auto simp: close_inv_defs split: if_split_asm)

lemma close_inv_reader_publish:
  assumes "close_inv t" "reader_at t = RP_after"
  shows "close_inv (reader_publish t)"
proof -
  have "started t" using assms active_reader_started [of t] by simp
  moreover from this have "closing t" "reason t \<noteq> None" using assms by (auto simp: close_inv_defs)
  ultimately show ?thesis
    using assms by (cases "close_claimed t") (auto simp: reader_publish_def may_publish_def close_inv_defs)
qed

lemma close_inv_writer_publish:
  assumes "close_inv t" "writer_at t = WP_after"
  shows "close_inv (writer_publish t)"
proof -
  have "started t" using assms active_writer_started [of t] by simp
  moreover from this have "closing t" "reason t \<noteq> None" using assms by (auto simp: close_inv_defs)
  ultimately show ?thesis
    using assms by (cases "close_claimed t") (auto simp: writer_publish_def may_publish_def close_inv_defs)
qed

lemma close_inv_reader_published:
  assumes "close_inv t" "reader_at t = RP_publish r"
  shows "close_inv ((publish_done r t)\<lparr>reader_at := RP_finish\<rparr>)"
proof -
  have "started t" using assms active_reader_started [of t] by simp
  moreover have "close_claimed t" using assms by (auto simp: close_inv_defs split: if_split_asm)
  ultimately show ?thesis
    using assms by (auto simp: publish_done_def close_inv_defs append_eq_Cons_conv)
qed

lemma close_inv_writer_published:
  assumes "close_inv t" "writer_at t = WP_publish r"
  shows "close_inv ((publish_done r t)\<lparr>writer_at := WP_finish\<rparr>)"
proof -
  have "started t" using assms active_writer_started [of t] by simp
  moreover have "close_claimed t" using assms by (auto simp: close_inv_defs split: if_split_asm)
  ultimately show ?thesis
    using assms by (auto simp: publish_done_def close_inv_defs append_eq_Cons_conv)
qed

lemma close_inv_pop:
  assumes "close_inv t" "writer_at t = WP_loop" "writer_pop now t = Some t'"
  shows "close_inv t'"
proof -
  have started: "started t" using assms active_writer_started [of t] by simp
  show ?thesis
  proof (cases "queue t")
    case Nil
    then have "closing t" "t' = t\<lparr>writer_at := WP_after\<rparr>" using assms(3) by (auto simp: writer_pop_def split: if_split_asm)
    then show ?thesis using close_inv_writer [OF assms(1) started, of WP_after] assms(2) by simp
  next
    case (Cons bytes rest)
    let ?t = "t\<lparr>queue := rest\<rparr>"
    have t: "close_inv ?t" "started ?t" using close_inv_keep [OF assms(1), of ?t] started by simp_all
    show ?thesis
      using assms(2,3) Cons close_inv_writer [OF assms(1) started, of WP_after] close_inv_writer [OF t, of "WP_write bytes 0"]
      by (auto simp: writer_pop_def split: if_split_asm)
  qed
qed

lemma close_inv_write:
  assumes "close_inv t" "writer_at t = WP_write bytes offset"
  shows "close_inv (writer_write count bytes offset t)"
proof -
  have started: "started t" using assms active_writer_started [of t] by simp
  let ?w = "\<lambda>x. t\<lparr>written := x\<rparr>" and ?q = "\<lambda>x. t\<lparr>queued_bytes := x\<rparr>"
  have w: "close_inv (?w x)" "close_inv (?q n)" for x n
    using close_inv_keep [OF assms(1), of "?w x"] close_inv_keep [OF assms(1), of "?q n"] by simp_all
  show ?thesis
    using assms(2) started close_inv_writer [OF assms(1) started, of WP_close]
      close_inv_writer [OF w(1), of _ "WP_write bytes k" for k] close_inv_writer [OF w(2), of _ WP_loop]
    by (auto simp: writer_write_def split: option.split)
qed

text \<open>What the reader does to its own fields besides.\<close>

lemma close_inv_local:
  assumes "close_inv t" "started t" "reader_publishing (reader_at t) = []" "reader_publishing pc = []"
    "reader_ended pc \<longrightarrow> closing t" "pc \<notin> {RP_finish, RP_done}" "reader_at t \<noteq> RP_done"
  shows "close_inv (t\<lparr>at_eof := e, reader_at := pc\<rparr>)" "close_inv (t\<lparr>received := r, reader_at := pc\<rparr>)"
    "close_inv (t\<lparr>lines := ls, reader_line := l, reader_at := pc\<rparr>)" "close_inv (t\<lparr>reader_line := l, reader_at := pc\<rparr>)"
  by (rule close_inv_keep [OF close_inv_reader [OF assms]]; simp)+

lemma close_inv_read:
  assumes "close_inv t" "reader_at t = RP_loop"
  shows "close_inv (reader_read ev t)"
proof -
  have started: "started t" using assms active_reader_started [of t] by simp
  have stop: "reader_stop t \<Longrightarrow> closing t" using assms(1) by (simp add: close_inv_defs)
  have plain: "reader_publishing (reader_at t) = []" "reader_at t \<noteq> RP_done" using assms(2) by simp_all
  show ?thesis
    unfolding reader_read_def using stop
    by (auto intro!: close_inv_local [OF assms(1) started plain(1) _ _ _ plain(2)]
        close_inv_reader [OF assms(1) started plain(1) _ _ _ plain(2)] split: read_event.split)
qed

lemma close_inv_byte:
  assumes "close_inv t" "reader_at t = RP_bytes cont"
  shows "close_inv (reader_byte cont t)"
proof -
  have started: "started t" using assms active_reader_started [of t] by simp
  have stop: "reader_stop t \<Longrightarrow> closing t" using assms(1) by (simp add: close_inv_defs)
  have plain: "reader_publishing (reader_at t) = []" "reader_at t \<noteq> RP_done" using assms(2) by simp_all
  show ?thesis
    unfolding reader_byte_def using stop
    by (auto intro!: close_inv_local [OF assms(1) started plain(1) _ _ _ plain(2)]
        close_inv_reader [OF assms(1) started plain(1) _ _ _ plain(2)] split: option.split list.split)
qed

lemma close_inv_diag:
  assumes "close_inv t" "reader_at t = RP_diag cont"
  shows "close_inv (reader_diag fc cont t)"
proof (rule reader_diag_sends [of fc cont t])
  fix pc
  let ?t = "snd (stdio_send fc parse_error_diagnostic t)"
  have "started t" using assms active_reader_started [of t] by simp
  moreover have "close_inv ?t" using close_inv_keep [OF assms(1), of ?t] by simp
  moreover assume "reader_diag fc cont t = ?t\<lparr>reader_at := pc\<rparr>" "pc = RP_close cr_protocol_limit \<or> pc = RP_bytes cont"
  ultimately show ?thesis using assms(2) close_inv_reader [of ?t pc] by auto
qed

lemma close_inv_call:
  assumes "close_inv t" "reader_at t = RP_call v cont"
  shows "close_inv (reader_call returned v cont t)"
proof -
  let ?t = "t\<lparr>delivered := delivered t @ [v]\<rparr>"
  have "started t" using assms active_reader_started [of t] by simp
  moreover have "close_inv ?t" using close_inv_keep [OF assms(1), of ?t] by simp
  ultimately show ?thesis using assms(2) close_inv_reader [of ?t] by (simp add: reader_call_def)
qed

lemma close_inv_step: "tstep fc t t' \<Longrightarrow> close_inv t \<Longrightarrow> close_inv t'"
proof (induction rule: tstep.induct)
  case (t_abort t)
  then show ?case using close_inv_keep [of t "t\<lparr>io_open := False, aborting := False\<rparr>"]
    by (simp add: stdio_start_abort_def)
next
  case (t_send t msg)
  then show ?case using close_inv_keep [of t "snd (stdio_send fc msg t)"] by simp
next
  case (t_signal t)
  then show ?case by (auto simp: close_inv_defs split: if_split_asm)
next
  case (t_join t in_callback now deadline)
  then show ?case using close_inv_keep [of t "t\<lparr>io_stopped := True\<rparr>"] by (simp add: stdio_join_def Let_def)
next
  case (r_released t)
  then show ?case using close_inv_reader [of t RP_loop]
    by (auto simp: reader_released_def close_inv_defs split: if_split_asm)
next
  case (w_released t)
  then show ?case using close_inv_writer [of t WP_loop]
    by (auto simp: writer_released_def close_inv_defs split: if_split_asm)
next
  case (r_failed t)
  then have "started t" using active_reader_started [of t] by simp
  moreover have "reader_stop t \<Longrightarrow> closing t" using r_failed by (simp add: close_inv_defs)
  ultimately show ?case using r_failed close_inv_reader [of t] by (auto simp: reader_failed_def)
next
  case (r_close t r now)
  then have "started t" using active_reader_started [of t] by simp
  then show ?case using r_close close_inv_reader [OF close_inv_begin [of t r now], of RP_after] by simp
next
  case (w_close t now)
  then have "started t" using active_writer_started [of t] by simp
  then show ?case using w_close close_inv_writer [OF close_inv_begin [of t cr_io_error now], of WP_after] by simp
next
  case (r_finish t)
  then have "started t" using active_reader_started [of t] by simp
  then show ?case using r_finish by (auto simp: close_inv_defs)
next
  case (w_finish t)
  then have "started t" using active_writer_started [of t] by simp
  then show ?case using w_finish by (auto simp: close_inv_defs)
qed (blast intro: close_inv_start close_inv_begin close_inv_read close_inv_byte close_inv_diag close_inv_call
    close_inv_reader_publish close_inv_writer_publish close_inv_reader_published close_inv_writer_published
    close_inv_pop close_inv_write)+

interpretation stdio_close: invariant_system "tstep fc" close_inv for fc
  by unfold_locales (rule close_inv_step)

text \<open>A completed wait.\<close>

lemma joined_published:
  assumes "close_inv t" "started t" "reader_done t" "writer_done t" "close_done t"
  shows "\<exists>r. reason t = Some r \<and> closed t = [r]"
proof -
  have at: "reader_at t = RP_done" "writer_at t = WP_done" using assms by (simp_all add: close_inv_defs)
  then have "close_claimed t" using assms(1,2) by (simp add: close_inv_defs)
  then show ?thesis using assms(1) at by (auto simp: close_inv_defs)
qed

lemma closed_once: "close_inv t \<Longrightarrow> closed t = [] \<or> (\<exists>r. closed t = [r] \<and> reason t = Some r)"
  by (auto simp: close_inv_defs append_eq_Cons_conv split: if_split_asm)

text \<open>The first reason stays.\<close>

lemma reason_closing: "close_inv t \<Longrightarrow> reason t = Some r \<Longrightarrow> closing t"
  by (simp add: close_inv_defs)

lemma reason_diag: "reason (reader_diag fc cont t) = reason t"
  by (rule reader_diag_sends [of fc cont t]) simp_all

lemma reason_kept: "tstep fc t t' \<Longrightarrow> closing t \<Longrightarrow> reason t = Some r \<Longrightarrow> reason t' = Some r"
proof (induction rule: tstep.induct)
  case (t_start t opened writer_ok reader_ok)
  show ?case by (rule stdio_start_cases [of opened writer_ok reader_ok t]) (simp_all add: t_start)
next
  case (w_pop t now t')
  then show ?case by (auto simp: writer_pop_def split: if_split_asm list.split_asm)
qed (auto simp: stdio_start_abort_def stdio_begin_close_def stdio_join_def reader_released_def reader_read_def
    reader_failed_def reader_byte_def reader_call_def reader_publish_def publish_done_def writer_released_def
    writer_write_def writer_publish_def Let_def reason_diag split: option.split list.split read_event.split)


subsection \<open>What the reader hands out\<close>

text \<open>A value for the callback was parsed from a line within the limits.\<close>

definition deliverable :: "stdio_options \<Rightarrow> json \<Rightarrow> bool" where
  "deliverable opts v \<longleftrightarrow>
     (\<exists>line. length line \<le> max_frame_bytes opts \<and> \<not> excessive_depth opts line \<and> json_parse line = Inr v)"

definition reader_inv :: "transport \<Rightarrow> bool" where
  "reader_inv t \<longleftrightarrow>
     length (reader_line t) \<le> max_frame_bytes (limits t) \<and>
     (\<forall>v \<in> set (delivered t). deliverable (limits t) v) \<and>
     (\<forall>v cont. reader_at t = RP_call v cont \<longrightarrow> deliverable (limits t) v)"

lemma frame_next_call:
  "frame_next opts line cont = RP_call v cont' \<Longrightarrow> length line \<le> max_frame_bytes opts \<Longrightarrow> deliverable opts v"
  by (auto simp: frame_next_def deliverable_def split: if_split_asm sum.split_asm json_exc.split_asm)

lemma reader_inv_new: "reader_inv (new_transport opts)"
  by (simp add: reader_inv_def new_transport_def)

lemma reader_inv_diag: "reader_inv t \<Longrightarrow> reader_inv (reader_diag fc cont t)"
  by (rule reader_diag_sends [of fc cont t]) (auto simp: reader_inv_def)

lemma reader_inv_step: "tstep fc t t' \<Longrightarrow> reader_inv t \<Longrightarrow> reader_inv t'"
proof (induction rule: tstep.induct)
  case (t_start t opened writer_ok reader_ok)
  show ?case by (rule stdio_start_cases [of opened writer_ok reader_ok t]) (use t_start in \<open>simp_all add: reader_inv_def\<close>)
next
  case (w_pop t now t')
  then show ?case by (auto simp: writer_pop_def reader_inv_def split: if_split_asm list.split_asm)
next
  case (r_read t ev)
  then show ?case using frame_next_call [of "limits t" "reader_line t"]
    by (auto simp: reader_read_def reader_inv_def split: read_event.split)
next
  case (r_byte t cont)
  then show ?case using frame_next_call [of "limits t" "reader_line t"]
    by (auto simp: reader_byte_def reader_inv_def split: option.split list.split)
qed (auto simp: reader_inv_def stdio_start_abort_def stdio_begin_close_def stdio_join_def reader_released_def
    reader_failed_def reader_call_def reader_publish_def publish_done_def writer_released_def
    writer_write_def writer_publish_def Let_def reader_inv_diag [unfolded reader_inv_def]
    split: option.split)

interpretation stdio_reader: invariant_system "tstep fc" reader_inv for fc
  by unfold_locales (rule reader_inv_step)

lemma limits_kept: "tstep fc t t' \<Longrightarrow> limits t' = limits t"
proof (induction rule: tstep.induct)
  case (t_start t opened writer_ok reader_ok)
  show ?case by (rule stdio_start_cases [of opened writer_ok reader_ok t]) simp_all
next
  case (w_pop t now t')
  then show ?case by (auto simp: writer_pop_def split: if_split_asm list.split_asm)
next
  case (r_diag t cont)
  show ?case by (rule reader_diag_sends [of fc cont t]) simp_all
qed (auto simp: stdio_start_abort_def stdio_join_def reader_released_def reader_read_def
    reader_failed_def reader_byte_def reader_call_def reader_publish_def publish_done_def writer_released_def
    writer_write_def writer_publish_def Let_def split: option.split list.split read_event.split)

lemma limits_run: "(tstep fc)\<^sup>*\<^sup>* t t' \<Longrightarrow> limits t' = limits t"
  by (induction rule: rtranclp_induct) (simp_all add: limits_kept)

end
