(* ===== verification/Stdio_Lines.thy ===== *)
theory Stdio_Lines
  imports Stdio_Close
begin

text \<open>
  What the reader of the stdio transport makes of its input: the lines it has handled are
  those of the bytes received, wherever the chunks were cut, and the message callback gets
  the values of exactly these lines, in order.
\<close>

definition value_of :: "stdio_options \<Rightarrow> string \<Rightarrow> json option" where
  "value_of opts line =
     (if line = [] \<or> excessive_depth opts line then None
      else case json_parse line of Inl _ \<Rightarrow> None | Inr v \<Rightarrow> Some v)"

text \<open>The lines given to \<open>frame\<close>; at the end of the input also the unfinished one.\<close>

definition handled :: "transport \<Rightarrow> string list" where
  "handled t = lines t @ (if at_eof t then [reader_line t] else [])"

fun pending_call :: "reader_pc \<Rightarrow> json list" where
  "pending_call (RP_call v cont) = [v]"
| "pending_call _ = []"

text \<open>The bytes of the current chunk still to be scanned, while the reader goes on.\<close>

fun unread :: "reader_pc \<Rightarrow> string" where
  "unread (RP_bytes (Some cs)) = cs"
| "unread (RP_diag (Some cs)) = cs"
| "unread (RP_call v (Some cs)) = cs"
| "unread _ = []"

fun reader_gone :: "reader_pc \<Rightarrow> bool" where
  "reader_gone (RP_close r) = True"
| "reader_gone pc = reader_ended pc"

fun at_input_end :: "reader_pc \<Rightarrow> bool" where
  "at_input_end (RP_bytes None) = True"
| "at_input_end (RP_diag None) = True"
| "at_input_end (RP_call v None) = True"
| "at_input_end pc = reader_gone pc"

definition split_ok :: "transport \<Rightarrow> bool" where
  "split_ok t \<longleftrightarrow>
     (\<exists>rest. received t = concat (map (\<lambda>l. l @ ''\<newline>'') (lines t)) @ reader_line t @ rest \<and>
        (reader_gone (reader_at t) \<or> rest = unread (reader_at t))) \<and>
     (\<forall>l \<in> insert (reader_line t) (set (lines t)). CHR ''\<newline>'' \<notin> set l)"

definition deliver_ok :: "transport \<Rightarrow> bool" where
  "deliver_ok t \<longleftrightarrow>
     delivered t @ pending_call (reader_at t) = List.map_filter (value_of (limits t)) (handled t)"

definition lines_inv :: "transport \<Rightarrow> bool" where
  "lines_inv t \<longleftrightarrow>
     split_ok t \<and> deliver_ok t \<and> (at_eof t \<longrightarrow> at_input_end (reader_at t)) \<and>
     (\<not> consumed t \<longrightarrow> reader_at t = RP_none)"

lemmas lines_inv_defs = lines_inv_def split_ok_def deliver_ok_def handled_def

lemma lines_inv_new: "lines_inv (new_transport opts)"
  by (simp add: lines_inv_defs new_transport_def map_filter_simps)

lemma lines_inv_keep:
  assumes "lines_inv t" "limits t' = limits t" "consumed t \<longrightarrow> consumed t'" "reader_at t' = reader_at t"
    "received t' = received t" "lines t' = lines t" "reader_line t' = reader_line t" "at_eof t' = at_eof t"
    "delivered t' = delivered t"
  shows "lines_inv t'"
proof -
  have "split_ok t' = split_ok t" "deliver_ok t' = deliver_ok t"
    using assms(2-) by (simp_all add: split_ok_def deliver_ok_def handled_def)
  moreover have "\<not> consumed t' \<Longrightarrow> \<not> consumed t" using assms(3) by blast
  ultimately show ?thesis using assms by (simp add: lines_inv_def)
qed

text \<open>Leaving the reading positions.\<close>

lemma reader_gone_simps: "reader_gone pc \<Longrightarrow> pending_call pc = [] \<and> at_input_end pc \<and> unread pc = []"
  by (cases pc) simp_all

lemma lines_inv_gone:
  assumes "lines_inv t" "consumed t" "pending_call (reader_at t) = []" "reader_gone pc"
  shows "lines_inv (t\<lparr>reader_at := pc\<rparr>)"
  using assms reader_gone_simps [OF assms(4)] by (auto simp: lines_inv_defs)

lemma frame_next_lines:
  "pending_call (frame_next opts line cont) = (case value_of opts line of None \<Rightarrow> [] | Some v \<Rightarrow> [v])"
  "reader_gone (frame_next opts line cont) \<or> unread (frame_next opts line cont) = unread (RP_bytes cont)"
  "at_input_end (frame_next opts line None)"
  by (cases cont; auto simp: frame_next_def value_of_def split: sum.split json_exc.split)+

lemma map_filter_snoc: "List.map_filter f (xs @ [x]) = List.map_filter f xs @ (case f x of None \<Rightarrow> [] | Some y \<Rightarrow> [y])"
  by (induction xs) (auto simp: map_filter_simps split: option.split)

lemma lines_inv_read:
  assumes "lines_inv t" "reader_at t = RP_loop"
  shows "lines_inv (reader_read ev t)"
proof -
  have c: "consumed t" "\<not> at_eof t" using assms by (auto simp: lines_inv_def)
  have recv: "received t = concat (map (\<lambda>l. l @ ''\<newline>'') (lines t)) @ reader_line t"
    and del: "delivered t = List.map_filter (value_of (limits t)) (lines t)"
    using assms c by (auto simp: lines_inv_defs)
  have none: "value_of (limits t) [] = None" by (simp add: value_of_def)
  show ?thesis
  proof (cases "reader_stop t")
    case True
    then show ?thesis using lines_inv_gone [OF assms(1) c(1), of RP_after] assms(2) by (simp add: reader_read_def)
  next
    case False
    show ?thesis
    proof (cases ev)
      case Read_failed
      then show ?thesis using False assms c by (simp add: reader_read_def lines_inv_defs)
    next
      case (Read_bytes bs)
      then show ?thesis
        using False assms(1) c recv del none frame_next_lines(1,2) [of "limits t" "reader_line t" None] frame_next_lines(3) [of "limits t" "reader_line t"]
        by (auto simp: reader_read_def lines_inv_defs map_filter_snoc)
    qed
  qed
qed

lemma lines_inv_byte:
  assumes "lines_inv t" "reader_at t = RP_bytes cont"
  shows "lines_inv (reader_byte cont t)"
proof (cases cont)
  case None
  have "consumed t" using assms by (auto simp: lines_inv_def)
  then show ?thesis using lines_inv_gone [OF assms(1), of "RP_close cr_eof"] assms(2) None by (simp add: reader_byte_def)
next
  case (Some bs)
  have c: "consumed t" "\<not> at_eof t" using assms Some by (auto simp: lines_inv_def)
  have recv: "received t = concat (map (\<lambda>l. l @ ''\<newline>'') (lines t)) @ reader_line t @ bs"
    and del: "delivered t = List.map_filter (value_of (limits t)) (lines t)"
    using assms c Some by (auto simp: lines_inv_defs)
  have gone: "pc = RP_after \<or> pc = RP_close r \<Longrightarrow> lines_inv (t\<lparr>reader_at := pc\<rparr>)" for pc r
    using lines_inv_gone [OF assms(1) c(1), of pc] assms(2) by auto
  show ?thesis
  proof (cases bs)
    case Nil
    then show ?thesis using assms(1) c recv del Some by (simp add: reader_byte_def lines_inv_defs)
  next
    case (Cons ch cs)
    have line: "lines_inv (t\<lparr>lines := lines t @ [reader_line t], reader_line := [],
        reader_at := frame_next (limits t) (reader_line t) (Some cs)\<rparr>)" if "ch = CHR ''\<newline>''"
      using assms(1) c recv del Cons that frame_next_lines(1,2) [of "limits t" "reader_line t" "Some cs"]
      by (auto simp: lines_inv_defs map_filter_snoc)
    have char: "lines_inv (t\<lparr>reader_line := reader_line t @ [ch], reader_at := RP_bytes (Some cs)\<rparr>)"
      if "ch \<noteq> CHR ''\<newline>''"
      using assms(1) c recv del Cons that by (auto simp: lines_inv_defs)
    show ?thesis using gone line char Some Cons by (simp add: reader_byte_def)
  qed
qed

lemma lines_inv_diag:
  assumes "lines_inv t" "reader_at t = RP_diag cont"
  shows "lines_inv (reader_diag fc cont t)"
proof (rule reader_diag_sends [of fc cont t])
  fix pc
  let ?t = "snd (stdio_send fc parse_error_diagnostic t)"
  assume pc: "reader_diag fc cont t = ?t\<lparr>reader_at := pc\<rparr>" "pc = RP_close cr_protocol_limit \<or> pc = RP_bytes cont"
  have hist: "received ?t = received t" "lines ?t = lines t" "at_eof ?t = at_eof t"
    by (simp_all add: stdio_send_def Let_def split: prod.split)
  have t: "lines_inv ?t" "consumed ?t" "reader_at ?t = RP_diag cont"
    using lines_inv_keep [OF assms(1), of ?t] assms hist by (auto simp: lines_inv_def)
  then show ?thesis
    using pc lines_inv_gone [of ?t "RP_close cr_protocol_limit"]
    by (cases cont) (auto simp: lines_inv_defs)
qed

lemma lines_inv_call:
  assumes "lines_inv t" "reader_at t = RP_call v cont"
  shows "lines_inv (reader_call returned v cont t)"
  using assms by (cases cont) (auto simp: reader_call_def lines_inv_defs)

lemma lines_inv_publish:
  assumes "lines_inv t" "consumed t" "reader_at t = RP_after"
  shows "lines_inv (reader_publish t)"
proof (cases "may_publish t")
  case None
  then show ?thesis using lines_inv_gone [OF assms(1,2), of RP_finish] assms(3) by (simp add: reader_publish_def)
next
  case (Some r)
  let ?t = "t\<lparr>close_claimed := True\<rparr>"
  have "lines_inv ?t" by (rule lines_inv_keep [OF assms(1)]) simp_all
  then have "lines_inv (?t\<lparr>reader_at := RP_publish r\<rparr>)"
    using assms(2,3) by (intro lines_inv_gone) simp_all
  then show ?thesis using Some by (simp add: reader_publish_def)
qed

lemma lines_inv_step: "tstep fc t t' \<Longrightarrow> lines_inv t \<Longrightarrow> lines_inv t'"
proof (induction rule: tstep.induct)
  case (t_start t opened writer_ok reader_ok)
  show ?case
  proof (cases rule: stdio_start_cases [of opened writer_ok reader_ok t])
    case running
    then show ?thesis unfolding running(1) using t_start by (auto simp: lines_inv_defs)
  next
    case no_reader
    show ?thesis unfolding no_reader(1) by (rule lines_inv_keep [OF t_start]) simp_all
  next
    case no_writer
    show ?thesis unfolding no_writer(1) by (rule lines_inv_keep [OF t_start]) simp_all
  next
    case invalid
    show ?thesis unfolding invalid(1) by (rule lines_inv_keep [OF t_start]) simp_all
  qed (simp add: t_start)
next
  case (t_send t msg)
  show ?case by (rule lines_inv_keep [OF t_send]) (simp_all add: stdio_send_def Let_def split: prod.split)
next
  case (w_pop t now t')
  show ?case by (rule lines_inv_keep [OF w_pop(3)]) (use w_pop in \<open>auto simp: writer_pop_def split: if_split_asm list.split_asm\<close>)
next
  case (r_released t)
  then have "consumed t" by (auto simp: lines_inv_def)
  then show ?case using r_released lines_inv_gone [of t RP_done] lines_inv_keep [of "t\<lparr>reader_at := RP_done\<rparr>" "reader_released t"]
    by (auto simp: reader_released_def lines_inv_defs)
next
  case (r_failed t)
  then have "consumed t" by (auto simp: lines_inv_def)
  then show ?case using r_failed lines_inv_gone [of t] by (simp add: reader_failed_def)
next
  case (r_close t r now)
  then show ?case
    using lines_inv_keep [of t "stdio_begin_close r now t"] lines_inv_gone [of "stdio_begin_close r now t" RP_after]
    by (simp add: stdio_begin_close_def Let_def)
next
  case (r_publish t)
  then have "consumed t" by (auto simp: lines_inv_def)
  then show ?case using r_publish by (intro lines_inv_publish)
next
  case (r_published t r)
  then have "consumed t" by (auto simp: lines_inv_def)
  then show ?case using r_published lines_inv_keep [of t "publish_done r t"] lines_inv_gone [of "publish_done r t" RP_finish]
    by (simp add: publish_done_def)
next
  case (r_finish t)
  then have "consumed t" by (auto simp: lines_inv_def)
  then show ?case using r_finish lines_inv_keep [of t "t\<lparr>reader_done := True\<rparr>"]
    lines_inv_gone [of "t\<lparr>reader_done := True\<rparr>" RP_done] by simp
qed (auto simp: lines_inv_read lines_inv_byte lines_inv_diag lines_inv_call stdio_start_abort_def stdio_begin_close_def
    stdio_join_def publish_done_def writer_released_def writer_write_def writer_publish_def Let_def
    elim: lines_inv_keep split: option.split)

interpretation stdio_lines: invariant_system "tstep fc" lines_inv for fc
  by unfold_locales (rule lines_inv_step)

end
