(* ===== verification/Stdio_Properties.thy ===== *)
theory Stdio_Properties
  imports Stdio_Lines Parser_Properties
begin

text \<open>
  The properties of the stdio transport, over all interleavings of its callers, its reader
  and its writer, and a complete run on which they are instantiated: one frame in, one
  frame out, end of the input, close callback, a completed wait.
\<close>

subsection \<open>A complete run\<close>

definition sd_idle :: transport where
  "sd_idle = new_transport default_stdio_options"

definition sd_running :: "reader_pc \<Rightarrow> writer_pc \<Rightarrow> transport" where
  "sd_running r w =
     sd_idle\<lparr>consumed := True, io_open := True, writer_done := False, writer_at := w, reader_done := False,
       reader_at := r, started := True, released := True\<rparr>"

text \<open>The reader has received one frame, and has the line \<open>l\<close>.\<close>

definition sd_reading :: "reader_pc \<Rightarrow> string \<Rightarrow> transport" where
  "sd_reading r l = (sd_running r WP_loop)\<lparr>received := ''[]'' @ ''\<newline>'', reader_line := l\<rparr>"

definition sd_called :: "reader_pc \<Rightarrow> writer_pc \<Rightarrow> json list \<Rightarrow> transport" where
  "sd_called r w vs =
     (sd_running r w)\<lparr>received := ''[]'' @ ''\<newline>'', lines := [''[]''], delivered := vs\<rparr>"

text \<open>An answer has been sent and written; then the input ends.\<close>

definition sd_sent :: "reader_pc \<Rightarrow> writer_pc \<Rightarrow> transport" where
  "sd_sent r w = (sd_called r w [JArr []])\<lparr>queued_bytes := 5, accepted := [''null'' @ ''\<newline>'']\<rparr>"

definition sd_written :: "reader_pc \<Rightarrow> transport" where
  "sd_written r = (sd_sent r WP_loop)\<lparr>queued_bytes := 0, written := ''null'' @ ''\<newline>''\<rparr>"

definition sd_closing :: "reader_pc \<Rightarrow> writer_pc \<Rightarrow> transport" where
  "sd_closing r w =
     (sd_written r)\<lparr>writer_at := w, at_eof := True, closing := True, reason := Some cr_eof, flush_deadline := 250,
       close_done := False\<rparr>"

definition sd_closed :: "reader_pc \<Rightarrow> writer_pc \<Rightarrow> bool \<Rightarrow> bool \<Rightarrow> transport" where
  "sd_closed r w rd wd =
     (sd_closing r w)\<lparr>close_claimed := True, closed := [cr_eof], close_done := True, reader_done := rd, writer_done := wd\<rparr>"

lemmas sd_defs = sd_idle_def sd_running_def sd_reading_def sd_called_def sd_sent_def sd_written_def sd_closing_def
  sd_closed_def new_transport_def default_stdio_options_def

abbreviation nl :: string where "nl \<equiv> ''\<newline>''"

lemma sdemo_frame: "frame_next default_stdio_options ''[]'' cont = RP_call (JArr []) cont"
proof -
  have "json_parse ''[]'' = Inr (JArr [])" using json_parse_render [of "JArr []"] by simp
  then show ?thesis by (simp add: frame_next_def excessive_depth_def default_stdio_options_def)
qed

lemma sdemo_started: "(tstep fc)\<^sup>*\<^sup>* sd_idle (sd_running RP_loop WP_loop)"
proof -
  have s1: "(tstep fc)\<^sup>*\<^sup>* sd_idle (sd_running RP_wait WP_wait)"
    using r_into_rtranclp [of "tstep fc", OF t_start [of fc sd_idle "Inr ()" True True]]
    by (simp add: stdio_start_def stdio_options_valid_def sd_defs Let_def)
  have s2: "(tstep fc)\<^sup>*\<^sup>* (sd_running RP_wait WP_wait) (sd_running RP_loop WP_wait)"
    using r_into_rtranclp [of "tstep fc", OF r_released [of "sd_running RP_wait WP_wait" fc]]
    by (simp add: reader_released_def sd_defs)
  have s3: "(tstep fc)\<^sup>*\<^sup>* (sd_running RP_loop WP_wait) (sd_running RP_loop WP_loop)"
    using r_into_rtranclp [of "tstep fc", OF w_released [of "sd_running RP_loop WP_wait" fc]]
    by (simp add: writer_released_def sd_defs)
  show ?thesis by (rule rtranclp_trans [OF s1 rtranclp_trans [OF s2 s3]])
qed

lemma sdemo_bytes: "(tstep fc)\<^sup>*\<^sup>* (sd_running RP_loop WP_loop) (sd_reading (RP_bytes (Some nl)) ''[]'')"
proof -
  have s1: "(tstep fc)\<^sup>*\<^sup>* (sd_running RP_loop WP_loop) (sd_reading (RP_bytes (Some (''[]'' @ nl))) [])"
    using r_into_rtranclp [of "tstep fc", OF r_read [of "sd_running RP_loop WP_loop" fc "Read_bytes (''[]'' @ nl)"]]
    by (simp add: reader_read_def sd_defs)
  have s2: "(tstep fc)\<^sup>*\<^sup>* (sd_reading (RP_bytes (Some (''[]'' @ nl))) []) (sd_reading (RP_bytes (Some ('']'' @ nl))) ''['')"
    using r_into_rtranclp [of "tstep fc", OF r_byte [of "sd_reading (RP_bytes (Some (''[]'' @ nl))) []" "Some (''[]'' @ nl)" fc]]
    by (simp add: reader_byte_def sd_defs)
  have s3: "(tstep fc)\<^sup>*\<^sup>* (sd_reading (RP_bytes (Some ('']'' @ nl))) ''['') (sd_reading (RP_bytes (Some nl)) ''[]'')"
    using r_into_rtranclp [of "tstep fc", OF r_byte [of "sd_reading (RP_bytes (Some ('']'' @ nl))) ''[''" "Some ('']'' @ nl)" fc]]
    by (simp add: reader_byte_def sd_defs)
  show ?thesis by (rule rtranclp_trans [OF s1 rtranclp_trans [OF s2 s3]])
qed

lemma sdemo_called: "(tstep fc)\<^sup>*\<^sup>* (sd_reading (RP_bytes (Some nl)) ''[]'') (sd_called RP_loop WP_loop [JArr []])"
proof -
  have s1: "(tstep fc)\<^sup>*\<^sup>* (sd_reading (RP_bytes (Some nl)) ''[]'') (sd_called (RP_call (JArr []) (Some [])) WP_loop [])"
    using r_into_rtranclp [of "tstep fc", OF r_byte [of "sd_reading (RP_bytes (Some nl)) ''[]''" "Some nl" fc]]
      sdemo_frame [of "Some []"]
    by (simp add: reader_byte_def sd_defs)
  have s2: "(tstep fc)\<^sup>*\<^sup>* (sd_called (RP_call (JArr []) (Some [])) WP_loop []) (sd_called (RP_bytes (Some [])) WP_loop [JArr []])"
    using r_into_rtranclp [of "tstep fc", OF r_call [of "sd_called (RP_call (JArr []) (Some [])) WP_loop []" "JArr []" "Some []" fc True]]
    by (simp add: reader_call_def sd_defs)
  have s3: "(tstep fc)\<^sup>*\<^sup>* (sd_called (RP_bytes (Some [])) WP_loop [JArr []]) (sd_called RP_loop WP_loop [JArr []])"
    using r_into_rtranclp [of "tstep fc", OF r_byte [of "sd_called (RP_bytes (Some [])) WP_loop [JArr []]" "Some []" fc]]
    by (simp add: reader_byte_def sd_defs)
  show ?thesis by (rule rtranclp_trans [OF s1 rtranclp_trans [OF s2 s3]])
qed

lemma sdemo_send:
  "snd (stdio_send fc JNull (sd_called RP_loop WP_loop [JArr []])) =
   (sd_sent RP_loop WP_loop)\<lparr>queue := [''null'' @ nl]\<rparr>"
  by (simp add: stdio_send_def stream_json_def w_chars_def new_buffer_def xsputn_def size_sub_def sd_defs Let_def)

lemma sdemo_written: "(tstep fc)\<^sup>*\<^sup>* (sd_called RP_loop WP_loop [JArr []]) (sd_written RP_loop)"
proof -
  have s1: "(tstep fc)\<^sup>*\<^sup>* (sd_called RP_loop WP_loop [JArr []]) ((sd_sent RP_loop WP_loop)\<lparr>queue := [''null'' @ nl]\<rparr>)"
    using t_send [of fc "sd_called RP_loop WP_loop [JArr []]" JNull] unfolding sdemo_send by (rule r_into_rtranclp)
  have s2: "(tstep fc)\<^sup>*\<^sup>* ((sd_sent RP_loop WP_loop)\<lparr>queue := [''null'' @ nl]\<rparr>) (sd_sent RP_loop (WP_write (''null'' @ nl) 0))"
    using r_into_rtranclp [of "tstep fc", OF w_pop [of "(sd_sent RP_loop WP_loop)\<lparr>queue := [''null'' @ nl]\<rparr>" 0 "sd_sent RP_loop (WP_write (''null'' @ nl) 0)" fc]]
    by (simp add: writer_pop_def sd_defs)
  have s3: "(tstep fc)\<^sup>*\<^sup>* (sd_sent RP_loop (WP_write (''null'' @ nl) 0)) ((sd_sent RP_loop (WP_write (''null'' @ nl) 5))\<lparr>written := ''null'' @ nl\<rparr>)"
    using r_into_rtranclp [of "tstep fc", OF w_write [of "sd_sent RP_loop (WP_write (''null'' @ nl) 0)" "''null'' @ nl" 0 "Some 5" fc]]
    by (simp add: writer_write_def sd_defs)
  have s4: "(tstep fc)\<^sup>*\<^sup>* ((sd_sent RP_loop (WP_write (''null'' @ nl) 5))\<lparr>written := ''null'' @ nl\<rparr>) (sd_written RP_loop)"
    using r_into_rtranclp [of "tstep fc", OF w_write [of "(sd_sent RP_loop (WP_write (''null'' @ nl) 5))\<lparr>written := ''null'' @ nl\<rparr>" "''null'' @ nl" 5 "Some 0" fc]]
    by (simp add: writer_write_def size_sub_def sd_defs)
  show ?thesis by (rule rtranclp_trans [OF s1 rtranclp_trans [OF s2 rtranclp_trans [OF s3 s4]]])
qed

lemma sdemo_ended: "(tstep fc)\<^sup>*\<^sup>* (sd_written RP_loop) (sd_closing RP_after WP_loop)"
proof -
  have s1: "(tstep fc)\<^sup>*\<^sup>* (sd_written RP_loop) ((sd_written (RP_close cr_eof))\<lparr>at_eof := True\<rparr>)"
    using r_into_rtranclp [of "tstep fc", OF r_read [of "sd_written RP_loop" fc "Read_bytes []"]]
    by (simp add: reader_read_def sd_defs)
  have s2: "(tstep fc)\<^sup>*\<^sup>* ((sd_written (RP_close cr_eof))\<lparr>at_eof := True\<rparr>) (sd_closing RP_after WP_loop)"
    using r_into_rtranclp [of "tstep fc", OF r_close [of "(sd_written (RP_close cr_eof))\<lparr>at_eof := True\<rparr>" cr_eof fc 0]]
    by (simp add: stdio_begin_close_def Let_def sd_defs)
  show ?thesis by (rule rtranclp_trans [OF s1 s2])
qed

lemma sdemo_closed: "(tstep fc)\<^sup>*\<^sup>* (sd_closing RP_after WP_loop) (sd_closed RP_done WP_done True True)"
proof -
  have s1: "(tstep fc)\<^sup>*\<^sup>* (sd_closing RP_after WP_loop) ((sd_closing (RP_publish cr_eof) WP_loop)\<lparr>close_claimed := True\<rparr>)"
    using r_into_rtranclp [of "tstep fc", OF r_publish [of "sd_closing RP_after WP_loop" fc]]
    by (simp add: reader_publish_def may_publish_def sd_defs)
  have s2: "(tstep fc)\<^sup>*\<^sup>* ((sd_closing (RP_publish cr_eof) WP_loop)\<lparr>close_claimed := True\<rparr>) (sd_closed RP_finish WP_loop False False)"
    using r_into_rtranclp [of "tstep fc", OF r_published [of "(sd_closing (RP_publish cr_eof) WP_loop)\<lparr>close_claimed := True\<rparr>" cr_eof fc]]
    by (simp add: publish_done_def sd_defs)
  have s3: "(tstep fc)\<^sup>*\<^sup>* (sd_closed RP_finish WP_loop False False) (sd_closed RP_done WP_loop True False)"
    using r_into_rtranclp [of "tstep fc", OF r_finish [of "sd_closed RP_finish WP_loop False False" fc]]
    by (simp add:  sd_defs)
  have s4: "(tstep fc)\<^sup>*\<^sup>* (sd_closed RP_done WP_loop True False) (sd_closed RP_done WP_after True False)"
    using r_into_rtranclp [of "tstep fc", OF w_pop [of "sd_closed RP_done WP_loop True False" 0 "sd_closed RP_done WP_after True False" fc]]
    by (simp add: writer_pop_def sd_defs)
  have s5: "(tstep fc)\<^sup>*\<^sup>* (sd_closed RP_done WP_after True False) (sd_closed RP_done WP_finish True False)"
    using r_into_rtranclp [of "tstep fc", OF w_publish [of "sd_closed RP_done WP_after True False" fc]]
    by (simp add: writer_publish_def may_publish_def sd_defs)
  have s6: "(tstep fc)\<^sup>*\<^sup>* (sd_closed RP_done WP_finish True False) (sd_closed RP_done WP_done True True)"
    using r_into_rtranclp [of "tstep fc", OF w_finish [of "sd_closed RP_done WP_finish True False" fc]]
    by (simp add:  sd_defs)
  show ?thesis by (rule rtranclp_trans [OF s1 rtranclp_trans [OF s2 rtranclp_trans [OF s3 rtranclp_trans [OF s4 rtranclp_trans [OF s5 s6]]]]])
qed

lemma sdemo_run_written: "(tstep fc)\<^sup>*\<^sup>* sd_idle (sd_written RP_loop)"
  by (rule rtranclp_trans [OF sdemo_started rtranclp_trans [OF sdemo_bytes rtranclp_trans [OF sdemo_called sdemo_written]]])

lemma sdemo_run_closed: "(tstep fc)\<^sup>*\<^sup>* sd_idle (sd_closed RP_done WP_done True True)"
  by (rule rtranclp_trans [OF sdemo_run_written rtranclp_trans [OF sdemo_ended sdemo_closed]])

lemma sdemo_limits: "limits_fit default_stdio_options"
  by (simp add: limits_fit_def default_stdio_options_def)

subsection \<open>The properties\<close>

text \<open>
  C25. Output framing. In every reachable state the bytes written are a prefix of the
  accepted frames in the order in which \<open>send\<close> accepted them: nothing is lost in between,
  repeated or interleaved. Each accepted frame is the rendering of one valid message, within
  both configured limits, followed by one newline.
\<close>

theorem output_is_accepted_frames:
  assumes "limits_fit opts" and "(tstep fc)\<^sup>*\<^sup>* (new_transport opts) t"
  shows "(\<exists>rest. concat (accepted t) = written t @ rest) \<and>
    (\<forall>f \<in> set (accepted t). \<exists>msg. strings_valid msg \<and> f = render fc msg @ ''\<newline>'' \<and>
       length (render fc msg) \<le> min (max_frame_bytes opts) (max_outbound_bytes opts - 1))"
proof -
  have inv: "queue_inv fc t"
    using stdio_queue.run_inv [OF assms(2)] queue_inv_new [OF assms(1)] by blast
  have "limits t = opts" using limits_run [OF assms(2)] by (simp add: new_transport_def)
  then show ?thesis using inv by (auto simp: queue_inv_defs frame_of_def frame_limit_def)
qed

theorem output_is_accepted_frames_witness:
  "\<exists>rest. concat (accepted (sd_written RP_loop)) = written (sd_written RP_loop) @ rest"
  using output_is_accepted_frames [OF sdemo_limits sdemo_run_written [unfolded sd_idle_def]] by blast

text \<open>
  C26. Memory bound. The byte counter of the writer queue always covers the queued frames
  and the frame being written, never exceeds \<open>max_outbound_bytes\<close>, and is exact as long as
  the writer is at work, so no unsigned subtraction on it wraps around. The line being
  assembled by the reader never exceeds \<open>max_frame_bytes\<close>.
\<close>

theorem transport_memory_bounded:
  assumes "limits_fit opts" and "(tstep fc)\<^sup>*\<^sup>* (new_transport opts) t"
  shows "sum_list (map length (queue t)) + active_bytes (writer_at t) \<le> queued_bytes t \<and>
    queued_bytes t \<le> max_outbound_bytes opts \<and>
    (writer_live (writer_at t) \<longrightarrow> queued_bytes t = sum_list (map length (queue t)) + active_bytes (writer_at t)) \<and>
    length (reader_line t) \<le> max_frame_bytes opts"
proof -
  have inv: "queue_inv fc t" "reader_inv t"
    using stdio_queue.run_inv [OF assms(2)] queue_inv_new [OF assms(1)] stdio_reader.run_inv [OF assms(2)]
      reader_inv_new by blast+
  have "limits t = opts" using limits_run [OF assms(2)] by (simp add: new_transport_def)
  then show ?thesis using inv by (cases "started t") (auto simp: queue_inv_defs reader_inv_def)
qed

theorem transport_memory_bounded_witness:
  "queued_bytes (sd_written RP_loop) \<le> max_outbound_bytes default_stdio_options"
  using transport_memory_bounded [OF sdemo_limits sdemo_run_written [unfolded sd_idle_def]] by blast

text \<open>
  C27. Input framing. However the input is cut into chunks, the lines given to \<open>frame\<close> are
  the newline-terminated lines of the bytes received, in order, and the message callback has
  got exactly the values of those lines that pass the nesting check and parse; each was
  parsed from a line within \<open>max_frame_bytes\<close> and is nested no deeper than
  \<open>max_json_depth\<close>.
\<close>

theorem callback_gets_parsed_lines:
  assumes "(tstep fc)\<^sup>*\<^sup>* (new_transport opts) t"
  shows "(\<exists>rest. received t = concat (map (\<lambda>l. l @ ''\<newline>'') (lines t)) @ reader_line t @ rest) \<and>
    (\<forall>l \<in> set (lines t). CHR ''\<newline>'' \<notin> set l) \<and>
    delivered t @ pending_call (reader_at t) = List.map_filter (value_of opts) (handled t) \<and>
    (\<forall>v \<in> set (delivered t). textual v \<and> json_depth v \<le> max_json_depth opts)"
proof -
  have inv: "lines_inv t" "reader_inv t"
    using stdio_lines.run_inv [OF assms] lines_inv_new stdio_reader.run_inv [OF assms] reader_inv_new by blast+
  have limits: "limits t = opts" using limits_run [OF assms] by (simp add: new_transport_def)
  have "textual v \<and> json_depth v \<le> max_json_depth opts" if "v \<in> set (delivered t)" for v
  proof -
    have "deliverable opts v" using inv(2) that limits by (simp add: reader_inv_def)
    then obtain line where "\<not> excessive_depth opts line" "json_parse line = Inr v"
      unfolding deliverable_def by blast
    then show ?thesis using json_parse_ok [of line] by (auto simp: excessive_depth_def intro: json_parse_deep)
  qed
  then show ?thesis using inv(1) limits by (auto simp: lines_inv_def split_ok_def deliver_ok_def)
qed

theorem callback_gets_parsed_lines_witness:
  "delivered (sd_written RP_loop) @ pending_call (reader_at (sd_written RP_loop)) =
   List.map_filter (value_of default_stdio_options) (handled (sd_written RP_loop))"
  using callback_gets_parsed_lines [OF sdemo_run_written [unfolded sd_idle_def]] by blast

text \<open>
  C28. Closing. Once a wait on a started transport has returned true, the close callback
  has run exactly once, with the reason that closed the transport; and whatever happens
  afterwards, that reason does not change.
\<close>

theorem closed_exactly_once:
  assumes "(tstep fc)\<^sup>*\<^sup>* (new_transport opts) t" and "started t"
    and "fst (stdio_join False now deadline t) = Inr (Some True)"
  shows "\<exists>r. closed t = [r] \<and> (\<forall>t'. (tstep fc)\<^sup>*\<^sup>* t t' \<longrightarrow> reason t' = Some r)"
proof -
  have inv: "close_inv t" using stdio_close.run_inv [OF assms(1)] close_inv_new by blast
  have "reader_done t" "writer_done t" "close_done t"
    using assms(3) by (auto simp: stdio_join_def stdio_failure_def Let_def split: if_split_asm)
  then obtain r where r: "reason t = Some r" "closed t = [r]" using joined_published [OF inv assms(2)] by blast
  have "reason t' = Some r \<and> close_inv t'" if "(tstep fc)\<^sup>*\<^sup>* t t'" for t'
    using that by (induction rule: rtranclp_induct) (use r inv reason_kept reason_closing close_inv_step in blast)+
  then show ?thesis using r(2) by blast
qed

theorem closed_exactly_once_witness:
  "\<exists>r. closed (sd_closed RP_done WP_done True True) = [r] \<and>
    (\<forall>t'. (tstep (\<lambda>_. []))\<^sup>*\<^sup>* (sd_closed RP_done WP_done True True) t' \<longrightarrow> reason t' = Some r)"
proof (rule closed_exactly_once [OF sdemo_run_closed [unfolded sd_idle_def]])
  show "started (sd_closed RP_done WP_done True True)" by (simp add: sd_defs)
  show "fst (stdio_join False 0 None (sd_closed RP_done WP_done True True)) = Inr (Some True)"
    by (simp add: stdio_join_def Let_def sd_defs)
qed

end
