(* ===== verification/Client.thy ===== *)
theory Client
  imports Protocol
begin

text \<open>
  include/synapse/client.hpp: the client of a server. A request takes the next id, leaves a
  promise under that id in \<open>promises_\<close> and is handed to the transport; a reply with a known
  id takes the promise out and fulfils it.

  A promise and its future are named by a number, the index of the state of the future in
  \<open>futures\<close>. A thread that uses the client is between two of its atomic regions at a program
  counter of \<open>threads\<close>: the fetch of an id, a region locked by \<open>promises_mutex_\<close>, a call of
  the sender, the fulfilment of a promise are one step each of \<open>cstep\<close>.
\<close>

subsection \<open>State\<close>

type_synonym answer = "rpc_error + json"

datatype future_state = Pending | Ready answer | Broken

datatype client_pc =
    Registering "64 word" nat request
  | Sending json
  | Settling nat answer
  | Serving request

text \<open>
  \<open>issued\<close>, \<open>sent\<close> and \<open>heard\<close> are histories: the ids of the futures, the messages handed
  to the sender, the messages that arrived.
\<close>

record client =
  next_id :: "64 word"
  promises :: "64 word \<rightharpoonup> nat"
  request_handler :: bool
  futures :: "future_state list"
  threads :: "nat \<rightharpoonup> client_pc"
  issued :: "64 word list"
  sent :: "json list"
  heard :: "json list"

definition new_client :: client where
  "new_client =
     \<lparr>next_id = 1, promises = Map.empty, request_handler = False, futures = [], threads = Map.empty,
      issued = [], sent = [], heard = []\<rparr>"

definition set_request_handler :: "client \<Rightarrow> client" where
  "set_request_handler c = c\<lparr>request_handler := True\<rparr>"

subsection \<open>Sending\<close>

text \<open>\<open>send_request\<close>: the fetch of the id and the promise, the locked region, the call of the sender.\<close>

definition begin_request :: "nat \<Rightarrow> string \<Rightarrow> json option \<Rightarrow> client \<Rightarrow> client" where
  "begin_request k m ps c =
     (let i = next_id c;
          req = \<lparr>msg_jsonrpc = ''2.0'', req_id = Id_int64 i, req_method = m, req_params = ps\<rparr>
      in c\<lparr>next_id := i + 1, futures := futures c @ [Pending], issued := issued c @ [i],
           threads := (threads c)(k \<mapsto> Registering i (length (futures c)) req)\<rparr>)"

text \<open>
  \<open>emplace\<close> changes nothing when the key is taken: the promise is then destroyed with no
  value, which its future sees.
\<close>

definition register_promise :: "nat \<Rightarrow> 64 word \<Rightarrow> nat \<Rightarrow> request \<Rightarrow> client \<Rightarrow> client" where
  "register_promise k i t req c =
     (case promises c i of
        None \<Rightarrow> c\<lparr>promises := (promises c)(i \<mapsto> t), threads := (threads c)(k \<mapsto> Sending (request_to_json req))\<rparr>
      | Some _ \<Rightarrow> c\<lparr>futures := (futures c)[t := Broken],
                     threads := (threads c)(k \<mapsto> Sending (request_to_json req))\<rparr>)"

text \<open>\<open>transport_send_\<close>: the callback returns or throws, after which the thread is done.\<close>

definition transport_send :: "nat \<Rightarrow> json \<Rightarrow> bool \<Rightarrow> client \<Rightarrow> client" where
  "transport_send k msg ok c =
     c\<lparr>sent := (if ok then sent c @ [msg] else sent c), threads := (threads c)(k := None)\<rparr>"

definition send_notification :: "nat \<Rightarrow> string \<Rightarrow> json option \<Rightarrow> client \<Rightarrow> client" where
  "send_notification k m ps c =
     c\<lparr>threads := (threads c)(k \<mapsto>
         Sending (notification_to_json \<lparr>msg_jsonrpc = ''2.0'', note_method = m, note_params = ps\<rparr>))\<rparr>"

subsection \<open>The calls of the protocol\<close>

definition client_initialize :: "string \<times> json option" where
  "client_initialize =
     (''initialize'',
      Some (json_object
        [(''protocolVersion'', JStr ''2024-11-05''),
         (''capabilities'', JObj []),
         (''clientInfo'', json_object [(''name'', JStr ''synapse-mcp-client''), (''version'', JStr ''0.1.0'')])]))"

definition client_call_tool :: "string \<Rightarrow> json \<Rightarrow> string \<times> json option" where
  "client_call_tool name arguments =
     (''tools/call'', Some (json_object [(''name'', JStr name), (''arguments'', arguments)]))"

definition client_list_tools :: "string \<times> json option" where
  "client_list_tools = (''tools/list'', None)"

definition client_list_resources :: "string \<times> json option" where
  "client_list_resources = (''resources/list'', None)"

definition client_read_resource :: "string \<Rightarrow> string \<times> json option" where
  "client_read_resource uri = (''resources/read'', Some (json_object [(''uri'', JStr uri)]))"

definition client_list_prompts :: "string \<times> json option" where
  "client_list_prompts = (''prompts/list'', None)"

definition client_get_prompt :: "string \<Rightarrow> (string, string) omap \<Rightarrow> string \<times> json option" where
  "client_get_prompt name arguments =
     (let args = fold (\<lambda>(k, v) j. json_put k (JStr v) j) arguments (JObj []) in
      (''prompts/get'', Some (json_object [(''name'', JStr name), (''arguments'', args)])))"

subsection \<open>Receiving\<close>

definition answer_of :: "response \<Rightarrow> answer" where
  "answer_of res =
     (case resp_err res of
        Some e \<Rightarrow> Inl e
      | None \<Rightarrow> (case resp_result res of Some v \<Rightarrow> Inr v | None \<Rightarrow> Inr (JObj [])))"

text \<open>A reply: the promise of its id is moved out of the map under the lock.\<close>

definition take_promise :: "nat \<Rightarrow> response \<Rightarrow> client \<Rightarrow> client" where
  "take_promise k res c =
     (case resp_id res of
        Id_int64 i \<Rightarrow>
          (case promises c i of
             Some t \<Rightarrow> c\<lparr>promises := (promises c)(i := None), threads := (threads c)(k \<mapsto> Settling t (answer_of res))\<rparr>
           | None \<Rightarrow> c)
      | _ \<Rightarrow> c)"

text \<open>A request of the server: a new thread serves it, or it is refused at once.\<close>

definition unhandled :: "request \<Rightarrow> response" where
  "unhandled req =
     \<lparr>msg_jsonrpc = ''2.0'', resp_id = req_id req, resp_result = None,
      resp_err = Some \<lparr>err_code = error_code_num method_not_found,
                       err_message = ''Client does not handle requests'', err_data = None\<rparr>\<rparr>"

definition serve_request :: "nat \<Rightarrow> request \<Rightarrow> client \<Rightarrow> client" where
  "serve_request k req c =
     (if request_handler c then c\<lparr>threads := (threads c)(k \<mapsto> Serving req)\<rparr>
      else c\<lparr>threads := (threads c)(k \<mapsto> Sending (response_to_json (unhandled req)))\<rparr>)"

text \<open>
  \<open>handle_message\<close> up to its next atomic region. A message that is not a JSON-RPC message
  makes the conversion throw. \<open>k\<close> is the thread that goes on.
\<close>

definition handle_message :: "nat \<Rightarrow> json \<Rightarrow> client \<Rightarrow> json_exc + client" where
  "handle_message k msg c =
     (if json_contains msg ''id'' then
        if json_contains msg ''method''
        then rbind (request_from_json msg) (\<lambda>req. Inr (serve_request k req c))
        else rbind (response_from_json msg) (\<lambda>res. Inr (take_promise k res c))
      else Inr c)"

text \<open>\<open>set_value\<close> throws when the promise has been satisfied before.\<close>

datatype promise_error = Promise_already_satisfied

definition set_value :: "nat \<Rightarrow> answer \<Rightarrow> future_state list \<Rightarrow> promise_error + future_state list" where
  "set_value t a fs = (if fs ! t = Pending then Inr (fs[t := Ready a]) else Inl Promise_already_satisfied)"

definition settle :: "nat \<Rightarrow> nat \<Rightarrow> answer \<Rightarrow> client \<Rightarrow> promise_error + client" where
  "settle k t a c =
     rbind (set_value t a (futures c)) (\<lambda>fs. Inr (c\<lparr>futures := fs, threads := (threads c)(k := None)\<rparr>))"

text \<open>The thread of a served request has the handler's answer.\<close>

definition handler_reply :: "request \<Rightarrow> answer \<Rightarrow> response" where
  "handler_reply req a =
     \<lparr>msg_jsonrpc = ''2.0'', resp_id = req_id req,
      resp_result = (case a of Inl _ \<Rightarrow> None | Inr v \<Rightarrow> Some v),
      resp_err = (case a of Inl e \<Rightarrow> Some e | Inr _ \<Rightarrow> None)\<rparr>"

definition reply_request :: "nat \<Rightarrow> request \<Rightarrow> answer \<Rightarrow> client \<Rightarrow> client" where
  "reply_request k req a c =
     c\<lparr>threads := (threads c)(k \<mapsto> Sending (response_to_json (handler_reply req a)))\<rparr>"

definition hear :: "json \<Rightarrow> client \<Rightarrow> client" where
  "hear msg c = c\<lparr>heard := heard c @ [msg]\<rparr>"

subsection \<open>All interleavings\<close>

inductive cstep :: "client \<Rightarrow> client \<Rightarrow> bool" where
  set_handler: "cstep c (set_request_handler c)"
| request: "threads c k = None \<Longrightarrow> cstep c (begin_request k m ps c)"
| notification: "threads c k = None \<Longrightarrow> cstep c (send_notification k m ps c)"
| register: "threads c k = Some (Registering i t req) \<Longrightarrow> cstep c (register_promise k i t req c)"
| send: "threads c k = Some (Sending msg) \<Longrightarrow> cstep c (transport_send k msg ok c)"
| message: "threads c k = None \<Longrightarrow> handle_message k msg c = Inr c' \<Longrightarrow> cstep c (hear msg c')"
| message_throws: "handle_message k msg c = Inl e \<Longrightarrow> cstep c (hear msg c)"
| settle: "threads c k = Some (Settling t a) \<Longrightarrow> settle k t a c = Inr c' \<Longrightarrow> cstep c c'"
| serve: "threads c k = Some (Serving req) \<Longrightarrow> cstep c (reply_request k req a c)"

end
