(* ===== verification/Client_Inv.thy ===== *)
theory Client_Inv
  imports Client
begin

text \<open>
  The invariants of the client: a promise has exactly one owner until it is fulfilled (a
  thread that has not registered it yet, the map, or the thread that is about to fulfil it),
  and what fulfils it is the answer of a message that arrived with the id of its request.
\<close>

datatype holder = By_thread nat | By_map "64 word"

definition thread_holds :: "client_pc option \<Rightarrow> nat \<Rightarrow> bool" where
  "thread_holds p t \<longleftrightarrow>
     (case p of Some (Registering _ u _) \<Rightarrow> u = t | Some (Settling u _) \<Rightarrow> u = t | _ \<Rightarrow> False)"

fun holds :: "client \<Rightarrow> holder \<Rightarrow> nat \<Rightarrow> bool" where
  "holds c (By_thread k) t \<longleftrightarrow> thread_holds (threads c k) t"
| "holds c (By_map i) t \<longleftrightarrow> promises c i = Some t"

lemma thread_holds_simps [simp]:
  "\<not> thread_holds None t" "\<not> thread_holds (Some (Sending m)) t" "\<not> thread_holds (Some (Serving req)) t"
  "thread_holds (Some (Registering i u req)) t \<longleftrightarrow> u = t" "thread_holds (Some (Settling u a)) t \<longleftrightarrow> u = t"
  by (simp_all add: thread_holds_def)

definition owner_inv :: "client \<Rightarrow> bool" where
  "owner_inv c \<longleftrightarrow>
     (\<forall>h t. holds c h t \<longrightarrow> t < length (futures c) \<and> futures c ! t = Pending) \<and>
     (\<forall>h h' t. holds c h t \<longrightarrow> holds c h' t \<longrightarrow> h = h')"

definition answered_by :: "client \<Rightarrow> nat \<Rightarrow> answer \<Rightarrow> bool" where
  "answered_by c t a \<longleftrightarrow>
     (\<exists>msg \<in> set (heard c). \<exists>res. response_from_json msg = Inr res \<and>
        resp_id res = Id_int64 (issued c ! t) \<and> answer_of res = a)"

definition id_inv :: "client \<Rightarrow> bool" where
  "id_inv c \<longleftrightarrow>
     length (issued c) = length (futures c) \<and>
     next_id c = word_of_nat (Suc (length (issued c))) \<and>
     (\<forall>t < length (issued c). issued c ! t = word_of_nat (Suc t)) \<and>
     (\<forall>k i t req. threads c k = Some (Registering i t req) \<longrightarrow> t < length (issued c) \<and> i = issued c ! t) \<and>
     (\<forall>i t. promises c i = Some t \<longrightarrow> t < length (issued c) \<and> i = issued c ! t)"

definition answer_inv :: "client \<Rightarrow> bool" where
  "answer_inv c \<longleftrightarrow>
     (\<forall>k t a. threads c k = Some (Settling t a) \<longrightarrow> t < length (issued c) \<and> answered_by c t a) \<and>
     (\<forall>t < length (futures c). \<forall>a. futures c ! t = Ready a \<longrightarrow> answered_by c t a)"

lemmas client_step_defs = set_request_handler_def begin_request_def register_promise_def transport_send_def
  send_notification_def take_promise_def serve_request_def settle_def set_value_def reply_request_def hear_def Let_def

text \<open>What a message does to the client.\<close>

lemma handle_message_cases:
  assumes "handle_message k msg c = Inr c'"
  obtains "c' = c"
  | req where "c' = serve_request k req c"
  | res i t where "response_from_json msg = Inr res" "resp_id res = Id_int64 i" "promises c i = Some t"
      "c' = c\<lparr>promises := (promises c)(i := None), threads := (threads c)(k \<mapsto> Settling t (answer_of res))\<rparr>"
proof (cases "json_contains msg ''id'' \<and> \<not> json_contains msg ''method''")
  case True
  then obtain res where res: "response_from_json msg = Inr res" "c' = take_promise k res c"
    using assms by (auto simp: handle_message_def rbind_Inr_iff)
  show ?thesis
  proof (cases "take_promise k res c = c")
    case False
    then obtain i t where "resp_id res = Id_int64 i" "promises c i = Some t"
      by (auto simp: take_promise_def split: json_rpc_id.splits option.splits)
    then show ?thesis using res that(3) by (simp add: take_promise_def)
  qed (use res that(1) in simp)
next
  case False
  then show ?thesis using assms that(1,2) by (auto simp: handle_message_def rbind_Inr_iff split: if_split_asm)
qed

subsection \<open>Owners\<close>

lemma owner_invI:
  assumes "\<And>h t. holds c h t \<Longrightarrow> t < length (futures c) \<and> futures c ! t = Pending"
    and "\<And>h h' t. holds c h t \<Longrightarrow> holds c h' t \<Longrightarrow> h = h'"
  shows "owner_inv c"
  using assms by (auto simp: owner_inv_def)

lemma owner_pending: "owner_inv c \<Longrightarrow> holds c h t \<Longrightarrow> t < length (futures c) \<and> futures c ! t = Pending"
  by (auto simp: owner_inv_def)

lemma owner_unique: "owner_inv c \<Longrightarrow> holds c h t \<Longrightarrow> holds c h' t \<Longrightarrow> h = h'"
  by (auto simp: owner_inv_def)

text \<open>A promise changes hands: every holder of the new state stands for one of the old state.\<close>

lemma owner_inv_move:
  assumes "owner_inv c" "futures c' = futures c"
    and "\<And>h t. holds c' h t \<Longrightarrow> holds c (f h) t"
    and "\<And>h h' t. holds c' h t \<Longrightarrow> holds c' h' t \<Longrightarrow> f h = f h' \<Longrightarrow> h = h'"
  shows "owner_inv c'"
proof (rule owner_invI)
  show "t < length (futures c') \<and> futures c' ! t = Pending" if "holds c' h t" for h t
    using assms(2) assms(3) [OF that] owner_pending [OF assms(1)] by simp
  show "h = h'" if "holds c' h t" "holds c' h' t" for h h' t
    using assms(3) [OF that(1)] assms(3) [OF that(2)] owner_unique [OF assms(1)] assms(4) [OF that] by blast
qed

lemma owner_inv_begin:
  assumes "owner_inv c" "threads c k = None"
  shows "owner_inv (begin_request k m ps c)"
proof (rule owner_invI)
  have holds: "holds (begin_request k m ps c) h t \<longleftrightarrow> h = By_thread k \<and> t = length (futures c) \<or> holds c h t" for h t
    using assms(2) by (cases h) (auto simp: begin_request_def Let_def)
  show "t < length (futures (begin_request k m ps c)) \<and> futures (begin_request k m ps c) ! t = Pending"
    if "holds (begin_request k m ps c) h t" for h t
    using that owner_pending [OF assms(1)] unfolding holds
    by (auto simp: begin_request_def Let_def nth_append)
  show "h = h'" if "holds (begin_request k m ps c) h t" "holds (begin_request k m ps c) h' t" for h h' t
    using that owner_pending [OF assms(1)] owner_unique [OF assms(1)] unfolding holds by blast
qed

lemma owner_inv_drop:
  assumes "owner_inv c" "holds c h0 t" "futures c' = (futures c)[t := v]"
    and "\<And>h u. holds c' h u \<Longrightarrow> h \<noteq> h0 \<and> holds c h u"
  shows "owner_inv c'"
proof (rule owner_invI)
  show "u < length (futures c') \<and> futures c' ! u = Pending" if "holds c' h u" for h u
    using assms(4) [OF that] owner_pending [OF assms(1)] owner_unique [OF assms(1,2)] assms(3)
    by (cases "u = t") auto
  show "h = h'" if "holds c' h u" "holds c' h' u" for h h' u
    using assms(4) [OF that(1)] assms(4) [OF that(2)] owner_unique [OF assms(1)] by blast
qed

text \<open>A thread that holds no promise goes on to another such program counter.\<close>

lemma owner_inv_thread:
  assumes "owner_inv c" "futures c' = futures c" "promises c' = promises c"
    and "threads c' = (threads c)(k := p)" "\<And>t. \<not> thread_holds p t"
  shows "owner_inv c'"
proof (rule owner_inv_move [OF assms(1,2), of id])
  show "holds c (id h) t" if "holds c' h t" for h t
    using that assms(3-5) by (cases h) (auto split: if_split_asm)
qed auto

lemma owner_inv_register:
  assumes "owner_inv c" "threads c k = Some (Registering i t req)"
  shows "owner_inv (register_promise k i t req c)"
proof (cases "promises c i")
  case None
  show ?thesis
  proof (rule owner_inv_move [OF assms(1), of _ "\<lambda>h. if h = By_map i then By_thread k else h"])
    let ?c = "register_promise k i t req c"
    have no: "\<not> holds ?c (By_thread k) u" for u using None by (simp add: register_promise_def)
    show "holds c (if h = By_map i then By_thread k else h) u" if "holds ?c h u" for h u
      using that None assms(2) by (cases h) (auto simp: register_promise_def split: if_split_asm)
    show "h = h'" if "holds ?c h u" "holds ?c h' u"
      "(if h = By_map i then By_thread k else h) = (if h' = By_map i then By_thread k else h')" for h h' u
      using that no by (auto split: if_split_asm)
  qed (simp add: register_promise_def None)
next
  case (Some u)
  have held: "holds c (By_thread k) t" using assms(2) by simp
  show ?thesis
    using Some by (intro owner_inv_drop [OF assms(1) held, of _ Broken])
      (auto simp: register_promise_def split: if_split_asm elim: holds.elims)
qed

lemma owner_inv_take:
  assumes "owner_inv c" "threads c k = None" "promises c i = Some t"
  shows "owner_inv (c\<lparr>promises := (promises c)(i := None), threads := (threads c)(k \<mapsto> Settling t a)\<rparr>)"
    (is "owner_inv ?c")
proof (rule owner_inv_move [OF assms(1), of _ "\<lambda>h. if h = By_thread k then By_map i else h"])
  have no: "\<not> holds ?c (By_map i) u" for u by simp
  show "holds c (if h = By_thread k then By_map i else h) u" if "holds ?c h u" for h u
    using that assms(2,3) by (cases h) (auto split: if_split_asm)
  show "h = h'" if "holds ?c h u" "holds ?c h' u"
    "(if h = By_thread k then By_map i else h) = (if h' = By_thread k then By_map i else h')" for h h' u
    using that no by (auto split: if_split_asm)
qed simp

lemma owner_inv_hear [simp]: "owner_inv (hear msg c) = owner_inv c"
proof -
  have "holds (hear msg c) h t = holds c h t" for h t by (cases h) (simp_all add: hear_def)
  then show ?thesis by (simp add: owner_inv_def) (simp add: hear_def)
qed

lemma owner_inv_message:
  assumes "owner_inv c" "threads c k = None" "handle_message k msg c = Inr c'"
  shows "owner_inv c'"
  using assms(3)
proof (cases rule: handle_message_cases)
  case (2 req)
  then show ?thesis
    by (cases "request_handler c") (simp_all add: serve_request_def owner_inv_thread [OF assms(1), where k = k])
next
  case (3 res i t)
  then show ?thesis using owner_inv_take [OF assms(1,2)] by simp
qed (simp add: assms(1))

lemma owner_inv_settle:
  assumes "owner_inv c" "threads c k = Some (Settling t a)" "settle k t a c = Inr c'"
  shows "owner_inv c'"
proof (rule owner_inv_drop [OF assms(1), of "By_thread k" t _ "Ready a"])
  show "holds c (By_thread k) t" using assms(2) by simp
  show "futures c' = (futures c)[t := Ready a]"
    using assms(3) by (auto simp: settle_def set_value_def rbind_Inr_iff split: if_split_asm)
  show "h \<noteq> By_thread k \<and> holds c h u" if "holds c' h u" for h u
    using that assms(3) by (cases h) (auto simp: settle_def rbind_Inr_iff split: if_split_asm)
qed

lemma owner_inv_step: "cstep c c' \<Longrightarrow> owner_inv c \<Longrightarrow> owner_inv c'"
proof (induction rule: cstep.induct)
  case (set_handler c)
  have "holds (set_request_handler c) h t = holds c h t" for h t
    by (cases h) (simp_all add: set_request_handler_def)
  then show ?case using set_handler by (simp add: owner_inv_def) (simp add: set_request_handler_def)
next
  case (notification c k m ps)
  then show ?case
    by (simp add: send_notification_def owner_inv_thread [of c _ k "Some (Sending _)"])
next
  case (send c k msg ok)
  then show ?case by (simp add: transport_send_def owner_inv_thread [of c _ k None])
next
  case (serve c k req a)
  then show ?case by (simp add: reply_request_def owner_inv_thread [of c _ k "Some (Sending _)"])
qed (unfold owner_inv_hear, (blast intro: owner_inv_begin owner_inv_register owner_inv_message owner_inv_settle)+)

lemma owner_inv_new: "owner_inv new_client"
proof -
  have "\<not> holds new_client h t" for h t by (cases h) (simp_all add: new_client_def)
  then show ?thesis by (simp add: owner_inv_def)
qed

interpretation client_owner: invariant_system cstep owner_inv
  by unfold_locales (rule owner_inv_step)

subsection \<open>Ids\<close>

lemma id_inv_dest:
  assumes "id_inv c"
  shows "threads c k = Some (Registering i t req) \<Longrightarrow> t < length (issued c) \<and> i = issued c ! t"
    and "promises c i = Some t \<Longrightarrow> t < length (issued c) \<and> i = issued c ! t"
    and "length (issued c) = length (futures c)"
    and "u < length (issued c) \<Longrightarrow> issued c ! u = word_of_nat (Suc u)"
  using assms unfolding id_inv_def by blast+

lemma id_invI:
  assumes "length (issued c) = length (futures c)" "next_id c = word_of_nat (Suc (length (issued c)))"
    and "\<And>t. t < length (issued c) \<Longrightarrow> issued c ! t = word_of_nat (Suc t)"
    and "\<And>k i t req. threads c k = Some (Registering i t req) \<Longrightarrow> t < length (issued c) \<and> i = issued c ! t"
    and "\<And>i t. promises c i = Some t \<Longrightarrow> t < length (issued c) \<and> i = issued c ! t"
  shows "id_inv c"
  unfolding id_inv_def using assms by blast

lemma id_inv_begin:
  assumes "id_inv c"
  shows "id_inv (begin_request k m ps c)"
proof (rule id_invI)
  note d = id_inv_dest [OF assms]
  have n: "next_id c = word_of_nat (Suc (length (issued c)))" using assms by (simp add: id_inv_def)
  show "next_id (begin_request k m ps c) = word_of_nat (Suc (length (issued (begin_request k m ps c))))"
    using n by (simp add: begin_request_def Let_def)
  show "t < length (issued (begin_request k m ps c)) \<and> i = issued (begin_request k m ps c) ! t"
    if "threads (begin_request k m ps c) k' = Some (Registering i t req)" for k' i t req
    using that d(1) [of k'] d(3) by (fastforce simp: begin_request_def Let_def nth_append split: if_split_asm)
  show "t < length (issued (begin_request k m ps c)) \<and> i = issued (begin_request k m ps c) ! t"
    if "promises (begin_request k m ps c) i = Some t" for i t
    using that d(2) by (fastforce simp: begin_request_def Let_def nth_append)
  show "issued (begin_request k m ps c) ! t = word_of_nat (Suc t)" if "t < length (issued (begin_request k m ps c))" for t
    using that d(4) [of t] n by (auto simp: begin_request_def Let_def nth_append less_Suc_eq)
qed (use id_inv_dest(3) [OF assms] in \<open>simp add: begin_request_def Let_def\<close>)

lemma id_inv_register:
  assumes "threads c k = Some (Registering i t req)" "id_inv c"
  shows "id_inv (register_promise k i t req c)" (is "id_inv ?c")
proof (rule id_invI)
  note d = id_inv_dest [OF assms(2)]
  have same: "issued ?c = issued c" "next_id ?c = next_id c" "length (futures ?c) = length (futures c)"
    by (simp_all add: register_promise_def split: option.split)
  show "length (issued ?c) = length (futures ?c)" "next_id ?c = word_of_nat (Suc (length (issued ?c)))"
    "u < length (issued ?c) \<Longrightarrow> issued ?c ! u = word_of_nat (Suc u)" for u
    using assms(2) unfolding same by (auto simp: id_inv_def)
  show "u < length (issued ?c) \<and> j = issued ?c ! u" if "threads ?c k' = Some (Registering j u r)" for k' j u r
    using that d(1) [of k'] unfolding same by (auto simp: register_promise_def split: option.splits if_split_asm)
  show "u < length (issued ?c) \<and> j = issued ?c ! u" if "promises ?c j = Some u" for j u
    using that d(2) [of j u] d(1) [OF assms(1)] unfolding same
    by (auto simp: register_promise_def split: option.splits if_split_asm)
qed

text \<open>The other operations take promises out of the map and register none.\<close>

lemma id_inv_same:
  assumes "id_inv c" "issued c' = issued c" "length (futures c') = length (futures c)" "next_id c' = next_id c"
    and "\<And>i t. promises c' i = Some t \<Longrightarrow> promises c i = Some t"
    and "\<And>k i t req. threads c' k = Some (Registering i t req) \<Longrightarrow> threads c k = Some (Registering i t req)"
  shows "id_inv c'"
  unfolding id_inv_def
proof (intro conjI allI impI)
  fix k i t req assume "threads c' k = Some (Registering i t req)"
  then have "threads c k = Some (Registering i t req)" by (rule assms(6))
  then show "t < length (issued c')" "i = issued c' ! t" using id_inv_dest(1) [OF assms(1)] assms(2) by simp_all
next
  fix i t assume "promises c' i = Some t"
  then have "promises c i = Some t" by (rule assms(5))
  then show "t < length (issued c')" "i = issued c' ! t" using id_inv_dest(2) [OF assms(1)] assms(2) by simp_all
qed (use assms(1-4) in \<open>simp_all add: id_inv_def\<close>)

lemma id_inv_message:
  assumes "id_inv c" "handle_message k msg c = Inr c'"
  shows "id_inv (hear msg c')"
  using assms(2)
  by (cases rule: handle_message_cases; intro id_inv_same [OF assms(1)])
    (auto simp: serve_request_def hear_def split: if_split_asm)

lemma id_inv_settle: "id_inv c \<Longrightarrow> settle k t a c = Inr c' \<Longrightarrow> id_inv c'"
  by (rule id_inv_same [of c c']) (auto simp: settle_def set_value_def rbind_Inr_iff split: if_split_asm)

lemma id_inv_thread:
  assumes "id_inv c" "\<And>i t req. p \<noteq> Some (Registering i t req)"
  shows "id_inv (c\<lparr>threads := (threads c)(k := p)\<rparr>)" "id_inv (c\<lparr>sent := ms, threads := (threads c)(k := p)\<rparr>)"
  using assms(2) by (intro id_inv_same [OF assms(1)]; auto split: if_split_asm)+

lemma id_inv_step: "cstep c c' \<Longrightarrow> id_inv c \<Longrightarrow> id_inv c'"
proof (induction rule: cstep.induct)
  case (set_handler c)
  show ?case by (rule id_inv_same [OF set_handler]) (simp_all add: set_request_handler_def)
next
  case (message_throws k msg c e)
  show ?case by (rule id_inv_same [OF message_throws(2)]) (simp_all add: hear_def)
next
  case (notification c k m ps)
  then show ?case by (simp add: send_notification_def id_inv_thread)
next
  case (send c k msg ok)
  then show ?case by (simp add: transport_send_def id_inv_thread)
next
  case (serve c k req a)
  then show ?case by (simp add: reply_request_def id_inv_thread)
qed (blast intro: id_inv_begin id_inv_register id_inv_message id_inv_settle)+

lemma id_inv_new: "id_inv new_client"
  by (simp add: id_inv_def new_client_def)

interpretation client_ids: invariant_system cstep id_inv
  by unfold_locales (rule id_inv_step)

subsection \<open>Answers\<close>

lemma answered_by_mono:
  assumes "answered_by c t a" "set (heard c) \<subseteq> set (heard c')" "issued c' ! t = issued c ! t"
  shows "answered_by c' t a"
  using assms unfolding answered_by_def by fastforce

text \<open>Every operation but the fulfilment keeps the answers given and the answers on their way.\<close>

lemma answer_inv_same:
  assumes "answer_inv c" "set (heard c) \<subseteq> set (heard c')" "issued c' = issued c @ is" "length (issued c) = length (futures c)"
    and "\<And>k t a. threads c' k = Some (Settling t a) \<Longrightarrow> threads c k = Some (Settling t a) \<or> t < length (issued c) \<and> answered_by c' t a"
    and "\<And>t a. t < length (futures c') \<Longrightarrow> futures c' ! t = Ready a \<Longrightarrow>
           t < length (futures c) \<and> futures c ! t = Ready a \<or> t < length (issued c) \<and> answered_by c' t a"
  shows "answer_inv c'"
proof -
  have keep: "answered_by c' t a" if "answered_by c t a" "t < length (issued c)" for t a
    using answered_by_mono [OF that(1) assms(2)] that(2) assms(3) by (simp add: nth_append)
  show ?thesis
    unfolding answer_inv_def
  proof (intro conjI allI impI)
    fix k t a assume "threads c' k = Some (Settling t a)"
    from assms(5) [OF this] have "t < length (issued c) \<and> answered_by c' t a"
      using assms(1) keep unfolding answer_inv_def by blast
    then show "t < length (issued c')" "answered_by c' t a" using assms(3) by simp_all
  next
    fix t a assume "t < length (futures c')" "futures c' ! t = Ready a"
    from assms(6) [OF this] show "answered_by c' t a"
      using assms(1,4) keep unfolding answer_inv_def by auto
  qed
qed

lemma answer_inv_begin:
  assumes "id_inv c" "answer_inv c"
  shows "answer_inv (begin_request k m ps c)"
  by (rule answer_inv_same [OF assms(2), of _ "[next_id c]"])
    (use assms(1) in \<open>auto simp: begin_request_def Let_def id_inv_def nth_append split: if_split_asm\<close>)

lemma answer_inv_register:
  assumes "id_inv c" "answer_inv c"
  shows "answer_inv (register_promise k i t req c)"
proof (rule answer_inv_same [OF assms(2), of _ "[]"])
  show "u < length (futures c) \<and> futures c ! u = Ready a \<or>
      u < length (issued c) \<and> answered_by (register_promise k i t req c) u a"
    if "u < length (futures (register_promise k i t req c))" "futures (register_promise k i t req c) ! u = Ready a" for u a
    using that by (cases "u = t") (auto simp: register_promise_def split: option.splits)
qed (use id_inv_dest(3) [OF assms(1)] in
     \<open>auto simp: register_promise_def split: if_split_asm option.splits\<close>)

lemma answer_inv_message:
  assumes "id_inv c" "answer_inv c" "handle_message k msg c = Inr c'"
  shows "answer_inv (hear msg c')"
  using assms(3)
proof (cases rule: handle_message_cases)
  case (3 res i t)
  then have "answered_by (hear msg c') t (answer_of res)" "t < length (issued c)"
    using id_inv_dest(2) [OF assms(1)] by (auto simp: answered_by_def hear_def)
  then show ?thesis using 3 id_inv_dest(3) [OF assms(1)]
    by (intro answer_inv_same [OF assms(2), of _ "[]"]) (auto simp: hear_def split: if_split_asm)
qed (rule answer_inv_same [OF assms(2), of _ "[]"];
     use id_inv_dest(3) [OF assms(1)] in \<open>auto simp: serve_request_def hear_def split: if_split_asm\<close>)+

lemma answer_inv_settle:
  assumes "id_inv c" "answer_inv c" "threads c k = Some (Settling t a)" "settle k t a c = Inr c'"
  shows "answer_inv c'"
proof -
  have c': "c' = c\<lparr>futures := (futures c)[t := Ready a], threads := (threads c)(k := None)\<rparr>"
    using assms(4) by (auto simp: settle_def set_value_def rbind_Inr_iff split: if_split_asm)
  have "t < length (issued c)" "answered_by c' t a"
    using assms(2,3) c' by (auto simp: answer_inv_def answered_by_def)
  then show ?thesis using id_inv_dest(3) [OF assms(1)]
    by (intro answer_inv_same [OF assms(2), of _ "[]"])
      (auto simp: c' nth_list_update split: if_split_asm)
qed

lemma answer_inv_thread:
  assumes "id_inv c" "answer_inv c" "\<And>t a. p \<noteq> Some (Settling t a)"
  shows "answer_inv (c\<lparr>threads := (threads c)(k := p)\<rparr>)" "answer_inv (c\<lparr>sent := ms, threads := (threads c)(k := p)\<rparr>)"
  by (rule answer_inv_same [OF assms(2), of _ "[]"]; use id_inv_dest(3) [OF assms(1)] assms(3) in \<open>auto split: if_split_asm\<close>)+

definition client_inv :: "client \<Rightarrow> bool" where
  "client_inv c \<longleftrightarrow> owner_inv c \<and> id_inv c \<and> answer_inv c"

lemma answer_inv_step: "cstep c c' \<Longrightarrow> id_inv c \<Longrightarrow> answer_inv c \<Longrightarrow> answer_inv c'"
proof (induction rule: cstep.induct)
  case (set_handler c)
  then show ?case by (simp add: answer_inv_def answered_by_def set_request_handler_def)
next
  case (message_throws k msg c e)
  show ?case
    by (rule answer_inv_same [OF message_throws(3), of _ "[]"])
      (use id_inv_dest(3) [OF message_throws(2)] in \<open>auto simp: hear_def\<close>)
next
  case (notification c k m ps)
  then show ?case by (simp add: send_notification_def answer_inv_thread)
next
  case (send c k msg ok)
  then show ?case by (simp add: transport_send_def answer_inv_thread)
next
  case (serve c k req a)
  then show ?case by (simp add: reply_request_def answer_inv_thread)
qed (blast intro: answer_inv_begin answer_inv_register answer_inv_message answer_inv_settle)+

lemma client_inv_new: "client_inv new_client"
  using owner_inv_new id_inv_new by (simp add: client_inv_def answer_inv_def new_client_def)

interpretation client_sys: invariant_system cstep client_inv
  by unfold_locales (unfold client_inv_def, blast intro: owner_inv_step id_inv_step answer_inv_step)

subsection \<open>No promise is dropped before the ids wrap around\<close>

definition unbroken :: "client \<Rightarrow> bool" where
  "unbroken c \<longleftrightarrow> (length (issued c) \<le> 2 ^ 63 \<longrightarrow> Broken \<notin> set (futures c))"

lemma ids_distinct:
  assumes "id_inv c" "length (issued c) \<le> 2 ^ 63" "t < length (issued c)" "u < length (issued c)"
    and "issued c ! t = issued c ! u"
  shows "t = u"
proof -
  have "(word_of_nat (Suc t) :: 64 word) = word_of_nat (Suc u)"
    using id_inv_dest(4) [OF assms(1)] assms(3-5) by metis
  then have "take_bit 64 (Suc t) = take_bit 64 (Suc u)" by (simp only: word_of_nat_eq_iff, simp)
  then show ?thesis using assms(2-4) by (simp add: take_bit_nat_eq_self)
qed

lemma registered_once:
  assumes "client_inv c" "length (issued c) \<le> 2 ^ 63" "threads c k = Some (Registering i t req)"
  shows "promises c i = None"
proof (rule ccontr)
  assume "promises c i \<noteq> None"
  then obtain u where u: "promises c i = Some u" by blast
  have "u = t"
    using ids_distinct [of c u t] assms u id_inv_dest(1,2) [of c] unfolding client_inv_def by metis
  then have "By_map i = By_thread k"
    using owner_unique [of c "By_map i" t "By_thread k"] assms(1,3) u by (simp add: client_inv_def)
  then show False by simp
qed

lemma unbroken_step:
  assumes "cstep c c'" "client_inv c" "unbroken c"
  shows "unbroken c'"
  using assms
proof (induction rule: cstep.induct)
  case (register c k i t req)
  then show ?case using registered_once [OF register(2) _ register(1)]
    by (auto simp: unbroken_def register_promise_def split: option.splits)
next
  case (message c k msg c')
  from message(2) have "futures c' = futures c \<and> issued c' = issued c"
    by (cases rule: handle_message_cases) (auto simp: serve_request_def)
  then show ?case using message(4) by (simp add: unbroken_def hear_def)
next
  case (settle c k t a c')
  then show ?case
    by (auto simp: unbroken_def settle_def set_value_def rbind_Inr_iff split: if_split_asm
        dest!: set_update_subset_insert [THEN subsetD])
qed (auto simp: unbroken_def set_request_handler_def begin_request_def send_notification_def transport_send_def
      hear_def reply_request_def Let_def)

interpretation client_unbroken: invariant_system cstep "\<lambda>c. client_inv c \<and> unbroken c"
  by unfold_locales (use client_sys.step_inv unbroken_step in blast)

lemma unbroken_new: "unbroken new_client"
  by (simp add: unbroken_def new_client_def)

end
