(* ===== verification/Client_Properties.thy ===== *)
theory Client_Properties
  imports Client_Inv Parser_Properties
begin

text \<open>
  The properties of the client, over all interleavings of its callers, the threads that
  deliver messages and the threads that serve requests.
\<close>

lemma client_reachable: "cstep\<^sup>*\<^sup>* new_client c \<Longrightarrow> client_inv c \<and> unbroken c"
  using client_unbroken.run_inv [of new_client c] client_inv_new unbroken_new by blast

text \<open>A future that has its answer keeps it.\<close>

lemma ready_step:
  assumes "cstep c c'" "t < length (futures c)" "futures c ! t = Ready a" "client_inv c"
  shows "t < length (futures c') \<and> futures c' ! t = Ready a"
  using assms
proof (induction rule: cstep.induct)
  case (register c k i u req)
  then have "futures c ! u = Pending" using owner_pending [of c "By_thread k" u] by (simp add: client_inv_def)
  then have "u \<noteq> t" using register by auto
  then show ?case using register by (auto simp: register_promise_def split: option.split)
next
  case (message c k msg c')
  from message(2) have "futures c' = futures c"
    by (cases rule: handle_message_cases) (auto simp: serve_request_def)
  then show ?case using message(3,4) by (simp add: hear_def)
next
  case (settle c k u b c')
  then show ?case by (cases "u = t") (auto simp: settle_def set_value_def rbind_Inr_iff split: if_split_asm)
qed (auto simp: set_request_handler_def begin_request_def send_notification_def transport_send_def hear_def
      reply_request_def Let_def nth_append)

lemma ready_run:
  "cstep\<^sup>*\<^sup>* c c' \<Longrightarrow> client_inv c \<Longrightarrow> t < length (futures c) \<Longrightarrow> futures c ! t = Ready a \<Longrightarrow>
   t < length (futures c') \<and> futures c' ! t = Ready a"
  by (induction rule: rtranclp_induct) (auto dest: ready_step client_sys.run_inv)

text \<open>Part of a parsed value is parsed.\<close>

lemma parsed_at: "parsed j \<Longrightarrow> json_at j k = Inr v \<Longrightarrow> parsed v"
  by (cases j) (force split: option.splits dest: map_of_SomeD)+

lemma sint_positive:
  assumes "0 < n" "n < 2 ^ 63"
  shows "0 < sint (word_of_nat n :: 64 word)"
proof -
  have word: "(word_of_nat n :: 64 word) = word_of_int (int n)" by simp
  show ?thesis
    unfolding word using assms by (subst sint_sbintrunc', subst signed_take_bit_int_eq_self) simp_all
qed

lemma parsed_reply_id:
  assumes "json_parse s = Inr msg" "response_from_json msg = Inr res" "resp_id res = Id_int64 w"
  shows "sint w \<le> 0"
proof -
  obtain v where v: "json_at msg ''id'' = Inr v" "read_json_rpc_id v = Id_int64 w"
    using assms(2,3) by (auto simp: response_from_json_def rbind_Inr_iff Let_def split: if_split_asm)
  have "parsed msg" using json_parse_parsed [of s] assms(1) by simp
  then have "parsed v" using parsed_at v(1) by blast
  moreover have "v = JInt w" using v(2) by (cases v) (simp_all add: read_json_rpc_id_def)
  ultimately show ?thesis by simp
qed

subsection \<open>A run\<close>

text \<open>One request, sent; its reply arrives as a parsed text and as a value built in the process.\<close>

definition pong :: response where
  "pong = \<lparr>msg_jsonrpc = ''2.0'', resp_id = Id_int64 1, resp_result = Some (JObj []), resp_err = None\<rparr>"

definition asked :: client where
  "asked = transport_send 0
     (request_to_json \<lparr>msg_jsonrpc = ''2.0'', req_id = Id_int64 1, req_method = ''ping'', req_params = None\<rparr>) True
     (register_promise 0 1 0 \<lparr>msg_jsonrpc = ''2.0'', req_id = Id_int64 1, req_method = ''ping'', req_params = None\<rparr>
       (begin_request 0 ''ping'' None new_client))"

lemma asked_fields:
  "threads asked = Map.empty" "promises asked = [1 \<mapsto> 0]" "futures asked = [Pending]" "issued asked = [1]"
  "heard asked = []"
  by (auto simp: asked_def transport_send_def register_promise_def begin_request_def new_client_def Let_def)

lemma asked_run: "cstep\<^sup>*\<^sup>* new_client asked"
proof -
  let ?r = "\<lparr>msg_jsonrpc = ''2.0'', req_id = Id_int64 1, req_method = ''ping'', req_params = None\<rparr> :: request"
  let ?b = "begin_request 0 ''ping'' None new_client"
  have "cstep new_client ?b" by (rule cstep.request) (simp add: new_client_def)
  moreover have "cstep ?b (register_promise 0 1 0 ?r ?b)"
    by (rule cstep.register) (simp add: begin_request_def new_client_def Let_def)
  moreover have "cstep (register_promise 0 1 0 ?r ?b) asked"
    unfolding asked_def
    by (rule cstep.send) (simp add: register_promise_def begin_request_def new_client_def Let_def)
  ultimately show ?thesis by (meson converse_rtranclp_into_rtranclp rtranclp.rtrancl_refl)
qed

definition answered :: client where
  "answered = asked\<lparr>promises := Map.empty, threads := [1 \<mapsto> Settling 0 (Inr (JObj []))], heard := [response_to_json pong]\<rparr>"

lemma asked_pong: "handle_message 1 (response_to_json pong) asked = Inr (take_promise 1 pong asked)"
proof -
  have "response_from_json (response_to_json pong) = Inr pong"
    by (rule response_codec.dec_enc) (simp add: pong_def response_canonical_def)
  moreover have "json_contains (response_to_json pong) ''id''" "\<not> json_contains (response_to_json pong) ''method''"
    by (simp_all add: pong_def response_to_json_def Let_def json_contains_iff)
  ultimately show ?thesis by (simp add: handle_message_def)
qed

lemma answered_run: "cstep\<^sup>*\<^sup>* new_client answered"
proof -
  have "hear (response_to_json pong) (take_promise 1 pong asked) = answered"
    by (auto simp: hear_def take_promise_def answered_def pong_def answer_of_def asked_fields)
  then have "cstep asked answered"
    using cstep.message [of asked 1 _ _, OF _ asked_pong] by (simp add: asked_fields)
  then show ?thesis using asked_run by (meson rtranclp.rtrancl_into_rtrancl)
qed

definition settled :: client where
  "settled = answered\<lparr>futures := [Ready (Inr (JObj []))], threads := Map.empty\<rparr>"

lemma settled_run: "cstep\<^sup>*\<^sup>* new_client settled"
proof -
  have "settle 1 0 (Inr (JObj [])) answered = Inr settled"
    by (simp add: settle_def set_value_def answered_def settled_def asked_fields)
  then have "cstep answered settled" by (rule cstep.settle [rotated]) (simp add: answered_def)
  then show ?thesis using answered_run by (meson rtranclp.rtrancl_into_rtrancl)
qed

subsection \<open>The properties\<close>

text \<open>
  C29. Whatever answer a future of the client gets, it is that of a reply that arrived, with
  the id under which the request of this future was sent; and it never changes.
\<close>

theorem answer_has_request_id:
  assumes "cstep\<^sup>*\<^sup>* new_client c" and "t < length (futures c)" and "futures c ! t = Ready a"
  shows "(\<exists>msg \<in> set (heard c). \<exists>res. response_from_json msg = Inr res \<and>
            resp_id res = Id_int64 (issued c ! t) \<and> answer_of res = a) \<and>
    (\<forall>c'. cstep\<^sup>*\<^sup>* c c' \<longrightarrow> futures c' ! t = Ready a)"
proof -
  have inv: "client_inv c" using client_reachable [OF assms(1)] by blast
  then have "answered_by c t a" using assms(2,3) by (auto simp: client_inv_def answer_inv_def)
  then show ?thesis using ready_run [of c _ t a] inv assms(2,3) by (auto simp: answered_by_def)
qed

theorem answer_has_request_id_witness:
  "\<exists>msg \<in> set (heard settled). \<exists>res. response_from_json msg = Inr res \<and>
     resp_id res = Id_int64 (issued settled ! 0) \<and> answer_of res = Inr (JObj [])"
  using answer_has_request_id [OF settled_run, of 0 "Inr (JObj [])"] by (simp add: settled_def)

text \<open>
  C30. The promise of a request has one owner at a time. As long as fewer than \<open>2 ^ 63\<close>
  requests were made, no promise is dropped, a thread that is about to fulfil a promise is the
  only one that has it, and the fulfilment succeeds.
\<close>

theorem promise_fulfilled_once:
  assumes "cstep\<^sup>*\<^sup>* new_client c" and "length (issued c) \<le> 2 ^ 63"
    and "threads c k = Some (Settling t a)"
  shows "(\<exists>c'. settle k t a c = Inr c' \<and> futures c' ! t = Ready a) \<and> Broken \<notin> set (futures c) \<and>
    t \<notin> ran (promises c) \<and> (\<forall>k' b. threads c k' = Some (Settling t b) \<longrightarrow> k' = k)"
proof -
  have inv: "owner_inv c" "unbroken c" using client_reachable [OF assms(1)] by (auto simp: client_inv_def)
  have held: "holds c (By_thread k) t" using assms(3) by simp
  have sole: "h = By_thread k" if "holds c h t" for h by (rule owner_unique [OF inv(1) that held])
  have "t \<notin> ran (promises c)" using sole [of "By_map i" for i] by (auto simp: ran_def)
  moreover have "k' = k" if "threads c k' = Some (Settling t b)" for k' b
    using sole [of "By_thread k'"] that by simp
  moreover have "\<exists>c'. settle k t a c = Inr c' \<and> futures c' ! t = Ready a"
    using owner_pending [OF inv(1) held] by (simp add: settle_def set_value_def)
  moreover have "Broken \<notin> set (futures c)" using inv(2) assms(2) unfolding unbroken_def by blast
  ultimately show ?thesis by blast
qed

theorem promise_fulfilled_once_witness:
  "\<exists>c'. settle 1 0 (Inr (JObj [])) answered = Inr c' \<and> futures c' ! 0 = Ready (Inr (JObj []))"
  using promise_fulfilled_once [OF answered_run, of 1 0 "Inr (JObj [])"] by (simp add: answered_def asked_fields)

text \<open>
  A reply with the id of a pending request, handed over as the value that
  \<open>to_json\<close> makes of it, takes the promise out of the map, and the fulfilment gives the
  future its result or its error.
\<close>

theorem reply_resolves_future:
  assumes "cstep\<^sup>*\<^sup>* new_client c" and "promises c i = Some t" and "threads c k = None"
    and "resp_id r = Id_int64 i" and "response_canonical r"
  shows "\<exists>c1 c2. handle_message k (response_to_json r) c = Inr c1 \<and> settle k t (answer_of r) c1 = Inr c2 \<and>
    promises c2 = (promises c)(i := None) \<and> futures c2 = (futures c)[t := Ready (answer_of r)]"
proof -
  have pending: "futures c ! t = Pending"
    using client_reachable [OF assms(1)] owner_pending [of c "By_map i" t] assms(2) by (simp add: client_inv_def)
  have "json_contains (response_to_json r) ''id''" "\<not> json_contains (response_to_json r) ''method''"
    by (auto simp: response_to_json_def Let_def json_contains_iff split: option.split)
  then have "handle_message k (response_to_json r) c = Inr (take_promise k r c)"
    using response_codec.dec_enc [OF assms(5)] by (simp add: handle_message_def)
  then show ?thesis
    using pending assms(2-4) by (simp add: take_promise_def settle_def set_value_def)
qed

theorem reply_resolves_future_witness:
  "\<exists>c1 c2. handle_message 1 (response_to_json pong) asked = Inr c1 \<and> settle 1 0 (answer_of pong) c1 = Inr c2"
proof -
  have "promises asked 1 = Some 0" "threads asked 1 = None" "resp_id pong = Id_int64 1" "response_canonical pong"
    by (simp_all add: asked_fields pong_def response_canonical_def)
  from reply_resolves_future [OF asked_run this] show ?thesis by blast
qed

text \<open>
  C31. A client whose messages come out of the JSON parser never answers a request: the
  parser reads a non-negative id as an unsigned integer, while the ids of requests are looked
  up for signed ones only. Over every transport of the library, all futures stay pending.
\<close>

theorem parsed_replies_are_dropped:
  assumes "cstep\<^sup>*\<^sup>* new_client c" and "length (issued c) < 2 ^ 63"
    and "\<forall>msg \<in> set (heard c). \<exists>s. json_parse s = Inr msg"
  shows "\<forall>f \<in> set (futures c). f = Pending"
proof -
  have inv: "id_inv c" "answer_inv c" "unbroken c"
    using client_reachable [OF assms(1)] unfolding client_inv_def by blast+
  have "f \<noteq> Ready a" if mem: "f \<in> set (futures c)" for f a
  proof
    assume a: "f = Ready a"
    obtain t where "t < length (futures c)" "futures c ! t = f"
      using mem unfolding in_set_conv_nth by blast
    with a have t: "t < length (futures c)" "futures c ! t = Ready a" by simp_all
    then obtain msg res where msg: "msg \<in> set (heard c)" "response_from_json msg = Inr res"
      "resp_id res = Id_int64 (issued c ! t)"
      using inv(2) unfolding answer_inv_def answered_by_def by blast
    have len: "t < length (issued c)" using t(1) id_inv_dest(3) [OF inv(1)] by simp
    have "Suc t < 2 ^ 63" using len assms(2) by linarith
    then have "0 < sint (issued c ! t)"
      unfolding id_inv_dest(4) [OF inv(1) len] by (rule sint_positive [OF zero_less_Suc])
    moreover obtain s where "json_parse s = Inr msg" using assms(3) msg(1) by blast
    ultimately show False using parsed_reply_id [OF _ msg(2,3)] by (meson linorder_not_less)
  qed
  moreover have "Broken \<notin> set (futures c)" using inv(3) assms(2) unfolding unbroken_def by linarith
  ultimately show ?thesis by (metis future_state.exhaust)
qed

definition overheard :: client where
  "overheard = hear (canon (response_to_json pong)) asked"

lemma pong_json:
  "response_to_json pong = JObj [(''id'', JInt 1), (''jsonrpc'', JStr ''2.0''), (''result'', JObj [])]"
  by (simp add: pong_def response_to_json_def Let_def id_to_json_def json_object_def om_emplace_def)

lemma overheard_run: "cstep\<^sup>*\<^sup>* new_client overheard"
proof -
  have "handle_message 1 (canon (response_to_json pong)) asked = Inr asked"
    by (simp add: pong_json handle_message_def response_from_json_def read_json_rpc_id_def take_promise_def
        om_contains_def Let_def)
  then have "cstep asked overheard"
    unfolding overheard_def by (rule cstep.message [rotated]) (simp add: asked_fields)
  then show ?thesis using asked_run by (meson rtranclp.rtrancl_into_rtrancl)
qed

theorem parsed_replies_are_dropped_witness:
  "futures overheard ! 0 = Pending"
proof -
  have "length (issued overheard) < 2 ^ 63" by (simp add: overheard_def hear_def asked_fields)
  moreover have "json_parse (render (\<lambda>_. []) (response_to_json pong)) = Inr (canon (response_to_json pong))"
    by (rule json_parse_render) (simp_all add: pong_json om_wf_def utf8_tail_def)
  then have "\<forall>msg \<in> set (heard overheard). \<exists>s. json_parse s = Inr msg"
    by (auto simp: overheard_def hear_def asked_fields)
  ultimately have "\<forall>f \<in> set (futures overheard). f = Pending"
    by (rule parsed_replies_are_dropped [OF overheard_run])
  then show ?thesis by (simp add: overheard_def hear_def asked_fields)
qed

end
