(* ===== verification/Sse_Transport.thy ===== *)
theory Sse_Transport
  imports Protocol Json_Parser Rendering
begin

text \<open>
  include/synapse/sse_transport.hpp: messages of the client arrive as whole payloads of HTTP
  requests, messages to the client leave as server-sent events. There is no thread of its
  own. The writer and the message callback are optional; \<open>sse_events\<close> and \<open>sse_delivered\<close>
  record what they were called with. A call of the message callback ends normally (\<open>None\<close>) or
  with an exception.
\<close>

record sse_transport =
  sse_writer :: bool
  sse_callback :: bool
  sse_events :: "string list"
  sse_delivered :: "json list"

definition new_sse_transport :: "bool \<Rightarrow> sse_transport" where
  "new_sse_transport writer =
     \<lparr>sse_writer = writer, sse_callback = False, sse_events = [], sse_delivered = []\<rparr>"

definition sse_start :: "bool \<Rightarrow> sse_transport \<Rightarrow> sse_transport" where
  "sse_start callback t = t\<lparr>sse_callback := callback\<rparr>"

definition sse_stop :: "sse_transport \<Rightarrow> sse_transport" where
  "sse_stop t = t"

definition sse_wait :: "sse_transport \<Rightarrow> sse_transport" where
  "sse_wait t = t"

text \<open>\<open>send\<close>: the event is built before the writer is looked at, so \<open>dump\<close> may throw.\<close>

definition sse_send :: "float_printer \<Rightarrow> json \<Rightarrow> sse_transport \<Rightarrow> json_exc + sse_transport" where
  "sse_send fc msg t =
     rbind (json_dump fc msg) (\<lambda>s.
       let payload = ''data: '' @ s @ ''\<newline>\<newline>''
       in Inr (if sse_writer t then t\<lparr>sse_events := sse_events t @ [payload]\<rparr> else t))"

definition sse_parse_error :: json where
  "sse_parse_error =
     response_to_json
       \<lparr>msg_jsonrpc = ''2.0'', resp_id = Id_null, resp_result = None,
        resp_err = Some \<lparr>err_code = error_code_num parse_error, err_message = ''Parse error'', err_data = None\<rparr>\<rparr>"

text \<open>The body of the \<open>try\<close> of \<open>handle_client_message\<close>, with the state in which it ends.\<close>

definition sse_try :: "(json \<Rightarrow> json_exc option) \<Rightarrow> string \<Rightarrow> sse_transport \<Rightarrow> json_exc option \<times> sse_transport" where
  "sse_try cb payload t =
     (case json_parse payload of
        Inl e \<Rightarrow> (Some e, t)
      | Inr j \<Rightarrow> if sse_callback t then (cb j, t\<lparr>sse_delivered := sse_delivered t @ [j]\<rparr>) else (None, t))"

text \<open>Only \<open>parse_error\<close> is caught, other exceptions leave the function (first component).\<close>

definition handle_client_message ::
  "float_printer \<Rightarrow> (json \<Rightarrow> json_exc option) \<Rightarrow> string \<Rightarrow> sse_transport \<Rightarrow> json_exc option \<times> sse_transport" where
  "handle_client_message fc cb payload t =
     (case sse_try cb payload t of
        (Some (Parse_error n), t') \<Rightarrow>
          (case sse_send fc sse_parse_error t' of Inl e \<Rightarrow> (Some e, t') | Inr t'' \<Rightarrow> (None, t''))
      | r \<Rightarrow> r)"

subsection \<open>What an event is\<close>

lemma sse_send_render:
  "sse_send fc msg t =
     (if strings_valid msg
      then Inr (if sse_writer t
                then t\<lparr>sse_events := sse_events t @ [''data: '' @ render fc msg @ ''\<newline>\<newline>'']\<rparr> else t)
      else Inl (Type_error 316))"
  by (simp add: sse_send_def json_dump_render)

lemma sse_parse_error_value:
  "sse_parse_error =
     JObj [(''error'', JObj [(''code'', JInt (- 32700)), (''message'', JStr ''Parse error'')]), (''id'', JNull),
           (''jsonrpc'', JStr ''2.0'')]"
  by (simp add: sse_parse_error_def response_to_json_def error_to_json_def error_code_num_def id_to_json_def
      json_object_def om_emplace_def json_put_opt_def Let_def)

lemma sse_parse_error_valid: "strings_valid sse_parse_error"
  by (simp add: sse_parse_error_value utf8_tail_def)

end
