(* ===== verification/Sse_Properties.thy ===== *)
theory Sse_Properties
  imports Sse_Transport Parser_Properties
begin

text \<open>
  The properties of the event-stream transport: what one payload leads to, and the framing of
  the events.
\<close>

subsection \<open>A payload with a number that no double holds\<close>

lemma f64_round_overflow:
  assumes "2 ^ 1024 \<le> q"
  shows "f64_round q = None"
proof -
  have pos: "0 < q" using assms by (rule less_le_trans [rotated]) simp
  let ?k = "bexp q" and ?u = "f64_ulp q"
  have "pow2 1024 \<le> q" using assms by (simp add: pow2_def)
  then have "pow2 1024 < pow2 (?k + 1)" using bexp_bounds(2) [OF pos] by linarith
  then have k: "1024 \<le> ?k" using pow2_le_iff [of "?k + 1" 1024] by linarith
  then have u: "?u = pow2 (?k - 52)" by (simp add: f64_ulp_def max_def)
  then have upos: "0 < ?u" by simp
  have ku: "pow2 ?k = 2 ^ 52 * ?u" unfolding u using pow2_split [of "?k - 52" ?k] by simp
  then have "2 ^ 52 \<le> q / ?u" using bexp_bounds(1) [OF pos] upos by (simp add: pos_le_divide_eq)
  then have "2 ^ 52 \<le> \<lfloor>q / ?u\<rfloor>" by (simp add: le_floor_iff)
  then have "2 ^ 52 \<le> round_even (q / ?u)" using round_even_bounds(1) [of "q / ?u"] by linarith
  then have "(2 ^ 52 :: rat) \<le> of_int (round_even (q / ?u))"
    using of_int_le_iff [of "2 ^ 52" "round_even (q / ?u)", where ?'a = rat] by simp
  then have "2 ^ 52 * ?u \<le> of_int (round_even (q / ?u)) * ?u"
    using upos by (simp only: mult_right_mono less_imp_le)
  moreover have "2 ^ 1024 \<le> 2 ^ 52 * ?u"
    using ku pow2_mono [OF k] by (simp add: pow2_def)
  ultimately have large: "\<not> of_int (round_even (q / ?u)) * ?u < 2 ^ 1024" by linarith
  have "\<not> q \<le> 0" using pos by simp
  then show ?thesis unfolding f64_round_def Let_def by (simp only: if_not_P [OF large] if_False)
qed

lemma strtod_1e400: "strtod ''1e400'' = 0x7FF0000000000000"
proof -
  define ten :: rat where "ten = 10"
  have "numeral_value ''1e400'' = ten ^ 400"
    by (simp add: numeral_value_def [folded ten_def] digits_value_def is_digit_def)
  moreover have "(2 :: rat) ^ 1024 \<le> ten ^ 400"
  proof -
    have "(2 :: rat) ^ 1024 \<le> 2 ^ (3 * 400)" by (rule power_increasing) simp_all
    also have "\<dots> = (2 ^ 3) ^ 400" by (rule power_mult)
    also have "\<dots> \<le> ten ^ 400" by (rule power_mono) (simp_all add: ten_def)
    finally show ?thesis .
  qed
  ultimately have "f64_round (numeral_value ''1e400'') = None" by (simp only: f64_round_overflow)
  then show ?thesis by (simp add: strtod_def f64_bits_def)
qed

lemma parse_1e400: "json_parse ''1e400'' = Inl (Out_of_range 406)"
proof -
  have "scan_first ''1e400'' = (T_float 0x7FF0000000000000, [])"
    by (simp add: scan_first_def skip_bom_def scan_token_number is_digit_def scan_number_def number_next_defs
        enter_state_def number_accepts_def number_token_def strtod_1e400)
  then show ?thesis
    by (simp add: json_parse_def parse_loop.simps parse_value_def f64_isfinite_def f64_exponent_def)
qed

subsection \<open>The properties\<close>

text \<open>
  C32. What a payload leads to. A payload that parses is given to the callback, once, as a
  well-formed value, and nothing is written unless the callback throws \<open>parse_error\<close>. A
  payload that does not parse is answered with one event, the parse error with a null id. But
  a payload with a number beyond the range of a double (such as \<open>1e400\<close>) is neither: the
  exception \<open>out_of_range.406\<close> leaves \<open>handle_client_message\<close> and nothing is written.
\<close>

theorem sse_payload_outcome:
  assumes "handle_client_message fc cb payload t = (e, t')" and "\<forall>j n. cb j \<noteq> Some (Parse_error n)"
  shows "case json_parse payload of
      Inr j \<Rightarrow> textual j \<and> t' = t\<lparr>sse_delivered := sse_delivered t @ (if sse_callback t then [j] else [])\<rparr> \<and>
        e = (if sse_callback t then cb j else None)
    | Inl (Parse_error n) \<Rightarrow> e = None \<and>
        t' = t\<lparr>sse_events := sse_events t @ (if sse_writer t then [''data: '' @ render fc sse_parse_error @ ''\<newline>\<newline>''] else [])\<rparr>
    | Inl e' \<Rightarrow> e' = Out_of_range 406 \<and> e = Some e' \<and> t' = t"
proof (cases "json_parse payload")
  case (Inl x)
  then have "parse_failure x" using json_parse_ok [of payload] by simp
  then show ?thesis
    using assms Inl sse_parse_error_valid
    by (auto simp: parse_failure_def handle_client_message_def sse_try_def sse_send_render)
next
  case (Inr j)
  moreover have "textual j" using Inr json_parse_ok [of payload] by simp
  moreover have "cb j = None \<or> (\<exists>x. cb j = Some x \<and> (\<forall>n. x \<noteq> Parse_error n))" using assms(2) by (cases "cb j") auto
  ultimately show ?thesis
    using assms(1) by (auto simp: handle_client_message_def sse_try_def split: option.splits json_exc.splits)
qed

theorem sse_payload_outcome_witness:
  "handle_client_message (\<lambda>_. []) (\<lambda>_. None) ''1e400'' (new_sse_transport True) =
     (Some (Out_of_range 406), new_sse_transport True)"
proof -
  obtain e t' where h: "handle_client_message (\<lambda>_. []) (\<lambda>_. None) ''1e400'' (new_sse_transport True) = (e, t')" by force
  then show ?thesis using sse_payload_outcome [OF h] by (simp add: parse_1e400)
qed

text \<open>
  Every event is one data line and a blank line, whatever is sent.
\<close>

lemma sse_event_is_one_line:
  assumes "plain_printer fc" "sse_send fc msg t = Inr t'" "sse_writer t"
  shows "\<exists>line. sse_events t' = sse_events t @ [''data: '' @ line @ ''\<newline>\<newline>''] \<and> one_line line"
  using assms render_one_line [of fc msg] by (auto simp: sse_send_render split: if_split_asm)

end
