(* ===== verification/Process_Transport.thy ===== *)
theory Process_Transport
  imports Json_Parser Rendering
begin

text \<open>
  include/synapse/process_transport.hpp, the POSIX branch: a child process behind two pipes,
  a reader thread that takes its output byte by byte and calls the message callback for every
  line that parses, and \<open>send\<close>, which writes a line to its input.

  The endpoints and the child are flags (\<open>proc_stdin\<close>, \<open>proc_stdout\<close>: the descriptor is open,
  \<open>proc_child\<close>: the child has not been waited for). One iteration of the reader's loop, a
  call of \<open>stop\<close> and a call of \<open>send\<close> are one step each. The results of the system calls are
  arguments. \<open>proc_received\<close> and \<open>proc_delivered\<close> record what the reader got and what it
  called the callback with since the last start, \<open>proc_input\<close> what was written to the child.
\<close>

datatype proc_reader = No_reader | Reading string | Reader_done

record process =
  proc_stdin :: bool
  proc_stdout :: bool
  proc_child :: bool
  proc_running :: bool
  proc_stop_requested :: bool
  proc_reader_at :: proc_reader
  proc_received :: string
  proc_delivered :: "json list"
  proc_input :: string

datatype fork_result = Fork_failed | Fork_parent

text \<open>The constructor in the parent: two pipes, then the fork.\<close>

definition process_open :: "bool \<Rightarrow> bool \<Rightarrow> fork_result \<Rightarrow> string + process" where
  "process_open pipe_in pipe_out fork =
     (if \<not> pipe_in \<or> \<not> pipe_out then Inl ''Pipe failed''
      else case fork of
          Fork_failed \<Rightarrow> Inl ''Fork failed''
        | Fork_parent \<Rightarrow> Inr
            \<lparr>proc_stdin = True, proc_stdout = True, proc_child = True, proc_running = False,
             proc_stop_requested = False, proc_reader_at = No_reader,
             proc_received = [], proc_delivered = [], proc_input = []\<rparr>)"

text \<open>
  \<open>start\<close>: assigning the new thread joins an earlier one, so the reader is done or was never
  there.
\<close>

definition process_start :: "process \<Rightarrow> process" where
  "process_start p =
     (if proc_running p then p
      else p\<lparr>proc_running := True, proc_stop_requested := False, proc_reader_at := Reading [],
             proc_received := [], proc_delivered := []\<rparr>)"

text \<open>The bytes of one read: \<open>None\<close> is a failed read or the end of the stream.\<close>

definition process_line :: "string \<Rightarrow> json option" where
  "process_line line =
     (if line = [] then None else case json_parse line of Inl _ \<Rightarrow> None | Inr j \<Rightarrow> Some j)"

definition process_byte :: "char \<Rightarrow> string \<Rightarrow> process \<Rightarrow> process" where
  "process_byte c line p =
     (let p = p\<lparr>proc_received := proc_received p @ [c]\<rparr> in
      if c = CHR ''\<newline>'' then
        p\<lparr>proc_delivered := proc_delivered p @ (case process_line line of None \<Rightarrow> [] | Some j \<Rightarrow> [j]),
          proc_reader_at := Reading []\<rparr>
      else if c \<noteq> CHR 0x0D then p\<lparr>proc_reader_at := Reading (line @ [c])\<rparr>
      else p)"

definition process_finish :: "process \<Rightarrow> process" where
  "process_finish p = p\<lparr>proc_running := False, proc_reader_at := Reader_done\<rparr>"

definition process_read :: "char option \<Rightarrow> string \<Rightarrow> process \<Rightarrow> process" where
  "process_read r line p =
     (if proc_stop_requested p then process_finish p
      else case r of None \<Rightarrow> process_finish p | Some c \<Rightarrow> process_byte c line p)"

definition process_stop :: "process \<Rightarrow> process" where
  "process_stop p =
     (let p = (if proc_running p
               then p\<lparr>proc_stop_requested := True, proc_stdout := False, proc_stdin := False, proc_child := False\<rparr>
               else p)
      in p\<lparr>proc_running := False\<rparr>)"

text \<open>\<open>send\<close> ignores the result of \<open>write\<close>, which is the number of bytes taken, or an error.\<close>

definition process_send :: "float_printer \<Rightarrow> json \<Rightarrow> nat option \<Rightarrow> process \<Rightarrow> json_exc + process" where
  "process_send fc msg taken p =
     rbind (json_dump fc msg) (\<lambda>s.
       let payload = s @ ''\<newline>''
       in Inr (case taken of None \<Rightarrow> p | Some n \<Rightarrow> p\<lparr>proc_input := proc_input p @ take n payload\<rparr>))"

text \<open>
  All interleavings. A byte can be read only from an open endpoint, \<open>start\<close> runs only when no
  reader is alive (else it waits for it to end), and \<open>write\<close> takes at most the whole payload
  of an open endpoint.
\<close>

inductive pstep :: "float_printer \<Rightarrow> process \<Rightarrow> process \<Rightarrow> bool" for fc where
  start: "(\<forall>l. proc_reader_at p \<noteq> Reading l) \<or> proc_running p \<Longrightarrow> pstep fc p (process_start p)"
| read: "proc_reader_at p = Reading line \<Longrightarrow> proc_stdout p \<or> r = None \<Longrightarrow> pstep fc p (process_read r line p)"
| stop: "pstep fc p (process_stop p)"
| send: "process_send fc msg taken p = Inr p' \<Longrightarrow> proc_stdin p \<or> taken = None \<Longrightarrow> pstep fc p p'"

end
