(* ===== verification/Process_Properties.thy ===== *)
theory Process_Properties
  imports Process_Transport Parser_Properties
begin














text \<open>Without a new start, a reader that has ended leaves the resources as they are.\<close>

lemma ended_step:
  "pstep fc p p' \<Longrightarrow> \<not> proc_running p' \<Longrightarrow> \<not> proc_running p \<Longrightarrow> proc_reader_at p = Reader_done \<Longrightarrow>
   proc_reader_at p' = Reader_done \<and> proc_child p' = proc_child p \<and> proc_stdin p' = proc_stdin p \<and>
   proc_stdout p' = proc_stdout p"
  by (induction rule: pstep.induct)
    (auto simp: process_start_def process_stop_def process_send_def rbind_Inr_iff Let_def split: option.splits)

subsection \<open>A run\<close>

definition child :: "bool \<Rightarrow> proc_reader \<Rightarrow> process" where
  "child running r =
     \<lparr>proc_stdin = True, proc_stdout = True, proc_child = True, proc_running = running,
      proc_stop_requested = False, proc_reader_at = r, proc_received = [], proc_delivered = [], proc_input = []\<rparr>"




subsection \<open>The properties\<close>



text \<open>
  C34. Release of the resources. \<open>stop\<close> closes both endpoints and waits for the child when
  the reader is alive. But once the reader has seen the end of the stream, which clears
  \<open>running_\<close>, no call releases anything any more: the endpoints stay open and the child is
  never waited for, not even by the destructor, which only calls \<open>stop\<close>.
\<close>

theorem end_of_stream_leaks:
  assumes "proc_reader_at p = Reading line" and "(\<lambda>q q'. pstep fc q q' \<and> \<not> proc_running q')\<^sup>*\<^sup>* (process_read None line p) q"
  shows "proc_child q = proc_child p \<and> proc_stdin q = proc_stdin p \<and> proc_stdout q = proc_stdout p \<and>
    (proc_running p \<longrightarrow> \<not> proc_child (process_stop p) \<and> \<not> proc_stdin (process_stop p) \<and> \<not> proc_stdout (process_stop p))"
proof -
  have "\<not> proc_running q \<and> proc_reader_at q = Reader_done \<and> proc_child q = proc_child p \<and>
    proc_stdin q = proc_stdin p \<and> proc_stdout q = proc_stdout p"
    using assms(2)
  proof (induction rule: rtranclp_induct)
    case base
    show ?case by (simp add: process_read_def process_finish_def)
  next
    case (step r s)
    then show ?case using ended_step [of fc r s] by auto
  qed
  then show ?thesis by (simp add: process_stop_def Let_def)
qed

theorem end_of_stream_leaks_witness:
  "proc_child (process_stop (child False Reader_done)) \<and> proc_stdin (process_stop (child False Reader_done)) \<and>
   proc_stdout (process_stop (child False Reader_done))"
proof -
  let ?p = "child True (Reading [])"
  have "process_read None [] ?p = child False Reader_done" by (simp add: process_read_def process_finish_def child_def)
  moreover have "pstep (\<lambda>_. []) (child False Reader_done) (process_stop (child False Reader_done))" by (rule pstep.stop)
  moreover have "\<not> proc_running (process_stop (child False Reader_done))" by (simp add: process_stop_def Let_def)
  ultimately have "(\<lambda>q q'. pstep (\<lambda>_. []) q q' \<and> \<not> proc_running q')\<^sup>*\<^sup>* (process_read None [] ?p) (process_stop (child False Reader_done))"
    by (simp add: r_into_rtranclp)
  from end_of_stream_leaks [OF _ this] show ?thesis by (simp add: child_def)
qed

end
