(* ===== verification/Native_Stdio.thy ===== *)
theory Native_Stdio
  imports Protocol
begin

unbundle bit_operations_syntax

text \<open>
  include/synapse/detail/stdio_posix.hpp: the endpoints of the stdio transport on POSIX
  systems. \<open>open\<close> duplicates the two descriptors, makes a wake pipe for each direction and
  switches the endpoints to non-blocking mode; its destructor undoes all that. \<open>read_some\<close>
  and \<open>write_some\<close> wait until the endpoint is ready or a stop is requested.

  The kernel is what these calls need of it: the table of descriptors of the process with the
  open file descriptions they refer to, the status flags of the descriptions, the state of
  SIGPIPE in the calling thread. Whether a call is interrupted, fails or succeeds is decided
  by the environment: a list of replies, consumed by the calls in order. A function gives
  \<open>None\<close> when the replies run out before it returns.
\<close>

subsection \<open>The kernel\<close>

record kernel =
  fds :: "(nat \<times> nat) list"
  flags :: "nat \<Rightarrow> 32 word"
  next_desc :: nat

datatype reply = R_eintr | R_fail | R_ok

definition o_nonblock :: "32 word" where
  "o_nonblock = 0x800"

definition free_fd :: "kernel \<Rightarrow> nat" where
  "free_fd k = hd (filter (\<lambda>n. n \<notin> fst ` set (fds k)) [0..<Suc (length (fds k))])"

definition desc_of :: "kernel \<Rightarrow> nat \<Rightarrow> nat option" where
  "desc_of k fd = map_of (fds k) fd"

definition sys_close :: "nat \<Rightarrow> kernel \<Rightarrow> kernel" where
  "sys_close fd k = k\<lparr>fds := filter (\<lambda>p. fst p \<noteq> fd) (fds k)\<rparr>"

subsection \<open>Calls\<close>

type_synonym sys = "kernel \<times> reply list"
type_synonym 'a call = "sys \<Rightarrow> ('a \<times> sys) option"

definition sret :: "'a \<Rightarrow> 'a call" where
  "sret x s = Some (x, s)"

definition sbind :: "'a call \<Rightarrow> ('a \<Rightarrow> 'b call) \<Rightarrow> 'b call" where
  "sbind m f s = (case m s of None \<Rightarrow> None | Some (x, s') \<Rightarrow> f x s')"

text \<open>\<open>do { result = call } while (result < 0 && errno == EINTR)\<close>: whether the call succeeded.\<close>

fun retry :: "reply list \<Rightarrow> (bool \<times> reply list) option" where
  "retry [] = None"
| "retry (R_eintr # rs) = retry rs"
| "retry (R_fail # rs) = Some (False, rs)"
| "retry (R_ok # rs) = Some (True, rs)"

definition syscall :: "bool call" where
  "syscall s = map_option (\<lambda>(ok, rs). (ok, fst s, rs)) (retry (snd s))"

definition on_kernel :: "(kernel \<Rightarrow> kernel) \<Rightarrow> unit call" where
  "on_kernel f s = Some ((), f (fst s), snd s)"

definition set_flags :: "nat \<Rightarrow> 32 word \<Rightarrow> bool call" where
  "set_flags fd w = sbind syscall (\<lambda>ok s.
     case desc_of (fst s) fd of
       Some d \<Rightarrow> if ok then Some (True, (fst s)\<lparr>flags := (flags (fst s))(d := w)\<rparr>, snd s) else Some (False, s)
     | None \<Rightarrow> Some (False, s))"

definition duplicate :: "nat \<Rightarrow> nat option call" where
  "duplicate fd = sbind syscall (\<lambda>ok s.
     case desc_of (fst s) fd of
       Some d \<Rightarrow> if ok then (let n = free_fd (fst s) in Some (Some n, (fst s)\<lparr>fds := (n, d) # fds (fst s)\<rparr>, snd s))
                 else Some (None, s)
     | None \<Rightarrow> Some (None, s))"

definition get_flags :: "nat \<Rightarrow> 32 word option call" where
  "get_flags fd = sbind syscall (\<lambda>ok s.
     Some (if ok then map_option (flags (fst s)) (desc_of (fst s) fd) else None, s))"

definition sys_pipe :: "(nat \<times> nat) option call" where
  "sys_pipe = sbind syscall (\<lambda>ok s.
     if ok then
       (let k = fst s; a = free_fd k; k1 = k\<lparr>fds := (a, next_desc k) # fds k\<rparr>; b = free_fd k1;
            k2 = k1\<lparr>fds := (b, Suc (next_desc k)) # fds k1, flags := (flags k)(next_desc k := 0, Suc (next_desc k) := 0),
                     next_desc := Suc (Suc (next_desc k))\<rparr>
        in Some (Some (a, b), k2, snd s))
     else Some (None, s))"

text \<open>The array \<open>wake\<close> is filled as soon as the pipe is there, whatever follows.\<close>

definition make_wake :: "(bool \<times> (nat \<times> nat) option) call" where
  "make_wake = sbind sys_pipe (\<lambda>p.
     case p of
       None \<Rightarrow> sret (False, None)
     | Some (a, b) \<Rightarrow>
         sbind syscall (\<lambda>ok. if \<not> ok then sret (False, p) else
         sbind (set_flags a o_nonblock) (\<lambda>ok. if \<not> ok then sret (False, p) else
         sbind syscall (\<lambda>ok. if \<not> ok then sret (False, p) else
         sbind (set_flags b o_nonblock) (\<lambda>ok. sret (ok, p))))))"

subsection \<open>Open and destroy\<close>

record posix_stdio =
  px_input :: "nat option"
  px_output :: "nat option"
  px_input_flags :: "32 word option"
  px_output_flags :: "32 word option"
  px_input_changed :: bool
  px_output_changed :: bool
  px_read_wake :: "(nat \<times> nat) option"
  px_write_wake :: "(nat \<times> nat) option"

definition new_posix :: posix_stdio where
  "new_posix =
     \<lparr>px_input = None, px_output = None, px_input_flags = None, px_output_flags = None, px_input_changed = False,
      px_output_changed = False, px_read_wake = None, px_write_wake = None\<rparr>"

definition opt_list :: "'a option \<Rightarrow> 'a list" where
  "opt_list x = (case x of None \<Rightarrow> [] | Some y \<Rightarrow> [y])"

definition pair_list :: "('a \<times> 'a) option \<Rightarrow> 'a list" where
  "pair_list x = (case x of None \<Rightarrow> [] | Some (a, b) \<Rightarrow> [a, b])"

definition owned :: "posix_stdio \<Rightarrow> nat list" where
  "owned v = opt_list (px_input v) @ opt_list (px_output v) @ pair_list (px_read_wake v) @ pair_list (px_write_wake v)"

text \<open>One restoration of the destructor, when it is due.\<close>

definition restore_flags :: "bool \<Rightarrow> nat option \<Rightarrow> 32 word option \<Rightarrow> bool call" where
  "restore_flags changed fd w =
     (case (fd, w) of (Some n, Some f) \<Rightarrow> if changed then set_flags n f else sret True | _ \<Rightarrow> sret True)"

text \<open>\<open>~state()\<close>; the value says whether the flags it set were really set.\<close>

definition destroy_posix :: "posix_stdio \<Rightarrow> bool call" where
  "destroy_posix v =
     sbind (restore_flags (px_input_changed v) (px_input v) (px_input_flags v)) (\<lambda>ok1.
     sbind (restore_flags (px_output_changed v) (px_output v) (px_output_flags v)) (\<lambda>ok2.
     sbind (on_kernel (fold sys_close (owned v))) (\<lambda>_. sret (ok1 \<and> ok2))))"

definition posix_failure :: "string \<Rightarrow> sdk_error" where
  "posix_failure message = \<lparr>sdk_code = io_error, sdk_message = message\<rparr>"

definition posix_cancelled :: sdk_error where
  "posix_cancelled = \<lparr>sdk_code = invalid_state, sdk_message = ''Native I/O stopped''\<rparr>"

text \<open>An early return of \<open>open\<close> destroys what was made so far.\<close>

definition open_fails :: "string \<Rightarrow> posix_stdio \<Rightarrow> ((sdk_error \<times> bool) + posix_stdio) call" where
  "open_fails message v = sbind (destroy_posix v) (\<lambda>ok. sret (Inl (posix_failure message, ok)))"

text \<open>The endpoints are made non-blocking unless they are already.\<close>

definition open_output :: "posix_stdio \<Rightarrow> nat \<Rightarrow> 32 word \<Rightarrow> ((sdk_error \<times> bool) + posix_stdio) call" where
  "open_output v out w =
     (if w AND o_nonblock = 0 then
        sbind (set_flags out (w OR o_nonblock)) (\<lambda>ok.
          if ok then sret (Inr (v\<lparr>px_output_changed := True\<rparr>)) else open_fails ''Cannot configure native output'' v)
      else sret (Inr v))"

definition open_input :: "posix_stdio \<Rightarrow> nat \<Rightarrow> 32 word \<Rightarrow> nat \<Rightarrow> 32 word \<Rightarrow> ((sdk_error \<times> bool) + posix_stdio) call" where
  "open_input v inp w out w' =
     (if w AND o_nonblock = 0 then
        sbind (set_flags inp (w OR o_nonblock)) (\<lambda>ok.
          if ok then open_output (v\<lparr>px_input_changed := True\<rparr>) out w' else open_fails ''Cannot configure native input'' v)
      else open_output v out w')"

definition open_wakes :: "posix_stdio \<Rightarrow> nat \<Rightarrow> 32 word \<Rightarrow> nat \<Rightarrow> 32 word \<Rightarrow> ((sdk_error \<times> bool) + posix_stdio) call" where
  "open_wakes v inp w out w' =
     sbind make_wake (\<lambda>(ok, p). let v = v\<lparr>px_read_wake := p\<rparr> in
       if \<not> ok then open_fails ''Cannot configure native I/O'' v else
     sbind make_wake (\<lambda>(ok, p). let v = v\<lparr>px_write_wake := p\<rparr> in
       if \<not> ok then open_fails ''Cannot configure native I/O'' v else open_input v inp w out w'))"

definition open_posix :: "nat \<Rightarrow> nat \<Rightarrow> ((sdk_error \<times> bool) + posix_stdio) call" where
  "open_posix input output =
     sbind (duplicate input) (\<lambda>i. let v = new_posix\<lparr>px_input := i\<rparr> in
       case i of None \<Rightarrow> open_fails ''Cannot duplicate native input'' v | Some inp \<Rightarrow>
     sbind (duplicate output) (\<lambda>j. let v = v\<lparr>px_output := j\<rparr> in
       case j of None \<Rightarrow> open_fails ''Cannot duplicate native output'' v | Some out \<Rightarrow>
     sbind (get_flags inp) (\<lambda>f. sbind (get_flags out) (\<lambda>g.
       let v = v\<lparr>px_input_flags := f, px_output_flags := g\<rparr> in
       case (f, g) of
         (Some w, Some w') \<Rightarrow> open_wakes v inp w out w'
       | _ \<Rightarrow> open_fails ''Cannot configure native I/O'' v))))"

subsection \<open>Waiting for an endpoint\<close>

text \<open>
  What one iteration of \<open>wait_ready\<close> sees: whether a stop is requested before the poll, the
  result of the poll (events on the wake pipe, an invalid endpoint, a ready endpoint), whether
  a stop is requested after it.
\<close>

datatype poll_result = Poll_eintr | Poll_error | Poll_events bool bool

type_synonym wait_round = "bool \<times> poll_result \<times> bool"

fun wait_ready :: "wait_round list \<Rightarrow> (sdk_error + unit) option" where
  "wait_ready [] = None"
| "wait_ready ((stopped, p, stopped') # rs) =
     (if stopped then Some (Inl posix_cancelled)
      else case p of
          Poll_eintr \<Rightarrow> wait_ready rs
        | Poll_error \<Rightarrow> Some (Inl (posix_failure ''Native I/O poll failed''))
        | Poll_events invalid ready \<Rightarrow>
            if stopped' then Some (Inl posix_cancelled)
            else if invalid then Some (Inl (posix_failure ''Native I/O endpoint invalid''))
            else if ready then Some (Inr ())
            else wait_ready rs)"

subsection \<open>SIGPIPE\<close>

text \<open>
  The signal in the calling thread: blocked, pending, ignored by the process, and whether it
  has been delivered with its default action, which ends the process.
\<close>

record sigpipe =
  sp_blocked :: bool
  sp_pending :: bool
  sp_ignored :: bool
  sp_killed :: bool

definition raise_sigpipe :: "sigpipe \<Rightarrow> sigpipe" where
  "raise_sigpipe g =
     (if sp_ignored g then g
      else if sp_blocked g then g\<lparr>sp_pending := True\<rparr> else g\<lparr>sp_killed := True\<rparr>)"

text \<open>Unblocking delivers a pending signal.\<close>

definition sigmask :: "bool \<Rightarrow> sigpipe \<Rightarrow> sigpipe" where
  "sigmask blocked g =
     (if \<not> blocked \<and> sp_pending g then g\<lparr>sp_blocked := False, sp_pending := False, sp_killed := True\<rparr>
      else g\<lparr>sp_blocked := blocked\<rparr>)"

record sigpipe_guard =
  sg_previous :: bool
  sg_active :: bool
  sg_pending_before :: bool

text \<open>The constructor: the results of \<open>pthread_sigmask\<close> and \<open>sigpending\<close> are arguments.\<close>

definition guard_open :: "bool \<Rightarrow> bool \<Rightarrow> sigpipe \<Rightarrow> sigpipe_guard \<times> sigpipe" where
  "guard_open masked examined g =
     (if \<not> masked then (\<lparr>sg_previous = sp_blocked g, sg_active = False, sg_pending_before = False\<rparr>, g)
      else let g1 = sigmask True g in
        if \<not> examined then (\<lparr>sg_previous = sp_blocked g, sg_active = False, sg_pending_before = False\<rparr>, sigmask (sp_blocked g) g1)
        else (\<lparr>sg_previous = sp_blocked g, sg_active = True, sg_pending_before = sp_pending g1\<rparr>, g1))"

text \<open>\<open>sigtimedwait\<close> with a zero timeout takes the signal if there is one; it is retried when interrupted.\<close>

fun consume_loop :: "bool list \<Rightarrow> sigpipe \<Rightarrow> sigpipe option" where
  "consume_loop [] g = None"
| "consume_loop (interrupted # es) g = (if interrupted then consume_loop es g else Some (g\<lparr>sp_pending := False\<rparr>))"

definition consume_new_signal :: "sigpipe_guard \<Rightarrow> bool list \<Rightarrow> sigpipe \<Rightarrow> sigpipe option" where
  "consume_new_signal sg es g = (if sg_pending_before sg then Some g else consume_loop es g)"

definition guard_close :: "sigpipe_guard \<Rightarrow> sigpipe \<Rightarrow> sigpipe" where
  "guard_close sg g = (if sg_active sg then sigmask (sg_previous sg) g else g)"

subsection \<open>Reading and writing\<close>

datatype io_result = Io_count nat | Io_again | Io_pipe | Io_failed

definition ssize_max :: nat where
  "ssize_max = 2 ^ 63 - 1"

text \<open>
  One iteration of the loops: the rounds of the wait, what \<open>read\<close> or \<open>write\<close> does
  (\<open>Io_again\<close> stands for EINTR, EAGAIN and EWOULDBLOCK), the interruptions of \<open>sigtimedwait\<close>.
\<close>

type_synonym io_round = "wait_round list \<times> io_result \<times> bool list"

fun read_loop :: "io_round list \<Rightarrow> nat \<Rightarrow> (sdk_error + nat) option" where
  "read_loop [] len = None"
| "read_loop ((ws, r, _) # rs) len =
     (case wait_ready ws of
        None \<Rightarrow> None
      | Some (Inl e) \<Rightarrow> Some (Inl e)
      | Some (Inr _) \<Rightarrow>
          (case r of
             Io_count n \<Rightarrow> Some (Inr (min n (min len ssize_max)))
           | Io_again \<Rightarrow> read_loop rs len
           | _ \<Rightarrow> Some (Inl (posix_failure ''Native input read failed''))))"

definition read_some :: "bool \<Rightarrow> io_round list \<Rightarrow> nat \<Rightarrow> (sdk_error + nat) option" where
  "read_some opened rs len =
     (if \<not> opened then Some (Inl posix_cancelled) else if len = 0 then Some (Inr 0) else read_loop rs len)"

fun write_loop :: "sigpipe_guard \<Rightarrow> io_round list \<Rightarrow> nat \<Rightarrow> sigpipe \<Rightarrow> ((sdk_error + nat) \<times> sigpipe) option" where
  "write_loop sg [] len g = None"
| "write_loop sg ((ws, r, es) # rs) len g =
     (case wait_ready ws of
        None \<Rightarrow> None
      | Some (Inl e) \<Rightarrow> Some (Inl e, g)
      | Some (Inr _) \<Rightarrow>
          (case r of
             Io_count n \<Rightarrow> Some (Inr (min n (min len ssize_max)), g)
           | Io_again \<Rightarrow> write_loop sg rs len g
           | Io_pipe \<Rightarrow>
               (case consume_new_signal sg es (raise_sigpipe g) of
                  None \<Rightarrow> None
                | Some g' \<Rightarrow> Some (Inl (posix_failure ''Native output write failed''), g'))
           | Io_failed \<Rightarrow> Some (Inl (posix_failure ''Native output write failed''), g)))"

definition write_some ::
  "bool \<Rightarrow> bool \<Rightarrow> bool \<Rightarrow> io_round list \<Rightarrow> nat \<Rightarrow> sigpipe \<Rightarrow> ((sdk_error + nat) \<times> sigpipe) option" where
  "write_some opened masked examined rs len g =
     (if \<not> opened then Some (Inl posix_cancelled, g)
      else if len = 0 then Some (Inr 0, g)
      else let (sg, g1) = guard_open masked examined g in
        if \<not> sg_active sg then Some (Inl (posix_failure ''Cannot protect native output signal''), guard_close sg g1)
        else map_option (\<lambda>(r, g2). (r, guard_close sg g2)) (write_loop sg rs len g1))"

subsection \<open>Stop requests against a wait\<close>

text \<open>
  A wait and the callers of \<open>request_stop\<close>, interleaved. \<open>wt_pipe\<close> is the number of bytes in
  the wake pipe, \<open>wt_wakers\<close> the number of callers that have stored \<open>stopped\<close> and are about
  to write to the pipe. Writing fails only when the pipe is full.
\<close>

datatype wait_pc = W_check | W_poll | W_drain | W_recheck | W_ready | W_cancelled

record waiting =
  wt_stopped :: bool
  wt_pipe :: nat
  wt_wakers :: nat
  wt_pc :: wait_pc

definition new_waiting :: waiting where
  "new_waiting = \<lparr>wt_stopped = False, wt_pipe = 0, wt_wakers = 0, wt_pc = W_check\<rparr>"

definition request_stop :: "waiting \<Rightarrow> waiting" where
  "request_stop w = w\<lparr>wt_stopped := True, wt_wakers := Suc (wt_wakers w)\<rparr>"

definition wake :: "bool \<Rightarrow> waiting \<Rightarrow> waiting" where
  "wake full w = (if full \<and> 0 < wt_pipe w then w else w\<lparr>wt_pipe := Suc (wt_pipe w)\<rparr>)"

definition wait_check :: "waiting \<Rightarrow> waiting" where
  "wait_check w = w\<lparr>wt_pc := (if wt_stopped w then W_cancelled else W_poll)\<rparr>"

text \<open>A poll can return when it is interrupted, when the pipe has a byte or the endpoint is ready.\<close>

definition poll_returns :: "bool \<Rightarrow> bool \<Rightarrow> waiting \<Rightarrow> bool" where
  "poll_returns interrupted ready w \<longleftrightarrow> interrupted \<or> ready \<or> 0 < wt_pipe w"

definition wait_poll :: "bool \<Rightarrow> waiting \<Rightarrow> waiting" where
  "wait_poll interrupted w =
     w\<lparr>wt_pc := (if interrupted then W_check else if 0 < wt_pipe w then W_drain else W_recheck)\<rparr>"

definition drain :: "waiting \<Rightarrow> waiting" where
  "drain w = w\<lparr>wt_pipe := 0, wt_pc := W_recheck\<rparr>"

definition wait_recheck :: "bool \<Rightarrow> waiting \<Rightarrow> waiting" where
  "wait_recheck ready w =
     w\<lparr>wt_pc := (if wt_stopped w then W_cancelled else if ready then W_ready else W_check)\<rparr>"

inductive wstep :: "waiting \<Rightarrow> waiting \<Rightarrow> bool" where
  stop: "wstep w (request_stop w)"
| stop_wake: "0 < wt_wakers w \<Longrightarrow> wstep w (wake full (w\<lparr>wt_wakers := wt_wakers w - 1\<rparr>))"
| cancel_pending: "wstep w (wake full w)"
| check: "wt_pc w = W_check \<Longrightarrow> wstep w (wait_check w)"
| poll: "wt_pc w = W_poll \<Longrightarrow> poll_returns interrupted ready w \<Longrightarrow> wstep w (wait_poll interrupted w)"
| drain: "wt_pc w = W_drain \<Longrightarrow> wstep w (drain w)"
| recheck: "wt_pc w = W_recheck \<Longrightarrow> wstep w (wait_recheck ready w)"

end
