(* ===== verification/Native_Properties.thy ===== *)
theory Native_Properties
  imports Native_Stdio
begin

text \<open>
  The properties of the POSIX endpoints: \<open>open\<close> and the destructor give back every descriptor
  and every status flag, a write leaves SIGPIPE as it was, a stop request is not lost.
\<close>

subsection \<open>Calls\<close>

lemma sbind_Some: "sbind m f s = Some r \<longleftrightarrow> (\<exists>x s'. m s = Some (x, s') \<and> f x s' = Some r)"
  by (auto simp: sbind_def split: option.split)

lemma sret_Some [simp]: "sret x s = Some (y, s') \<longleftrightarrow> y = x \<and> s' = s"
  by (auto simp: sret_def)

lemma syscall_Some: "syscall s = Some (ok, s') \<Longrightarrow> fst s' = fst s"
  by (auto simp: syscall_def)

lemma free_fd_fresh: "free_fd k \<notin> fst ` set (fds k)"
proof -
  let ?free = "filter (\<lambda>n. n \<notin> fst ` set (fds k)) [0..<Suc (length (fds k))]"
  have "?free \<noteq> []"
  proof
    assume "?free = []"
    then have "\<forall>n \<in> set [0..<Suc (length (fds k))]. n \<in> fst ` set (fds k)" unfolding filter_empty_conv by blast
    then have "{0..<Suc (length (fds k))} \<subseteq> fst ` set (fds k)" by (simp only: set_upt subset_iff) blast
    from card_mono [OF _ this] have "Suc (length (fds k)) \<le> card (fst ` set (fds k))" by simp
    also have "\<dots> \<le> length (fds k)" using card_image_le [of "set (fds k)" fst] card_length [of "fds k"] by simp
    finally show False by simp
  qed
  then have "hd ?free \<in> set ?free" by (rule hd_in_set)
  then show ?thesis unfolding free_fd_def by (simp del: upt_Suc)
qed

subsection \<open>What an endpoint under construction has changed\<close>

text \<open>
  An endpoint \<open>fd\<close> of the object refers to a description of the original kernel \<open>k0\<close>, whose
  flags were saved before anything was changed.
\<close>

definition endpoint_ok :: "kernel \<Rightarrow> kernel \<Rightarrow> nat option \<Rightarrow> 32 word option \<Rightarrow> bool" where
  "endpoint_ok k0 k fd saved \<longleftrightarrow>
     (\<forall>n. fd = Some n \<longrightarrow> (\<exists>d < next_desc k0. desc_of k n = Some d \<and> (\<forall>w. saved = Some w \<longrightarrow> w = flags k0 d)))"

definition undoes :: "kernel \<Rightarrow> bool \<Rightarrow> nat option \<Rightarrow> 32 word option \<Rightarrow> nat \<Rightarrow> bool" where
  "undoes k changed fd saved d \<longleftrightarrow> changed \<and> saved \<noteq> None \<and> (\<exists>n. fd = Some n \<and> desc_of k n = Some d)"

definition table_ok :: "kernel \<Rightarrow> kernel \<Rightarrow> nat list \<Rightarrow> bool" where
  "table_ok k0 k own \<longleftrightarrow>
     (\<exists>xs. fds k = xs @ fds k0 \<and> set (map fst xs) = set own) \<and> distinct (map fst (fds k)) \<and> next_desc k0 \<le> next_desc k"

definition keeps :: "kernel \<Rightarrow> kernel \<Rightarrow> posix_stdio \<Rightarrow> bool" where
  "keeps k0 k v \<longleftrightarrow>
     table_ok k0 k (owned v) \<and>
     endpoint_ok k0 k (px_input v) (px_input_flags v) \<and> endpoint_ok k0 k (px_output v) (px_output_flags v) \<and>
     (\<forall>d < next_desc k0. flags k d = flags k0 d \<or>
        undoes k (px_input_changed v) (px_input v) (px_input_flags v) d \<or>
        undoes k (px_output_changed v) (px_output v) (px_output_flags v) d)"

subsection \<open>The destructor\<close>

lemma fold_sys_close: "fold sys_close ns k = k\<lparr>fds := filter (\<lambda>p. fst p \<notin> set ns) (fds k)\<rparr>"
proof (induction ns arbitrary: k)
  case (Cons n ns)
  have "sys_close n k = k\<lparr>fds := filter (\<lambda>p. fst p \<noteq> n) (fds k)\<rparr>" by (simp add: sys_close_def)
  then show ?case by (simp add: Cons.IH)
qed simp

lemma table_ok_closed:
  assumes "table_ok k0 k own"
  shows "filter (\<lambda>p. fst p \<notin> set own) (fds k) = fds k0"
proof -
  obtain xs where xs: "fds k = xs @ fds k0" "set (map fst xs) = set own" "distinct (map fst (xs @ fds k0))"
    using assms by (auto simp: table_ok_def)
  have "filter (\<lambda>p. fst p \<notin> set own) xs = []" using xs(2) by (auto simp: filter_empty_conv)
  moreover have "filter (\<lambda>p. fst p \<notin> set own) (fds k0) = fds k0"
    unfolding filter_id_conv using xs(2,3) by force
  ultimately show ?thesis by (simp add: xs(1))
qed

lemma set_flags_Some:
  assumes "set_flags fd w s = Some (ok, s')"
  shows "fds (fst s') = fds (fst s)" "next_desc (fst s') = next_desc (fst s)"
    and "ok \<Longrightarrow> desc_of (fst s) fd = Some d \<Longrightarrow> flags (fst s') = (flags (fst s))(d := w)"
    and "\<not> ok \<Longrightarrow> flags (fst s') = flags (fst s)"
    and "desc_of (fst s) fd = Some d \<Longrightarrow> e \<noteq> d \<Longrightarrow> flags (fst s') e = flags (fst s) e"
  using assms by (auto simp: set_flags_def sbind_Some dest!: syscall_Some split: option.splits if_split_asm)

lemma desc_of_cong: "fds k = fds k' \<Longrightarrow> desc_of k = desc_of k'"
  by (auto simp: desc_of_def)

lemma restore_flags_Some:
  assumes "restore_flags changed fd saved s = Some (ok, s')" "endpoint_ok k0 (fst s) fd saved"
  shows "fds (fst s') = fds (fst s)" "next_desc (fst s') = next_desc (fst s)"
    and "ok \<Longrightarrow> d < next_desc k0 \<Longrightarrow> flags (fst s') d = flags (fst s) d \<or> flags (fst s') d = flags k0 d"
    and "ok \<Longrightarrow> undoes (fst s) changed fd saved d \<Longrightarrow> d < next_desc k0 \<Longrightarrow> flags (fst s') d = flags k0 d"
proof -
  show "fds (fst s') = fds (fst s)" "next_desc (fst s') = next_desc (fst s)"
    using assms(1) by (auto simp: restore_flags_def dest: set_flags_Some(1,2) split: option.splits if_split_asm)
  have set: "flags (fst s') = (flags (fst s))(d' := flags k0 d')"
    if "ok" "changed" "fd = Some n" "saved = Some w" "desc_of (fst s) n = Some d'" for n w d'
  proof -
    have "w = flags k0 d'" using assms(2) that(3-5) by (auto simp: endpoint_ok_def)
    moreover have "set_flags n w s = Some (ok, s')" using assms(1) that by (simp add: restore_flags_def)
    ultimately show ?thesis using set_flags_Some(3) that(1,5) by blast
  qed
  show "flags (fst s') d = flags k0 d" if "ok" "undoes (fst s) changed fd saved d" "d < next_desc k0"
    using that set by (auto simp: undoes_def)
  show "flags (fst s') d = flags (fst s) d \<or> flags (fst s') d = flags k0 d" if "ok" "d < next_desc k0"
  proof (cases "changed \<and> saved \<noteq> None \<and> fd \<noteq> None")
    case True
    then obtain n w where n: "fd = Some n" "saved = Some w" by blast
    then obtain d' where "desc_of (fst s) n = Some d'" using assms(2) by (auto simp: endpoint_ok_def)
    then show ?thesis using set that n True by (cases "d = d'") simp_all
  next
    case False
    then have "s' = s" using assms(1) by (auto simp: restore_flags_def split: option.splits)
    then show ?thesis by simp
  qed
qed

lemma undoes_cong: "desc_of k = desc_of k' \<Longrightarrow> undoes k c fd w d = undoes k' c fd w d"
  by (simp add: undoes_def)

text \<open>The destructor gives back the table, and the flags as far as it could set them.\<close>

definition given_back :: "kernel \<Rightarrow> kernel \<Rightarrow> bool \<Rightarrow> bool" where
  "given_back k0 k ok \<longleftrightarrow> fds k = fds k0 \<and> (ok \<longrightarrow> (\<forall>d < next_desc k0. flags k d = flags k0 d))"

lemma destroy_gives_back:
  assumes "keeps k0 (fst s) v" "destroy_posix v s = Some (ok, s')"
  shows "given_back k0 (fst s') ok"
proof -
  obtain ok1 s1 ok2 s2 where r1: "restore_flags (px_input_changed v) (px_input v) (px_input_flags v) s = Some (ok1, s1)"
    and r2: "restore_flags (px_output_changed v) (px_output v) (px_output_flags v) s1 = Some (ok2, s2)"
    and rest: "fst s' = fold sys_close (owned v) (fst s2)" "ok = (ok1 \<and> ok2)"
    using assms(2) unfolding destroy_posix_def sbind_Some on_kernel_def sret_Some by fastforce
  have e1: "endpoint_ok k0 (fst s) (px_input v) (px_input_flags v)" and e2: "endpoint_ok k0 (fst s) (px_output v) (px_output_flags v)"
    and t: "table_ok k0 (fst s) (owned v)" using assms(1) by (auto simp: keeps_def)
  note p1 = restore_flags_Some [OF r1 e1]
  have same: "desc_of (fst s1) = desc_of (fst s)" by (rule desc_of_cong [OF p1(1)])
  have "endpoint_ok k0 (fst s1) (px_output v) (px_output_flags v)" using e2 by (simp add: endpoint_ok_def same)
  note p2 = restore_flags_Some [OF r2 this]
  have "table_ok k0 (fst s2) (owned v)" using t p1(1,2) p2(1,2) by (simp add: table_ok_def)
  then have "fds (fst s') = fds k0" unfolding rest(1) fold_sys_close by (simp add: table_ok_closed)
  moreover have "flags (fst s') d = flags k0 d" if "ok" "d < next_desc k0" for d
  proof -
    have "flags (fst s) d = flags k0 d \<or> undoes (fst s) (px_input_changed v) (px_input v) (px_input_flags v) d \<or>
        undoes (fst s1) (px_output_changed v) (px_output v) (px_output_flags v) d"
      using assms(1) that(2) undoes_cong [OF same] by (auto simp: keeps_def)
    then have "flags (fst s2) d = flags k0 d"
      using p1(3,4) [of d] p2(3,4) [of d] that rest(2) by metis
    then show ?thesis unfolding rest(1) fold_sys_close by simp
  qed
  ultimately show ?thesis by (simp add: given_back_def)
qed

subsection \<open>The steps of the construction\<close>

text \<open>New descriptors \<open>ns\<close>, and nothing changed about the old descriptions.\<close>

definition grown :: "kernel \<Rightarrow> kernel \<Rightarrow> nat list \<Rightarrow> bool" where
  "grown k k' ns \<longleftrightarrow>
     (\<exists>xs. fds k' = xs @ fds k \<and> set (map fst xs) = set ns) \<and>
     (distinct (map fst (fds k)) \<longrightarrow> distinct (map fst (fds k'))) \<and> next_desc k \<le> next_desc k' \<and>
     (\<forall>d < next_desc k. flags k' d = flags k d) \<and>
     (\<forall>n d. desc_of k n = Some d \<longrightarrow> desc_of k' n = Some d)"

lemma grown_refl: "grown k k []"
  by (simp add: grown_def)

lemma fresh_no_desc: "n \<notin> fst ` set (fds k) \<Longrightarrow> desc_of k n = None"
  by (simp add: desc_of_def map_of_eq_None_iff)

lemma grown_add:
  assumes "n \<notin> fst ` set (fds k)"
  shows "grown k (k\<lparr>fds := (n, d) # fds k\<rparr>) [n]" "desc_of (k\<lparr>fds := (n, d) # fds k\<rparr>) n = Some d"
  using assms fresh_no_desc [OF assms] by (auto simp: grown_def desc_of_def)

lemma duplicate_cases:
  assumes "duplicate fd s = Some (r, s')"
  obtains "r = None" "fst s' = fst s"
  | n d where "r = Some n" "desc_of (fst s) fd = Some d" "grown (fst s) (fst s') [n]" "desc_of (fst s') n = Some d"
      "set (map snd (fds (fst s'))) = insert d (set (map snd (fds (fst s))))"
proof -
  obtain ok s1 where c: "syscall s = Some (ok, s1)"
    and r: "(case desc_of (fst s1) fd of
       Some d \<Rightarrow> if ok then (let n = free_fd (fst s1) in Some (Some n, (fst s1)\<lparr>fds := (n, d) # fds (fst s1)\<rparr>, snd s1))
                 else Some (None, s1)
     | None \<Rightarrow> Some (None, s1)) = Some (r, s')"
    using assms by (auto simp: duplicate_def sbind_Some)
  note same = syscall_Some [OF c]
  show ?thesis
  proof (cases "desc_of (fst s) fd")
    case (Some d)
    show ?thesis
    proof (cases ok)
      case True
      then show ?thesis
        using r Some that(2) grown_add [OF free_fd_fresh, of "fst s" d] by (auto simp: same Let_def)
    next
      case False
      then have "r = None" "s' = s1" using r Some by (simp_all add: same)
      then show ?thesis using that(1) same by simp
    qed
  next
    case None
    then have "r = None" "s' = s1" using r by (simp_all add: same)
    then show ?thesis using that(1) same by simp
  qed
qed

lemma sys_pipe_cases:
  assumes "sys_pipe s = Some (r, s')"
  obtains "r = None" "fst s' = fst s"
  | a b where "r = Some (a, b)" "grown (fst s) (fst s') [a, b]" "desc_of (fst s') a = Some (next_desc (fst s))"
      "desc_of (fst s') b = Some (Suc (next_desc (fst s)))"
proof -
  obtain ok s1 where c: "syscall s = Some (ok, s1)" using assms by (auto simp: sys_pipe_def sbind_Some)
  define k where "k = fst s"
  define k1 where "k1 = k\<lparr>fds := (free_fd k, next_desc k) # fds k\<rparr>"
  have same: "fst s1 = k" using syscall_Some [OF c] by (simp add: k_def)
  note fresh = free_fd_fresh [of k] free_fd_fresh [of k1]
  show ?thesis
  proof (cases ok)
    case True
    let ?k2 = "k1\<lparr>fds := (free_fd k1, Suc (next_desc k)) # fds k1,
      flags := (flags k)(next_desc k := 0, Suc (next_desc k) := 0), next_desc := Suc (Suc (next_desc k))\<rparr>"
    have r: "r = Some (free_fd k, free_fd k1)" "fst s' = ?k2"
      using assms c True same by (auto simp: sys_pipe_def sbind_Some Let_def k1_def)
    have ne: "free_fd k1 \<noteq> free_fd k" using fresh(2) by (auto simp: k1_def)
    have "grown k ?k2 [free_fd k, free_fd k1]"
      unfolding grown_def using fresh ne fresh_no_desc [OF fresh(1)] fresh_no_desc [OF fresh(2)]
      by (auto simp: k1_def desc_of_def split: if_split_asm)
    then show ?thesis using that(2) r ne by (simp add: k_def k1_def desc_of_def)
  next
    case False
    then show ?thesis using that(1) assms c same by (auto simp: sys_pipe_def sbind_Some k_def)
  qed
qed

lemma grown_set_flags:
  assumes "grown k (fst s) ns" "desc_of (fst s) fd = Some d" "next_desc k \<le> d" "set_flags fd w s = Some (ok, s')"
  shows "grown k (fst s') ns"
proof -
  note f = set_flags_Some [OF assms(4)]
  have "flags (fst s') e = flags (fst s) e" if "e < next_desc k" for e
    using f(5) [OF assms(2), of e] that assms(3) by simp
  moreover have "desc_of (fst s') = desc_of (fst s)" by (rule desc_of_cong [OF f(1)])
  ultimately show ?thesis using assms(1) f(1,2) by (simp add: grown_def)
qed

lemma early_return:
  assumes "sbind m (\<lambda>ok. if \<not> ok then sret (False, q) else f) t = Some ((r, p), t')"
    and "\<And>x u. m t = Some (x, u) \<Longrightarrow> P u" and "\<And>u. P u \<Longrightarrow> f u = Some ((r, p), t') \<Longrightarrow> p = q \<and> P t'"
  shows "p = q \<and> P t'"
proof -
  obtain x u where m: "m t = Some (x, u)" and r: "(if \<not> x then sret (False, q) else f) u = Some ((r, p), t')"
    using assms(1) unfolding sbind_Some by blast
  then show ?thesis using assms(2) [OF m] assms(3) [of u] by (cases x) auto
qed

lemma make_wake_grows:
  assumes "make_wake s = Some ((ok, p), s')"
  shows "grown (fst s) (fst s') (pair_list p)"
proof -
  obtain r s1 where pipe: "sys_pipe s = Some (r, s1)" using assms by (auto simp: make_wake_def sbind_Some)
  from pipe show ?thesis
  proof (cases rule: sys_pipe_cases)
    case 1
    then show ?thesis using assms pipe grown_refl by (auto simp: make_wake_def sbind_Some pair_list_def)
  next
    case (2 a b)
    have step: "grown (fst s) (fst t') [a, b] \<and> desc_of (fst t') = desc_of (fst s1)"
      if g: "grown (fst s) (fst t) [a, b]" and same: "desc_of (fst t) = desc_of (fst s1)" and n: "n \<in> {a, b}"
        and call: "set_flags n w t = Some (ok', t')" for n w t t' ok'
    proof -
      obtain d where d: "desc_of (fst t) n = Some d" "next_desc (fst s) \<le> d" using 2(3,4) same n by auto
      show ?thesis
        using grown_set_flags [OF g d call] same desc_of_cong [OF set_flags_Some(1) [OF call]] by simp
    qed
    have call: "grown (fst s) (fst t') [a, b] \<and> desc_of (fst t') = desc_of (fst s1)"
      if g: "grown (fst s) (fst t) [a, b]" and same: "desc_of (fst t) = desc_of (fst s1)"
        and sys: "syscall t = Some (ok', t')" for t t' ok'
      using g same syscall_Some [OF sys] by simp
    define P where "P t \<longleftrightarrow> grown (fst s) (fst t) [a, b] \<and> desc_of (fst t) = desc_of (fst s1)" for t :: sys
    have sys: "P t'" if "P t" "syscall t = Some (x, t')" for t t' x
      using call [of t x t'] that by (simp add: P_def)
    have set: "P t'" if "P t" "n \<in> {a, b}" "set_flags n w t = Some (x, t')" for t t' x n w
      using step [of t n w x t'] that by (simp add: P_def)
    let ?q = "Some (a, b)"
    let ?b = "sbind (set_flags b o_nonblock) (\<lambda>ok. sret (ok, ?q))"
    let ?sb = "sbind syscall (\<lambda>ok. if \<not> ok then sret (False, ?q) else ?b)"
    let ?a = "sbind (set_flags a o_nonblock) (\<lambda>ok. if \<not> ok then sret (False, ?q) else ?sb)"
    have rest: "sbind syscall (\<lambda>ok. if \<not> ok then sret (False, ?q) else ?a) s1 = Some ((ok, p), s')"
      using assms pipe 2(1) by (simp add: make_wake_def sbind_def)
    have c4: "p = ?q \<and> P s'" if "P u" "?b u = Some ((ok, p), s')" for u
      using that set [of u b] by (auto simp: sbind_Some)
    have c3: "p = ?q \<and> P s'" if u: "P u" and r: "?sb u = Some ((ok, p), s')" for u
      by (rule early_return [where P = P, OF r]) (erule sys [OF u], erule (1) c4)
    have c2: "p = ?q \<and> P s'" if u: "P u" and r: "?a u = Some ((ok, p), s')" for u
      by (rule early_return [where P = P, OF r]) (erule set [OF u insertI1], erule (1) c3)
    have s1: "P s1" using 2(2) by (simp add: P_def)
    have "p = ?q \<and> P s'"
      by (rule early_return [where P = P, OF rest]) (erule sys [OF s1], erule (1) c2)
    then show ?thesis by (simp add: pair_list_def P_def)
  qed
qed

subsection \<open>The construction\<close>

lemma table_ok_grown:
  assumes "table_ok k0 k own" "grown k k' ns" "set own' = set own \<union> set ns"
  shows "table_ok k0 k' own'"
proof -
  obtain xs ys where "fds k = xs @ fds k0" "set (map fst xs) = set own" "fds k' = ys @ fds k" "set (map fst ys) = set ns"
    using assms(1,2) by (auto simp: table_ok_def grown_def)
  then have "fds k' = (ys @ xs) @ fds k0 \<and> set (map fst (ys @ xs)) = set own'" using assms(3) by auto
  then show ?thesis using assms(1,2) unfolding table_ok_def grown_def by (metis order_trans)
qed

lemma endpoint_ok_grown: "endpoint_ok k0 k fd w \<Longrightarrow> grown k k' ns \<Longrightarrow> endpoint_ok k0 k' fd w"
  by (auto simp: endpoint_ok_def grown_def)

lemma undoes_grown: "undoes k c fd w d \<Longrightarrow> grown k k' ns \<Longrightarrow> undoes k' c fd w d"
  by (auto simp: undoes_def grown_def)

lemma keeps_grown:
  assumes "keeps k0 k v" "grown k k' ns" "set (owned v') = set (owned v) \<union> set ns"
    and "px_input v' = px_input v" "px_output v' = px_output v" "px_input_flags v' = px_input_flags v"
    and "px_output_flags v' = px_output_flags v" "px_input_changed v' = px_input_changed v"
    and "px_output_changed v' = px_output_changed v"
  shows "keeps k0 k' v'"
  unfolding keeps_def assms(4-9)
proof (intro conjI allI impI)
  have parts: "table_ok k0 k (owned v)" "endpoint_ok k0 k (px_input v) (px_input_flags v)"
    "endpoint_ok k0 k (px_output v) (px_output_flags v)"
    using assms(1) unfolding keeps_def by blast+
  show "table_ok k0 k' (owned v')" by (rule table_ok_grown [OF parts(1) assms(2,3)])
  show "endpoint_ok k0 k' (px_input v) (px_input_flags v)" "endpoint_ok k0 k' (px_output v) (px_output_flags v)"
    using endpoint_ok_grown [OF _ assms(2)] parts(2,3) by blast+
  fix d assume d: "d < next_desc k0"
  have "next_desc k0 \<le> next_desc k" using parts(1) unfolding table_ok_def by blast
  with d have "d < next_desc k" by (rule less_le_trans)
  then have same: "flags k' d = flags k d" using assms(2) unfolding grown_def by blast
  have "flags k d = flags k0 d \<or> undoes k (px_input_changed v) (px_input v) (px_input_flags v) d \<or>
      undoes k (px_output_changed v) (px_output v) (px_output_flags v) d"
    using assms(1) d unfolding keeps_def by blast
  then show "flags k' d = flags k0 d \<or> undoes k' (px_input_changed v) (px_input v) (px_input_flags v) d \<or>
      undoes k' (px_output_changed v) (px_output v) (px_output_flags v) d"
    unfolding same using undoes_grown [OF _ assms(2)] by blast
qed

text \<open>An endpoint is made non-blocking after its flags were saved.\<close>

lemma keeps_set_input:
  assumes "keeps k0 (fst s) v" "px_input v = Some n" "px_input_flags v \<noteq> None" "set_flags n w s = Some (ok, s')"
  shows "keeps k0 (fst s') (if ok then v\<lparr>px_input_changed := True\<rparr> else v)"
proof -
  note f = set_flags_Some [OF assms(4)]
  have same: "desc_of (fst s') = desc_of (fst s)" by (rule desc_of_cong [OF f(1)])
  obtain d where d: "desc_of (fst s) n = Some d" using assms(1,2) by (auto simp: keeps_def endpoint_ok_def)
  have "flags (fst s') e = flags (fst s) e" if "\<not> (ok \<and> e = d)" for e
    using f(4) f(5) [OF d, of e] that by (cases "e = d") auto
  then show ?thesis
    using assms(1-3) d f(1,2) unfolding keeps_def
    by (auto simp: table_ok_def endpoint_ok_def undoes_def owned_def same)
qed

lemma keeps_set_output:
  assumes "keeps k0 (fst s) v" "px_output v = Some n" "px_output_flags v \<noteq> None" "set_flags n w s = Some (ok, s')"
  shows "keeps k0 (fst s') (if ok then v\<lparr>px_output_changed := True\<rparr> else v)"
proof -
  note f = set_flags_Some [OF assms(4)]
  have same: "desc_of (fst s') = desc_of (fst s)" by (rule desc_of_cong [OF f(1)])
  obtain d where d: "desc_of (fst s) n = Some d" using assms(1,2) by (auto simp: keeps_def endpoint_ok_def)
  have "flags (fst s') e = flags (fst s) e" if "\<not> (ok \<and> e = d)" for e
    using f(4) f(5) [OF d, of e] that by (cases "e = d") auto
  then show ?thesis
    using assms(1-3) d f(1,2) unfolding keeps_def
    by (auto simp: table_ok_def endpoint_ok_def undoes_def owned_def same)
qed

definition open_outcome :: "kernel \<Rightarrow> (sdk_error \<times> bool) + posix_stdio \<Rightarrow> kernel \<Rightarrow> bool" where
  "open_outcome k0 r k \<longleftrightarrow>
     (case r of Inl (e, ok) \<Rightarrow> given_back k0 k ok | Inr v \<Rightarrow> keeps k0 k v)"

lemma open_fails_outcome:
  "keeps k0 (fst s) v \<Longrightarrow> open_fails m v s = Some (r, s') \<Longrightarrow> open_outcome k0 r (fst s')"
  by (auto simp: open_fails_def sbind_Some open_outcome_def dest: destroy_gives_back)

lemma open_output_outcome:
  assumes "keeps k0 (fst s) v" "px_output v = Some out" "px_output_flags v \<noteq> None" "open_output v out w s = Some (r, s')"
  shows "open_outcome k0 r (fst s')"
proof (cases "w AND o_nonblock = 0")
  case True
  then obtain ok s1 where set: "set_flags out (w OR o_nonblock) s = Some (ok, s1)"
    and rest: "(if ok then sret (Inr (v\<lparr>px_output_changed := True\<rparr>)) else open_fails ''Cannot configure native output'' v) s1 = Some (r, s')"
    using assms(4) by (auto simp: open_output_def sbind_Some)
  from keeps_set_output [OF assms(1-3) set] rest show ?thesis
    by (cases ok) (auto simp: open_outcome_def intro: open_fails_outcome [unfolded open_outcome_def])
qed (use assms(1,4) in \<open>simp add: open_output_def open_outcome_def\<close>)

lemma open_input_outcome:
  assumes "keeps k0 (fst s) v" "px_input v = Some inp" "px_input_flags v \<noteq> None" "px_output v = Some out"
    and "px_output_flags v \<noteq> None" "open_input v inp w out w' s = Some (r, s')"
  shows "open_outcome k0 r (fst s')"
proof (cases "w AND o_nonblock = 0")
  case True
  then obtain ok s1 where set: "set_flags inp (w OR o_nonblock) s = Some (ok, s1)"
    and rest: "(if ok then open_output (v\<lparr>px_input_changed := True\<rparr>) out w' else open_fails ''Cannot configure native input'' v) s1 = Some (r, s')"
    using assms(6) by (auto simp: open_input_def sbind_Some)
  note k = keeps_set_input [OF assms(1-3) set]
  show ?thesis
  proof (cases ok)
    case True
    then show ?thesis using open_output_outcome [of k0 s1 "v\<lparr>px_input_changed := True\<rparr>" out w'] k rest assms(4,5) by simp
  next
    case False
    then show ?thesis using open_fails_outcome k rest by simp
  qed
next
  case False
  then show ?thesis using open_output_outcome [OF assms(1,4,5)] assms(6) by (simp add: open_input_def)
qed

lemma pair_list_None: "pair_list None = []"
  by (simp add: pair_list_def)

lemma keeps_wake:
  assumes "keeps k0 (fst s) v" "make_wake s = Some ((ok, p), s')"
  shows "px_read_wake v = None \<Longrightarrow> keeps k0 (fst s') (v\<lparr>px_read_wake := p\<rparr>)"
    and "px_write_wake v = None \<Longrightarrow> keeps k0 (fst s') (v\<lparr>px_write_wake := p\<rparr>)"
  by (rule keeps_grown [OF assms(1) make_wake_grows [OF assms(2)]]; simp add: owned_def pair_list_None Un_ac)+

lemma open_wakes_outcome:
  assumes "keeps k0 (fst s) v" "px_input v = Some inp" "px_input_flags v \<noteq> None" "px_output v = Some out"
    and "px_output_flags v \<noteq> None" "px_read_wake v = None" "px_write_wake v = None"
    and "open_wakes v inp w out w' s = Some (r, s')"
  shows "open_outcome k0 r (fst s')"
proof -
  obtain ok1 p1 s1 where w1: "make_wake s = Some ((ok1, p1), s1)" using assms(8) by (auto simp: open_wakes_def sbind_Some)
  let ?v1 = "v\<lparr>px_read_wake := p1\<rparr>"
  have k1: "keeps k0 (fst s1) ?v1" by (rule keeps_wake(1) [OF assms(1) w1 assms(6)])
  show ?thesis
  proof (cases ok1)
    case True
    obtain ok2 p2 s2 where w2: "make_wake s1 = Some ((ok2, p2), s2)"
      using assms(8) w1 True by (auto simp: open_wakes_def sbind_Some Let_def)
    have k2: "keeps k0 (fst s2) (?v1\<lparr>px_write_wake := p2\<rparr>)" by (rule keeps_wake(2) [OF k1 w2]) (simp add: assms(7))
    have rest: "(if \<not> ok2 then open_fails ''Cannot configure native I/O'' (?v1\<lparr>px_write_wake := p2\<rparr>)
        else open_input (?v1\<lparr>px_write_wake := p2\<rparr>) inp w out w') s2 = Some (r, s')"
      using assms(8) w1 w2 True by (simp add: open_wakes_def sbind_def Let_def)
    then show ?thesis
      using open_fails_outcome [OF k2] open_input_outcome [OF k2, of inp out w w'] assms(2-5) by (cases ok2) auto
  next
    case False
    then show ?thesis using open_fails_outcome [OF k1] assms(8) w1 by (simp add: open_wakes_def sbind_def Let_def)
  qed
qed

definition kernel_ok :: "kernel \<Rightarrow> bool" where
  "kernel_ok k \<longleftrightarrow> distinct (map fst (fds k)) \<and> (\<forall>d \<in> set (map snd (fds k)). d < next_desc k)"

lemma desc_of_in: "desc_of k n = Some d \<Longrightarrow> d \<in> set (map snd (fds k))"
  by (auto simp: desc_of_def dest: map_of_SomeD intro: rev_image_eqI)

lemma grown_trans:
  assumes "grown k k1 ns" "grown k1 k2 ms"
  shows "grown k k2 (ms @ ns)"
  unfolding grown_def
proof (intro conjI allI impI)
  obtain xs ys where "fds k1 = xs @ fds k" "set (map fst xs) = set ns" "fds k2 = ys @ fds k1" "set (map fst ys) = set ms"
    using assms by (auto simp: grown_def)
  then have "fds k2 = (ys @ xs) @ fds k \<and> set (map fst (ys @ xs)) = set (ms @ ns)" by simp
  then show "\<exists>zs. fds k2 = zs @ fds k \<and> set (map fst zs) = set (ms @ ns)" by blast
  show "distinct (map fst (fds k2))" if "distinct (map fst (fds k))" using assms that unfolding grown_def by blast
  show "next_desc k \<le> next_desc k2" using assms unfolding grown_def by linarith
  show "flags k2 d = flags k d" if "d < next_desc k" for d using assms that by (simp add: grown_def)
  show "desc_of k2 n = Some d" if "desc_of k n = Some d" for n d using assms that unfolding grown_def by blast
qed

text \<open>Before any flag was changed.\<close>

lemma keeps_plain:
  assumes "kernel_ok k0" "grown k0 k ns" "set (owned v) = set ns" "\<not> px_input_changed v" "\<not> px_output_changed v"
    and "endpoint_ok k0 k (px_input v) (px_input_flags v)" "endpoint_ok k0 k (px_output v) (px_output_flags v)"
  shows "keeps k0 k v"
proof -
  have "table_ok k0 k0 []" using assms(1) by (simp add: table_ok_def kernel_ok_def)
  from table_ok_grown [OF this assms(2), of "owned v"] assms(3) have "table_ok k0 k (owned v)" by simp
  then show ?thesis using assms(2,6,7) by (simp add: keeps_def grown_def)
qed

lemma get_flags_Some:
  assumes "get_flags n s = Some (r, s')"
  shows "fst s' = fst s" "r = Some w \<Longrightarrow> desc_of (fst s) n = Some d \<Longrightarrow> w = flags (fst s) d"
  using assms by (auto simp: get_flags_def sbind_Some dest!: syscall_Some split: if_split_asm)

lemma open_posix_outcome:
  assumes ok: "kernel_ok (fst s)" and run: "open_posix input output s = Some (r, s')"
  shows "open_outcome (fst s) r (fst s')"
proof -
  let ?k = "fst s"
  obtain i s1 where dup1: "duplicate input s = Some (i, s1)" using run by (auto simp: open_posix_def sbind_Some)
  from dup1 show ?thesis
  proof (cases rule: duplicate_cases)
    case 1
    have "keeps ?k (fst s1) new_posix"
      by (rule keeps_plain [OF ok, of _ "[]"])
        (simp_all add: 1 grown_refl new_posix_def owned_def opt_list_def pair_list_None endpoint_ok_def)
    then show ?thesis
      using open_fails_outcome [of ?k s1] run dup1 1(1) by (simp add: open_posix_def sbind_def new_posix_def)
  next
    case (2 inp d)
    let ?v = "new_posix\<lparr>px_input := Some inp\<rparr>"
    have d: "d < next_desc ?k" using desc_of_in [OF 2(2)] ok unfolding kernel_ok_def by blast
    obtain j s2 where dup2: "duplicate output s1 = Some (j, s2)"
      using run dup1 2(1) by (auto simp: open_posix_def sbind_Some)
    from dup2 show ?thesis
    proof (cases rule: duplicate_cases)
      case none: 1
      have "keeps ?k (fst s2) (?v\<lparr>px_output := None\<rparr>)"
        unfolding none(2)
        by (rule keeps_plain [OF ok 2(3)])
          (simp_all add: 2(4) d new_posix_def owned_def opt_list_def pair_list_None endpoint_ok_def)
      then show ?thesis
        using open_fails_outcome [of ?k s2] run dup1 2(1) dup2 none(1) by (simp add: open_posix_def sbind_def)
    next
      case out: (2 out d')
      have "d' = d \<or> d' \<in> set (map snd (fds ?k))"
        using desc_of_in [OF out(2)] unfolding 2(5) by (simp only: insert_iff)
      then have d': "d' < next_desc ?k" using d ok unfolding kernel_ok_def by metis
      have grown: "grown ?k (fst s2) [out, inp]" using grown_trans [OF 2(3) out(3)] by simp
      have inp: "desc_of (fst s2) inp = Some d" using out(3) 2(4) by (simp add: grown_def)
      obtain f s3 where f: "get_flags inp s2 = Some (f, s3)" using run dup1 2(1) dup2 out(1) by (auto simp: open_posix_def sbind_Some)
      obtain g s4 where g: "get_flags out s3 = Some (g, s4)" using run dup1 2(1) dup2 out(1) f by (auto simp: open_posix_def sbind_Some)
      let ?w = "?v\<lparr>px_output := Some out, px_input_flags := f, px_output_flags := g\<rparr>"
      note same = get_flags_Some(1) [OF f] get_flags_Some(1) [OF g]
      have saved: "f = Some w \<Longrightarrow> w = flags ?k d" "g = Some w \<Longrightarrow> w = flags ?k d'" for w
        using get_flags_Some(2) [OF f _ inp] get_flags_Some(2) [OF g] out(4) same(1) grown d d'
        by (auto simp: grown_def)
      have keeps: "keeps ?k (fst s4) ?w"
        unfolding same
        by (rule keeps_plain [OF ok grown])
          (auto simp: inp out(4) d d' saved new_posix_def owned_def opt_list_def pair_list_None endpoint_ok_def)
      have rest: "(case (f, g) of (Some w, Some w') \<Rightarrow> open_wakes ?w inp w out w'
         | _ \<Rightarrow> open_fails ''Cannot configure native I/O'' ?w) s4 = Some (r, s')"
        using run dup1 2(1) dup2 out(1) f g by (simp add: open_posix_def sbind_def Let_def)
      show ?thesis
      proof (cases "f = None \<or> g = None")
        case True
        then have "open_fails ''Cannot configure native I/O'' ?w s4 = Some (r, s')" using rest by (auto split: option.splits)
        then show ?thesis by (rule open_fails_outcome [OF keeps])
      next
        case False
        then obtain w w' where "f = Some w" "g = Some w'" by (cases f; cases g) auto
        then show ?thesis
          using rest by (intro open_wakes_outcome [OF keeps, of inp out w w' r s']) (simp_all add: new_posix_def)
      qed
    qed
  qed
qed

subsection \<open>The signal\<close>

text \<open>A thread in which SIGPIPE is pending and not blocked does not exist: it has been delivered.\<close>

definition sigpipe_ok :: "sigpipe \<Rightarrow> bool" where
  "sigpipe_ok g \<longleftrightarrow> (sp_pending g \<longrightarrow> sp_blocked g)"

lemma consume_loop_Some: "consume_loop es g = Some g' \<Longrightarrow> g' = g\<lparr>sp_pending := False\<rparr>"
  by (induction es) (auto split: if_split_asm)

lemma write_loop_sigpipe:
  assumes "write_loop sg rs len g = Some (r, g')" "sp_blocked g" "sg_pending_before sg = sp_pending g"
  shows "g' = g \<and> (\<forall>n. r = Inr n \<longrightarrow> n \<le> len)"
  using assms(1)
proof (induction rs)
  case (Cons round rs)
  obtain ws q es where round: "round = (ws, q, es)" using prod_cases3 by blast
  have pipe: "g'' = g" if "consume_new_signal sg es (raise_sigpipe g) = Some g''" for g''
  proof (cases "sp_pending g")
    case True
    then show ?thesis using that assms(2,3) by (cases g) (auto simp: consume_new_signal_def raise_sigpipe_def)
  next
    case False
    then have "g'' = (raise_sigpipe g)\<lparr>sp_pending := False\<rparr>"
      using that assms(3) consume_loop_Some by (simp add: consume_new_signal_def)
    then show ?thesis using False assms(2) by (cases g) (auto simp: raise_sigpipe_def)
  qed
  show ?case
    using Cons round pipe
    by (cases q) (auto split: option.splits sum.splits)
qed simp

subsection \<open>Stop requests\<close>

definition awake :: "waiting \<Rightarrow> bool" where
  "awake w \<longleftrightarrow> (wt_stopped w \<and> wt_pc w = W_poll \<longrightarrow> 0 < wt_pipe w \<or> 0 < wt_wakers w)"

lemma awake_step: "wstep w w' \<Longrightarrow> awake w \<Longrightarrow> awake w'"
  by (induction rule: wstep.induct)
    (auto simp: awake_def request_stop_def wake_def wait_check_def wait_poll_def drain_def wait_recheck_def)

interpretation native_wait: invariant_system wstep awake
  by unfold_locales (rule awake_step)

subsection \<open>The properties\<close>

text \<open>
  C35. Resources of the endpoints. When \<open>open\<close> fails, at whichever of its calls, the table of
  descriptors is as it was before, and so are the status flags of all open files if the calls
  that reset them succeed. When it succeeds, the same holds after the destructor.
\<close>

theorem open_gives_back:
  assumes "kernel_ok k" and "open_posix input output (k, rs) = Some (r, k', rs')"
  shows "case r of
      Inl (e, ok) \<Rightarrow> fds k' = fds k \<and> (ok \<longrightarrow> (\<forall>d < next_desc k. flags k' d = flags k d))
    | Inr v \<Rightarrow> \<forall>rs ok k'' rs''. destroy_posix v (k', rs) = Some (ok, k'', rs'') \<longrightarrow>
        fds k'' = fds k \<and> (ok \<longrightarrow> (\<forall>d < next_desc k. flags k'' d = flags k d))"
proof -
  have outcome: "open_outcome k r k'" using open_posix_outcome [OF _ assms(2)] assms(1) by simp
  have "given_back k k'' ok" if "r = Inr v" "destroy_posix v (k', rs) = Some (ok, k'', rs'')" for v rs ok k'' rs''
    using destroy_gives_back [of k "(k', rs)" v ok "(k'', rs'')"] outcome that by (simp add: open_outcome_def)
  then show ?thesis using outcome by (cases r) (auto simp: open_outcome_def given_back_def)
qed

definition terminal :: kernel where
  "terminal = \<lparr>fds = [(0, 0), (1, 0), (2, 0)], flags = (\<lambda>_. 2), next_desc = 1\<rparr>"

theorem open_gives_back_witness:
  "map_option (\<lambda>(r, k, rs). fds k) (open_posix 0 1 (terminal, replicate 15 R_ok @ [R_eintr, R_fail, R_ok])) =
   Some (fds terminal)"
proof -
  let ?rs = "replicate 15 R_ok @ [R_eintr, R_fail, R_ok]"
  have "map_option (\<lambda>(r, k, rs). isl r) (open_posix 0 1 (terminal, ?rs)) = Some True" by code_simp
  then obtain e ok k' rs' where run: "open_posix 0 1 (terminal, ?rs) = Some (Inl (e, ok), k', rs')"
    by (auto simp: isl_def)
  moreover have "kernel_ok terminal" by (simp add: kernel_ok_def terminal_def)
  ultimately show ?thesis using open_gives_back [of terminal 0 1 ?rs] by fastforce
qed

text \<open>
  C36. A write never raises SIGPIPE in the program: whenever \<open>write_some\<close> returns, on whichever
  path, the mask of the thread and the pending signal are what they were, the process has not
  been ended by the signal, and a count it returns is within the buffer.
\<close>

theorem write_leaves_sigpipe:
  assumes "write_some opened masked examined rs len g = Some (r, g')" and "sp_pending g \<longrightarrow> sp_blocked g"
  shows "g' = g \<and> (\<forall>n. r = Inr n \<longrightarrow> n \<le> len)"
proof (cases "opened \<and> len \<noteq> 0 \<and> masked \<and> examined")
  case True
  let ?g1 = "sigmask True g" and ?sg = "\<lparr>sg_previous = sp_blocked g, sg_active = True, sg_pending_before = sp_pending (sigmask True g)\<rparr>"
  have closed: "sigmask (sp_blocked g) ?g1 = g" using assms(2) by (cases g) (auto simp: sigmask_def)
  obtain g2 where w: "write_loop ?sg rs len ?g1 = Some (r, g2)" "g' = guard_close ?sg g2"
    using assms(1) True by (auto simp: write_some_def guard_open_def Let_def)
  have "sp_blocked ?g1" by (simp add: sigmask_def)
  from write_loop_sigpipe [OF w(1) this] closed w(2) show ?thesis by (simp add: guard_close_def)
next
  case False
  then show ?thesis
    using assms by (cases g) (auto simp: write_some_def guard_open_def guard_close_def sigmask_def Let_def split: if_split_asm)
qed

theorem write_leaves_sigpipe_witness:
  "snd (the (write_some True True True [([(False, Poll_events False True, False)], Io_pipe, [True, False])] 5
     \<lparr>sp_blocked = False, sp_pending = False, sp_ignored = False, sp_killed = False\<rparr>)) =
   \<lparr>sp_blocked = False, sp_pending = False, sp_ignored = False, sp_killed = False\<rparr>"
proof -
  let ?g = "\<lparr>sp_blocked = False, sp_pending = False, sp_ignored = False, sp_killed = False\<rparr>"
  let ?w = "write_some True True True [([(False, Poll_events False True, False)], Io_pipe, [True, False])] 5 ?g"
  have "?w \<noteq> None"
    by (simp add: write_some_def guard_open_def sigmask_def consume_new_signal_def raise_sigpipe_def)
  then obtain r g' where run: "?w = Some (r, g')" by fastforce
  with write_leaves_sigpipe [OF run] show ?thesis by simp
qed

text \<open>
  C37. A stop request is not lost. However \<open>request_stop\<close> interleaves with a wait, when the
  stop is stored, every caller has written to the wake pipe and the wait is in the poll, the
  poll returns even if the endpoint never gets ready, and the wait ends with the cancellation.
\<close>

theorem stop_is_not_lost:
  assumes "wstep\<^sup>*\<^sup>* new_waiting w" and "wt_stopped w" and "wt_wakers w = 0" and "wt_pc w = W_poll"
  shows "poll_returns False False w \<and> wt_pc (wait_poll False w) = W_drain \<and>
    wt_pc (wait_recheck ready (drain (wait_poll False w))) = W_cancelled"
proof -
  have "awake w" using native_wait.run_inv [OF assms(1)] by (simp add: awake_def new_waiting_def)
  then show ?thesis
    using assms(2-4) by (simp add: awake_def poll_returns_def wait_poll_def drain_def wait_recheck_def)
qed

theorem stop_is_not_lost_witness:
  "poll_returns False False (wake False (request_stop (wait_check new_waiting)\<lparr>wt_wakers := 0\<rparr>))"
proof -
  let ?c = "wait_check new_waiting" and ?w = "wake False (request_stop (wait_check new_waiting)\<lparr>wt_wakers := 0\<rparr>)"
  have "wstep new_waiting ?c" by (rule wstep.check) (simp add: new_waiting_def)
  moreover have "wstep ?c (request_stop ?c)" by (rule wstep.stop)
  moreover have "wstep (request_stop ?c) ?w"
    using wstep.stop_wake [of "request_stop ?c" False] by (simp add: request_stop_def wait_check_def new_waiting_def)
  ultimately have "wstep\<^sup>*\<^sup>* new_waiting ?w" by (meson converse_rtranclp_into_rtranclp rtranclp.rtrancl_refl)
  then show ?thesis
    using stop_is_not_lost [of ?w] by (simp add: wake_def request_stop_def wait_check_def new_waiting_def)
qed

end
