(* ===== verification/Dtoa.thy ===== *)
theory Dtoa
  imports Json "HOL-Library.Signed_Division"
begin

unbundle bit_operations_syntax

text \<open>
  The namespace \<open>detail::dtoa_impl\<close> of json.hpp and \<open>to_chars\<close>: the Grisu2 algorithm that
  \<open>dump_float\<close> uses for the digits of a finite double, which is given by its bit pattern.

  \<open>std::uint64_t\<close> is a 64-bit word, \<open>std::uint32_t\<close> a 32-bit word, \<open>int\<close> an integer (its
  values stay far from its limits). The buffer of digits is the list of its characters. A
  failed \<open>JSON_ASSERT\<close> is \<open>None\<close>, and so is a loop that does not end.
\<close>

definition assertion :: "bool \<Rightarrow> unit option" where
  "assertion b = (if b then Some () else None)"

lemma assertion_bind [simp]: "Option.bind (assertion b) f = (if b then f () else None)"
  by (simp add: assertion_def)

subsection \<open>Numbers with a significand and a binary exponent\<close>

record diyfp =
  sig :: "64 word"
  bex :: int

definition diyfp_of :: "64 word \<Rightarrow> int \<Rightarrow> diyfp" where
  "diyfp_of f e = \<lparr>sig = f, bex = e\<rparr>"

definition diyfp_sub :: "diyfp \<Rightarrow> diyfp \<Rightarrow> diyfp option" where
  "diyfp_sub x y =
     Option.bind (assertion (bex x = bex y)) (\<lambda>_.
     Option.bind (assertion (sig y \<le> sig x)) (\<lambda>_.
     Some (diyfp_of (sig x - sig y) (bex x))))"

definition diyfp_mul :: "diyfp \<Rightarrow> diyfp \<Rightarrow> diyfp" where
  "diyfp_mul x y =
     (let u_lo = sig x AND 0xFFFFFFFF; u_hi = drop_bit 32 (sig x);
          v_lo = sig y AND 0xFFFFFFFF; v_hi = drop_bit 32 (sig y);
          p0 = u_lo * v_lo; p1 = u_lo * v_hi; p2 = u_hi * v_lo; p3 = u_hi * v_hi;
          p0_hi = drop_bit 32 p0;
          p1_lo = p1 AND 0xFFFFFFFF; p1_hi = drop_bit 32 p1;
          p2_lo = p2 AND 0xFFFFFFFF; p2_hi = drop_bit 32 p2;
          q = p0_hi + p1_lo + p2_lo;
          q = q + push_bit (64 - 32 - 1) 1;
          h = p3 + p2_hi + p1_hi + drop_bit 32 q
      in diyfp_of h (bex x + bex y + 64))"

partial_function (option) normalize_loop :: "64 word \<Rightarrow> int \<Rightarrow> diyfp option" where
  "normalize_loop f e = (if drop_bit 63 f = 0 then normalize_loop (push_bit 1 f) (e - 1) else Some (diyfp_of f e))"

definition diyfp_normalize :: "diyfp \<Rightarrow> diyfp option" where
  "diyfp_normalize x = Option.bind (assertion (sig x \<noteq> 0)) (\<lambda>_. normalize_loop (sig x) (bex x))"

definition diyfp_normalize_to :: "diyfp \<Rightarrow> int \<Rightarrow> diyfp option" where
  "diyfp_normalize_to x target =
     (let delta = bex x - target in
      Option.bind (assertion (0 \<le> delta)) (\<lambda>_.
      Option.bind (assertion (drop_bit (nat delta) (push_bit (nat delta) (sig x)) = sig x)) (\<lambda>_.
      Some (diyfp_of (push_bit (nat delta) (sig x)) target))))"

subsection \<open>The boundaries of a double\<close>

record boundaries =
  bd_w :: diyfp
  bd_minus :: diyfp
  bd_plus :: diyfp

definition hidden_bit :: "64 word" where
  "hidden_bit = push_bit 52 1"

definition ieee_exponent :: "64 word \<Rightarrow> 64 word" where
  "ieee_exponent bits = drop_bit 52 bits"

definition ieee_fraction :: "64 word \<Rightarrow> 64 word" where
  "ieee_fraction bits = bits AND (hidden_bit - 1)"

text \<open>\<open>kBias\<close> is 1075, \<open>kMinExp\<close> is -1074.\<close>

definition double_diyfp :: "64 word \<Rightarrow> diyfp" where
  "double_diyfp bits =
     (if ieee_exponent bits = 0 then diyfp_of (ieee_fraction bits) (1 - 1075)
      else diyfp_of (ieee_fraction bits + hidden_bit) (uint (ieee_exponent bits) - 1075))"

definition compute_boundaries :: "64 word \<Rightarrow> boundaries option" where
  "compute_boundaries bits =
     Option.bind (assertion (f64_isfinite bits)) (\<lambda>_.
     Option.bind (assertion (\<not> f64_negative bits \<and> bits \<noteq> 0)) (\<lambda>_.
     let v = double_diyfp bits;
         lower_boundary_is_closer = ieee_fraction bits = 0 \<and> 1 < ieee_exponent bits;
         m_plus = diyfp_of (2 * sig v + 1) (bex v - 1);
         m_minus = (if lower_boundary_is_closer then diyfp_of (4 * sig v - 1) (bex v - 2)
                    else diyfp_of (2 * sig v - 1) (bex v - 1))
     in Option.bind (diyfp_normalize m_plus) (\<lambda>w_plus.
        Option.bind (diyfp_normalize_to m_minus (bex w_plus)) (\<lambda>w_minus.
        Option.bind (diyfp_normalize v) (\<lambda>w.
        Some \<lparr>bd_w = w, bd_minus = w_minus, bd_plus = w_plus\<rparr>)))))"

subsection \<open>Cached powers of ten\<close>

text \<open>\<open>kCachedPowers\<close>: significand, binary exponent and decimal exponent.\<close>

definition cached_powers :: "(64 word \<times> int \<times> int) list" where
  "cached_powers =
     [(0xAB70FE17C79AC6CA, - 1060, - 300), (0xFF77B1FCBEBCDC4F, - 1034, - 292),
      (0xBE5691EF416BD60C, - 1007, - 284), (0x8DD01FAD907FFC3C, - 980, - 276),
      (0xD3515C2831559A83, - 954, - 268), (0x9D71AC8FADA6C9B5, - 927, - 260),
      (0xEA9C227723EE8BCB, - 901, - 252), (0xAECC49914078536D, - 874, - 244),
      (0x823C12795DB6CE57, - 847, - 236), (0xC21094364DFB5637, - 821, - 228),
      (0x9096EA6F3848984F, - 794, - 220), (0xD77485CB25823AC7, - 768, - 212),
      (0xA086CFCD97BF97F4, - 741, - 204), (0xEF340A98172AACE5, - 715, - 196),
      (0xB23867FB2A35B28E, - 688, - 188), (0x84C8D4DFD2C63F3B, - 661, - 180),
      (0xC5DD44271AD3CDBA, - 635, - 172), (0x936B9FCEBB25C996, - 608, - 164),
      (0xDBAC6C247D62A584, - 582, - 156), (0xA3AB66580D5FDAF6, - 555, - 148),
      (0xF3E2F893DEC3F126, - 529, - 140), (0xB5B5ADA8AAFF80B8, - 502, - 132),
      (0x87625F056C7C4A8B, - 475, - 124), (0xC9BCFF6034C13053, - 449, - 116),
      (0x964E858C91BA2655, - 422, - 108), (0xDFF9772470297EBD, - 396, - 100),
      (0xA6DFBD9FB8E5B88F, - 369, - 92), (0xF8A95FCF88747D94, - 343, - 84),
      (0xB94470938FA89BCF, - 316, - 76), (0x8A08F0F8BF0F156B, - 289, - 68),
      (0xCDB02555653131B6, - 263, - 60), (0x993FE2C6D07B7FAC, - 236, - 52),
      (0xE45C10C42A2B3B06, - 210, - 44), (0xAA242499697392D3, - 183, - 36),
      (0xFD87B5F28300CA0E, - 157, - 28), (0xBCE5086492111AEB, - 130, - 20),
      (0x8CBCCC096F5088CC, - 103, - 12), (0xD1B71758E219652C, - 77, - 4),
      (0x9C40000000000000, - 50, 4), (0xE8D4A51000000000, - 24, 12),
      (0xAD78EBC5AC620000, 3, 20), (0x813F3978F8940984, 30, 28),
      (0xC097CE7BC90715B3, 56, 36), (0x8F7E32CE7BEA5C70, 83, 44),
      (0xD5D238A4ABE98068, 109, 52), (0x9F4F2726179A2245, 136, 60),
      (0xED63A231D4C4FB27, 162, 68), (0xB0DE65388CC8ADA8, 189, 76),
      (0x83C7088E1AAB65DB, 216, 84), (0xC45D1DF942711D9A, 242, 92),
      (0x924D692CA61BE758, 269, 100), (0xDA01EE641A708DEA, 295, 108),
      (0xA26DA3999AEF774A, 322, 116), (0xF209787BB47D6B85, 348, 124),
      (0xB454E4A179DD1877, 375, 132), (0x865B86925B9BC5C2, 402, 140),
      (0xC83553C5C8965D3D, 428, 148), (0x952AB45CFA97A0B3, 455, 156),
      (0xDE469FBD99A05FE3, 481, 164), (0xA59BC234DB398C25, 508, 172),
      (0xF6C69A72A3989F5C, 534, 180), (0xB7DCBF5354E9BECE, 561, 188),
      (0x88FCF317F22241E2, 588, 196), (0xCC20CE9BD35C78A5, 614, 204),
      (0x98165AF37B2153DF, 641, 212), (0xE2A0B5DC971F303A, 667, 220),
      (0xA8D9D1535CE3B396, 694, 228), (0xFB9B7CD9A4A7443C, 720, 236),
      (0xBB764C4CA7A44410, 747, 244), (0x8BAB8EEFB6409C1A, 774, 252),
      (0xD01FEF10A657842C, 800, 260), (0x9B10A4E5E9913129, 827, 268),
      (0xE7109BFBA19C0C9D, 853, 276), (0xAC2820D9623BF429, 880, 284),
      (0x80444B5E7AA7CF85, 907, 292), (0xBF21E44003ACDD2D, 933, 300),
      (0x8E679C2F5E44FF8F, 960, 308), (0xD433179D9C8CB841, 986, 316),
      (0x9E19DB92B4E31BA9, 1013, 324)]"

text \<open>The quotients truncate, as in C.\<close>

definition cached_index :: "int \<Rightarrow> int" where
  "cached_index e =
     (let f = - 60 - e - 1;
          k = (f * 78913) sdiv 262144 + (if 0 < f then 1 else 0)
      in (300 + k + (8 - 1)) sdiv 8)"

definition get_cached_power :: "int \<Rightarrow> (64 word \<times> int \<times> int) option" where
  "get_cached_power e =
     Option.bind (assertion (- 1500 \<le> e)) (\<lambda>_.
     Option.bind (assertion (e \<le> 1500)) (\<lambda>_.
     let index = cached_index e in
     Option.bind (assertion (0 \<le> index)) (\<lambda>_.
     Option.bind (assertion (nat index < length cached_powers)) (\<lambda>_.
     let cached = cached_powers ! nat index in
     Option.bind (assertion (- 60 \<le> fst (snd cached) + e + 64)) (\<lambda>_.
     Option.bind (assertion (fst (snd cached) + e + 64 \<le> - 32)) (\<lambda>_.
     Some cached))))))"

subsection \<open>Digits\<close>

text \<open>The number of digits and the largest power of ten that is not larger.\<close>

definition find_largest_pow10 :: "32 word \<Rightarrow> nat \<times> 32 word" where
  "find_largest_pow10 n =
     (if n \<ge> 1000000000 then (10, 1000000000)
      else if n \<ge> 100000000 then (9, 100000000)
      else if n \<ge> 10000000 then (8, 10000000)
      else if n \<ge> 1000000 then (7, 1000000)
      else if n \<ge> 100000 then (6, 100000)
      else if n \<ge> 10000 then (5, 10000)
      else if n \<ge> 1000 then (4, 1000)
      else if n \<ge> 100 then (3, 100)
      else if n \<ge> 10 then (2, 10)
      else (1, 1))"

text \<open>\<open>buf[len - 1]--\<close>.\<close>

definition decrement_last :: "string \<Rightarrow> string" where
  "decrement_last buf = butlast buf @ [char_of (byte (last buf) - 1)]"

partial_function (option) round_loop ::
  "string \<Rightarrow> 64 word \<Rightarrow> 64 word \<Rightarrow> 64 word \<Rightarrow> 64 word \<Rightarrow> string option" where
  "round_loop buf dist delta rest ten_k =
     (if rest < dist \<and> delta - rest \<ge> ten_k \<and> (rest + ten_k < dist \<or> dist - rest > rest + ten_k - dist)
      then (if last buf \<noteq> CHR ''0'' then round_loop (decrement_last buf) dist delta (rest + ten_k) ten_k else None)
      else Some buf)"

definition grisu2_round :: "string \<Rightarrow> 64 word \<Rightarrow> 64 word \<Rightarrow> 64 word \<Rightarrow> 64 word \<Rightarrow> string option" where
  "grisu2_round buf dist delta rest ten_k =
     Option.bind (assertion (1 \<le> length buf)) (\<lambda>_.
     Option.bind (assertion (dist \<le> delta)) (\<lambda>_.
     Option.bind (assertion (rest \<le> delta)) (\<lambda>_.
     Option.bind (assertion (0 < ten_k)) (\<lambda>_.
     round_loop buf dist delta rest ten_k))))"

text \<open>
  The digits of the integral part: \<open>Inr\<close> is the return from inside the loop, with the digits
  and \<open>n\<close>; \<open>Inl\<close> holds the digits when the loop has run to its end. \<open>o\<close> is \<open>-one.e\<close>.
\<close>

fun integral_digits ::
  "nat \<Rightarrow> nat \<Rightarrow> 32 word \<Rightarrow> 32 word \<Rightarrow> 64 word \<Rightarrow> 64 word \<Rightarrow> 64 word \<Rightarrow> string \<Rightarrow> (string + string \<times> nat) option" where
  "integral_digits sh 0 pow10 p1 p2 delta dist buf = Some (Inl buf)"
| "integral_digits sh (Suc n) pow10 p1 p2 delta dist buf =
     (let d = p1 div pow10; r = p1 mod pow10 in
      Option.bind (assertion (d \<le> 9)) (\<lambda>_.
      let buf = buf @ [digit_char (unat d)]; p1 = r;
          rest = push_bit sh (ucast p1 :: 64 word) + p2
      in if rest \<le> delta then
           (let ten_n = push_bit sh (ucast pow10 :: 64 word) in
            Option.bind (grisu2_round buf dist delta rest ten_n) (\<lambda>buf. Some (Inr (buf, n))))
         else integral_digits sh n (pow10 div 10) p1 p2 delta dist buf))"

text \<open>The digits of the fraction, with \<open>m\<close>, and the values \<open>delta\<close>, \<open>dist\<close> and \<open>p2\<close> at the end.\<close>

partial_function (option) fraction_digits ::
  "nat \<Rightarrow> 64 word \<Rightarrow> 64 word \<Rightarrow> 64 word \<Rightarrow> string \<Rightarrow> nat \<Rightarrow> (string \<times> nat \<times> 64 word \<times> 64 word \<times> 64 word) option" where
  "fraction_digits sh p2 delta dist buf m =
     Option.bind (assertion (p2 \<le> - 1 div 10)) (\<lambda>_.
     let p2 = p2 * 10; d = drop_bit sh p2; r = p2 AND (push_bit sh 1 - 1) in
     Option.bind (assertion (d \<le> 9)) (\<lambda>_.
     let buf = buf @ [digit_char (unat d)]; p2 = r; m = Suc m; delta = delta * 10; dist = dist * 10
     in if p2 \<le> delta then Some (buf, m, delta, dist, p2) else fraction_digits sh p2 delta dist buf m))"

definition digit_gen :: "int \<Rightarrow> diyfp \<Rightarrow> diyfp \<Rightarrow> diyfp \<Rightarrow> (string \<times> int) option" where
  "digit_gen decimal_exponent M_minus w M_plus =
     Option.bind (assertion (- 60 \<le> bex M_plus)) (\<lambda>_.
     Option.bind (assertion (bex M_plus \<le> - 32)) (\<lambda>_.
     Option.bind (map_option sig (diyfp_sub M_plus M_minus)) (\<lambda>delta.
     Option.bind (map_option sig (diyfp_sub M_plus w)) (\<lambda>dist.
     let sh = nat (- bex M_plus); one = push_bit sh (1 :: 64 word);
         p1 = ucast (drop_bit sh (sig M_plus)) :: 32 word;
         p2 = sig M_plus AND (one - 1)
     in Option.bind (assertion (0 < p1)) (\<lambda>_.
        let (k, pow10) = find_largest_pow10 p1 in
        Option.bind (integral_digits sh k pow10 p1 p2 delta dist []) (\<lambda>r.
        case r of
          Inr (buf, n) \<Rightarrow> Some (buf, decimal_exponent + int n)
        | Inl buf \<Rightarrow>
            Option.bind (assertion (delta < p2)) (\<lambda>_.
            Option.bind (fraction_digits sh p2 delta dist buf 0) (\<lambda>(buf, m, delta, dist, p2).
            Option.bind (grisu2_round buf dist delta p2 one) (\<lambda>buf.
            Some (buf, decimal_exponent - int m))))))))))"

definition grisu2_scaled :: "diyfp \<Rightarrow> diyfp \<Rightarrow> diyfp \<Rightarrow> (string \<times> int) option" where
  "grisu2_scaled m_minus v m_plus =
     Option.bind (assertion (bex m_plus = bex m_minus)) (\<lambda>_.
     Option.bind (assertion (bex m_plus = bex v)) (\<lambda>_.
     Option.bind (get_cached_power (bex m_plus)) (\<lambda>(cf, ce, ck).
     let c = diyfp_of cf ce;
         w = diyfp_mul v c; w_minus = diyfp_mul m_minus c; w_plus = diyfp_mul m_plus c;
         M_minus = diyfp_of (sig w_minus + 1) (bex w_minus);
         M_plus = diyfp_of (sig w_plus - 1) (bex w_plus)
     in digit_gen (- ck) M_minus w M_plus)))"

definition grisu2 :: "64 word \<Rightarrow> (string \<times> int) option" where
  "grisu2 bits =
     Option.bind (assertion (f64_isfinite bits)) (\<lambda>_.
     Option.bind (assertion (\<not> f64_negative bits \<and> bits \<noteq> 0)) (\<lambda>_.
     Option.bind (compute_boundaries bits) (\<lambda>b.
     grisu2_scaled (bd_minus b) (bd_w b) (bd_plus b))))"

subsection \<open>The text\<close>

definition append_exponent :: "int \<Rightarrow> string option" where
  "append_exponent e =
     Option.bind (assertion (- 1000 < e)) (\<lambda>_.
     Option.bind (assertion (e < 1000)) (\<lambda>_.
     let sign = (if e < 0 then CHR ''-'' else CHR ''+''); k = nat \<bar>e\<bar> in
     Some (sign #
       (if k < 10 then [CHR ''0'', digit_char k]
        else if k < 100 then [digit_char (k div 10), digit_char (k mod 10)]
        else [digit_char (k div 100), digit_char (k mod 100 div 10), digit_char (k mod 100 mod 10)]))))"

definition format_buffer :: "string \<Rightarrow> int \<Rightarrow> int \<Rightarrow> int \<Rightarrow> string option" where
  "format_buffer buf decimal_exponent min_exp max_exp =
     Option.bind (assertion (min_exp < 0)) (\<lambda>_.
     Option.bind (assertion (0 < max_exp)) (\<lambda>_.
     let k = int (length buf); n = k + decimal_exponent in
     if k \<le> n \<and> n \<le> max_exp then Some (buf @ replicate (nat (n - k)) CHR ''0'' @ ''.0'')
     else if 0 < n \<and> n \<le> max_exp then
       Option.bind (assertion (n < k)) (\<lambda>_. Some (take (nat n) buf @ ''.'' @ drop (nat n) buf))
     else if min_exp < n \<and> n \<le> 0 then Some (''0.'' @ replicate (nat (- n)) CHR ''0'' @ buf)
     else Option.bind (append_exponent (n - 1)) (\<lambda>x.
       Some ((if k = 1 then buf else take 1 buf @ ''.'' @ drop 1 buf) @ ''e'' @ x))))"

text \<open>\<open>to_chars\<close> into a buffer of 64 characters: the sign bit, then the digits of the magnitude.\<close>

definition to_chars_positive :: "64 word \<Rightarrow> string option" where
  "to_chars_positive bits =
     (if bits = 0 then Some ''0.0''
      else
        Option.bind (grisu2 bits) (\<lambda>(buf, decimal_exponent).
        Option.bind (assertion (length buf \<le> 17)) (\<lambda>_.
        format_buffer buf decimal_exponent (- 4) 15)))"

definition to_chars :: "64 word \<Rightarrow> string option" where
  "to_chars bits =
     Option.bind (assertion (f64_isfinite bits)) (\<lambda>_.
     if f64_negative bits
     then map_option (\<lambda>s. CHR ''-'' # s) (to_chars_positive (bits AND (push_bit 63 1 - 1)))
     else to_chars_positive bits)"

definition float_text :: "64 word \<Rightarrow> string" where
  "float_text bits = (case to_chars bits of Some s \<Rightarrow> s | None \<Rightarrow> [])"

declare normalize_loop.simps [code] round_loop.simps [code] fraction_digits.simps [code]

end
