(* ===== verification/Dtoa_Arith.thy ===== *)
theory Dtoa_Arith
  imports Dtoa Float64
begin

unbundle bit_operations_syntax

text \<open>
  The arithmetic of Grisu2 on its words: the rounded product, normalization, the boundaries of
  a double, and the table of powers of ten.
\<close>

subsection \<open>Words as numbers\<close>

lemma unat_low_half: "unat ((w :: 64 word) AND 0xFFFFFFFF) = unat w mod 2 ^ 32"
proof -
  have "w AND 0xFFFFFFFF = take_bit 32 w" by (simp add: take_bit_eq_mask mask_eq_exp_minus_1)
  also have "unat (take_bit 32 w) = take_bit 32 (unat w)" by (rule unsigned_take_bit_eq)
  finally show ?thesis by (simp only: take_bit_eq_mod)
qed

lemma unat_drop_bit: "unat (drop_bit n (w :: 64 word)) = unat w div 2 ^ n"
  using unat_drop_bit_eq [of n w] by (simp only: drop_bit_eq_div [of n "unat w"])

lemma unat_add_exact: "unat x + unat y < 2 ^ 64 \<Longrightarrow> unat (x + y) = unat x + unat y" for x y :: "64 word"
  by (simp add: unat_word_ariths)

lemma unat_mult_exact: "unat x * unat y < 2 ^ 64 \<Longrightarrow> unat (x * y) = unat x * unat y" for x y :: "64 word"
  by (simp add: unat_word_ariths)

lemma unat_sub_exact: "unat y \<le> unat x \<Longrightarrow> unat (x - y) = unat x - unat y" for x y :: "64 word"
  by (simp add: unat_sub_if')

lemma unat_push_exact:
  assumes "unat w * 2 ^ n < 2 ^ 64"
  shows "unat (push_bit n (w :: 64 word)) = unat w * 2 ^ n"
proof -
  have "unat (push_bit n w) = take_bit 64 (push_bit n (unat w))"
    by (simp add: unsigned_push_bit_eq)
  also have "\<dots> = unat w * 2 ^ n" using assms by (simp add: push_bit_eq_mult take_bit_nat_eq_self)
  finally show ?thesis .
qed

lemma unat_less_64: "unat (w :: 64 word) < 2 ^ 64"
  using unsigned_less [of w] by simp

subsection \<open>The product\<close>

text \<open>The sum of partial products is the product divided by \<open>2 ^ 64\<close>, rounded half up.\<close>

lemma half_product:
  fixes a b c d :: nat
  assumes "p0 = a * c" "p1 = a * d" "p2 = b * c" "p3 = b * d"
  shows "p3 + p2 div 2 ^ 32 + p1 div 2 ^ 32 + (p0 div 2 ^ 32 + p1 mod 2 ^ 32 + p2 mod 2 ^ 32 + 2 ^ 31) div 2 ^ 32 =
    ((b * 2 ^ 32 + a) * (d * 2 ^ 32 + c) + 2 ^ 63) div 2 ^ 64"
proof -
  define h l where "h = (2 :: nat) ^ 32" and "l = (2 :: nat) ^ 31"
  have hl: "h = 2 * l" "2 ^ 64 = h * h" "2 ^ 63 = l * h" "0 < h" by (simp_all add: h_def l_def)
  define u0 u1 u2 r0 r1 r2 where "u0 = p0 div h" and "u1 = p1 div h" and "u2 = p2 div h"
    and "r0 = p0 mod h" and "r1 = p1 mod h" and "r2 = p2 mod h"
  note parts = u0_def u1_def u2_def r0_def r1_def r2_def
  have p: "p0 = u0 * h + r0" "p1 = u1 * h + r1" "p2 = u2 * h + r2" unfolding parts by simp_all
  define q where "q = u0 + r1 + r2 + l"
  have "(b * h + a) * (d * h + c) + l * h = p3 * (h * h) + (p1 + p2) * h + p0 + l * h"
    by (simp add: assms algebra_simps)
  also have "\<dots> = (p3 + u1 + u2) * (h * h) + (q * h + r0)"
    unfolding p q_def by (simp add: algebra_simps)
  finally have eq: "(b * h + a) * (d * h + c) + l * h = (p3 + u1 + u2) * (h * h) + (q * h + r0)" .
  have "(q * h + r0) div (h * h) = (q * h + r0) div h div h" by (simp add: div_mult2_eq)
  also have "(q * h + r0) div h = q" using hl(4) by (simp add: r0_def)
  finally have "((p3 + u1 + u2) * (h * h) + (q * h + r0)) div (h * h) = p3 + u1 + u2 + q div h"
    using hl(4) by (simp add: div_mult_self3)
  then show ?thesis
    unfolding hl(2,3) h_def [symmetric] l_def [symmetric] eq parts [symmetric] q_def by simp
qed

lemma unat_add4_exact:
  "unat a + unat b + unat c + unat d < 2 ^ 64 \<Longrightarrow> unat (a + b + c + d) = unat a + unat b + unat c + unat d"
  for a b c d :: "64 word"
  using unat_add_exact [of a b] unat_add_exact [of "a + b" c] unat_add_exact [of "a + b + c" d] by linarith

lemma diyfp_mul_sig:
  "unat (sig (diyfp_mul x y)) = (unat (sig x) * unat (sig y) + 2 ^ 63) div 2 ^ 64"
  "bex (diyfp_mul x y) = bex x + bex y + 64"
proof -
  define a b c d where "a = unat (sig x) mod 2 ^ 32" and "b = unat (sig x) div 2 ^ 32"
    and "c = unat (sig y) mod 2 ^ 32" and "d = unat (sig y) div 2 ^ 32"
  have x: "unat (sig x) = b * 2 ^ 32 + a" and y: "unat (sig y) = d * 2 ^ 32 + c"
    by (simp_all add: a_def b_def c_def d_def)
  have lt: "a < 2 ^ 32" "b < 2 ^ 32" "c < 2 ^ 32" "d < 2 ^ 32"
    using unat_less_64 [of "sig x"] unat_less_64 [of "sig y"]
    by (simp_all add: a_def b_def c_def d_def less_mult_imp_div_less)
  have prod: "m * n \<le> (2 ^ 32 - 1) * (2 ^ 32 - 1)" if "m < 2 ^ 32" "n < 2 ^ 32" for m n :: nat
    using that by (intro mult_le_mono) simp_all
  define p0 p1 p2 p3 where "p0 = a * c" and "p1 = a * d" and "p2 = b * c" and "p3 = b * d"
  have p: "p0 \<le> (2 ^ 32 - 1) * (2 ^ 32 - 1)" "p1 \<le> (2 ^ 32 - 1) * (2 ^ 32 - 1)"
    "p2 \<le> (2 ^ 32 - 1) * (2 ^ 32 - 1)" "p3 \<le> (2 ^ 32 - 1) * (2 ^ 32 - 1)"
    unfolding p0_def p1_def p2_def p3_def using lt prod by blast+
  define q where "q = p0 div 2 ^ 32 + p1 mod 2 ^ 32 + p2 mod 2 ^ 32 + 2 ^ 31"
  let ?ul = "sig x AND 0xFFFFFFFF" and ?uh = "drop_bit 32 (sig x)" and ?vl = "sig y AND 0xFFFFFFFF" and ?vh = "drop_bit 32 (sig y)"
  have w0: "unat (?ul * ?vl) = p0" "unat (?ul * ?vh) = p1" "unat (?uh * ?vl) = p2" "unat (?uh * ?vh) = p3"
  proof -
    have halves: "unat ?ul = a" "unat ?uh = b" "unat ?vl = c" "unat ?vh = d"
      by (simp_all only: unat_low_half unat_drop_bit a_def b_def c_def d_def)
    have lt: "m \<le> (2 ^ 32 - 1) * (2 ^ 32 - 1) \<Longrightarrow> m < 2 ^ 64" for m :: nat by simp
    show "unat (?ul * ?vl) = p0" "unat (?ul * ?vh) = p1" "unat (?uh * ?vl) = p2" "unat (?uh * ?vh) = p3"
      using p lt unat_mult_exact [of ?ul ?vl] unat_mult_exact [of ?ul ?vh] unat_mult_exact [of ?uh ?vl]
        unat_mult_exact [of ?uh ?vh]
      unfolding halves p0_def p1_def p2_def p3_def by blast+
  qed
  have wq: "unat (drop_bit 32 (?ul * ?vl) + (?ul * ?vh AND 0xFFFFFFFF) + (?uh * ?vl AND 0xFFFFFFFF) + push_bit (64 - 32 - 1) 1) = q"
  proof -
    have k: "unat (push_bit (64 - 32 - 1) 1 :: 64 word) = 2 ^ 31" by simp
    have "p0 div 2 ^ 32 + p1 mod 2 ^ 32 + p2 mod 2 ^ 32 + 2 ^ 31 < 2 ^ 64"
    proof -
      have "p1 mod 2 ^ 32 < 2 ^ 32" "p2 mod 2 ^ 32 < 2 ^ 32" by simp_all
      moreover have "p0 div 2 ^ 32 < 2 ^ 32" using p(1) by (intro less_mult_imp_div_less) simp
      moreover have "(2 :: nat) ^ 32 + 2 ^ 32 + 2 ^ 32 + 2 ^ 31 < 2 ^ 64" by simp
      ultimately show ?thesis by linarith
    qed
    then show ?thesis unfolding q_def by (subst unat_add4_exact) (simp_all only: unat_drop_bit unat_low_half w0 k)
  qed
  show "bex (diyfp_mul x y) = bex x + bex y + 64" by (simp add: diyfp_mul_def Let_def diyfp_of_def)
  have eq: "p3 + p2 div 2 ^ 32 + p1 div 2 ^ 32 + q div 2 ^ 32 = (unat (sig x) * unat (sig y) + 2 ^ 63) div 2 ^ 64"
    unfolding x y q_def by (rule half_product [OF p0_def p1_def p2_def p3_def])
  have "unat (sig x) * unat (sig y) \<le> (2 ^ 64 - 1) * (2 ^ 64 - 1)"
    using unat_less_64 [of "sig x"] unat_less_64 [of "sig y"] by (intro mult_le_mono) simp_all
  then have "(unat (sig x) * unat (sig y) + 2 ^ 63) div 2 ^ 64 < 2 ^ 64"
    by (intro less_mult_imp_div_less) simp
  then have lt: "p3 + p2 div 2 ^ 32 + p1 div 2 ^ 32 + q div 2 ^ 32 < 2 ^ 64" by (simp only: eq)
  have "unat (sig (diyfp_mul x y)) = p3 + p2 div 2 ^ 32 + p1 div 2 ^ 32 + q div 2 ^ 32"
    unfolding diyfp_mul_def Let_def diyfp_of_def diyfp.simps
    by (subst unat_add4_exact) (simp_all only: unat_drop_bit [of 32 "_ * _"] unat_drop_bit [of 32 "_ + _"] w0 wq lt)
  then show "unat (sig (diyfp_mul x y)) = (unat (sig x) * unat (sig y) + 2 ^ 63) div 2 ^ 64" by (simp only: eq)
qed

subsection \<open>Normalization\<close>

lemma normalize_loop_shift:
  assumes "2 ^ 63 \<le> unat f * 2 ^ s" "unat f * 2 ^ s < 2 ^ 64"
  shows "normalize_loop f e = Some (diyfp_of (push_bit s f) (e - int s))"
  using assms
proof (induction s arbitrary: f e)
  case 0
  then have "unat (drop_bit 63 f) \<noteq> 0" by (simp add: unat_drop_bit div_eq_0_iff)
  then have "drop_bit 63 f \<noteq> 0" by auto
  then show ?case by (simp add: normalize_loop.simps [of f])
next
  case (Suc s)
  have "unat f * 2 < 2 ^ 64"
  proof -
    have "unat f * 2 * 1 \<le> unat f * 2 * 2 ^ s" by (intro mult_le_mono) simp_all
    also have "\<dots> = unat f * 2 ^ Suc s" by simp
    also have "\<dots> < 2 ^ 64" by (rule Suc.prems(2))
    finally show ?thesis by simp
  qed
  then have f: "unat (push_bit 1 f) = unat f * 2" using unat_push_exact [of f 1] by simp
  have "unat (drop_bit 63 f) = 0" using \<open>unat f * 2 < 2 ^ 64\<close> by (simp add: unat_drop_bit)
  then have "drop_bit 63 f = 0" by (simp only: unat_eq_zero)
  moreover have "normalize_loop (push_bit 1 f) (e - 1) = Some (diyfp_of (push_bit s (push_bit 1 f)) (e - 1 - int s))"
    by (rule Suc.IH; unfold f) (use Suc.prems in \<open>simp_all only: power_Suc mult.assoc\<close>)
  moreover have "e - 1 - int s = e - int (Suc s)" by simp
  moreover have "push_bit s (push_bit 1 f) = push_bit (Suc s) f" by simp
  ultimately show ?case by (simp only: normalize_loop.simps [of f] simp_thms if_True)
qed

lemma normal_shift:
  assumes "0 < (n :: nat)" "n < 2 ^ 64"
  obtains s where "2 ^ 63 \<le> n * 2 ^ s" "n * 2 ^ s < 2 ^ 64" "s \<le> 63"
proof -
  let ?l = "floorlog 2 n"
  have l: "2 ^ (?l - 1) \<le> n" "n < 2 ^ ?l" "0 < ?l" using floorlog2_bounds [OF assms(1)] by simp_all
  have "?l \<le> 64"
  proof (rule ccontr)
    assume "\<not> ?l \<le> 64"
    then have "(2 :: nat) ^ 64 \<le> 2 ^ (?l - 1)" by (intro power_increasing) simp_all
    then show False using l(1) assms(2) by simp
  qed
  have "2 ^ 63 = 2 ^ (?l - 1) * (2 :: nat) ^ (64 - ?l)"
    using l(3) \<open>?l \<le> 64\<close> by (subst power_add [symmetric]) (rule arg_cong [of _ _ "power 2"], linarith)
  then have a: "2 ^ 63 \<le> n * 2 ^ (64 - ?l)" using l(1) by (metis mult_le_mono1)
  have "n * 2 ^ (64 - ?l) < 2 ^ ?l * 2 ^ (64 - ?l)" using l(2) by simp
  also have "\<dots> = 2 ^ 64" using \<open>?l \<le> 64\<close> by (simp add: power_add [symmetric])
  finally have "n * 2 ^ (64 - ?l) < 2 ^ 64" .
  moreover have "64 - ?l \<le> 63" using l(3) by linarith
  ultimately show thesis using that a by blast
qed

lemma drop_push:
  assumes "unat f * 2 ^ n < 2 ^ 64"
  shows "drop_bit n (push_bit n f) = (f :: 64 word)"
proof -
  have "unat (drop_bit n (push_bit n f)) = unat f"
    by (simp only: unat_drop_bit unat_push_exact [OF assms]) simp
  then show ?thesis by (simp only: word_unat_eq_iff)
qed

lemma normalize_exact:
  assumes "2 ^ 63 \<le> unat (sig x) * 2 ^ s" "unat (sig x) * 2 ^ s < 2 ^ 64"
  shows "diyfp_normalize x = Some (diyfp_of (push_bit s (sig x)) (bex x - int s))"
proof -
  have "sig x \<noteq> 0" using assms(1) by auto
  then show ?thesis using normalize_loop_shift [OF assms] by (simp add: diyfp_normalize_def)
qed

lemma normalize_to_exact:
  assumes "unat (sig x) * 2 ^ s < 2 ^ 64" "bex x = t + int s"
  shows "diyfp_normalize_to x t = Some (diyfp_of (push_bit s (sig x)) t)"
  using assms(2) drop_push [OF assms(1)] by (simp add: diyfp_normalize_to_def Let_def)

subsection \<open>The boundaries of a double\<close>

definition positive_double :: "64 word \<Rightarrow> bool" where
  "positive_double w \<longleftrightarrow> f64_isfinite w \<and> \<not> f64_negative w \<and> w \<noteq> 0"

definition f64_sig :: "64 word \<Rightarrow> nat" where
  "f64_sig w = (if unat w div 2 ^ 52 = 0 then 0 else 2 ^ 52) + unat w mod 2 ^ 52"

definition f64_bex :: "64 word \<Rightarrow> int" where
  "f64_bex w = (if unat w div 2 ^ 52 = 0 then - 1074 else int (unat w div 2 ^ 52) - 1075)"

text \<open>The gap below a power of two is half of the gap above it.\<close>

definition lower_closer :: "64 word \<Rightarrow> bool" where
  "lower_closer w \<longleftrightarrow> unat w mod 2 ^ 52 = 0 \<and> 1 < unat w div 2 ^ 52"

lemma f64_fields:
  "f64_exponent w = int (unat w div 2 ^ 52 mod 2 ^ 11)" "f64_fraction w = int (unat w mod 2 ^ 52)"
proof -
  have u: "uint w = int (unat w)" by simp
  show "f64_exponent w = int (unat w div 2 ^ 52 mod 2 ^ 11)" "f64_fraction w = int (unat w mod 2 ^ 52)"
    unfolding f64_exponent_def f64_fraction_def u
    by (simp_all only: zdiv_int zmod_int of_nat_power of_nat_numeral)
qed

lemma positive_double_bounds:
  assumes "positive_double w"
  shows "unat w div 2 ^ 52 < 2047" "0 < unat w"
proof -
  have "\<not> int (2 ^ 63) \<le> int (unat w)"
    using assms by (simp only: positive_double_def f64_negative_def uint_nat of_nat_power of_nat_numeral) blast
  then have "unat w < 2 ^ 63" by (simp only: of_nat_le_iff not_le)
  then have b: "unat w div 2 ^ 52 < 2 ^ 11" by (intro less_mult_imp_div_less) simp
  then have "f64_exponent w = int (unat w div 2 ^ 52)" by (simp only: f64_fields mod_less)
  then have "unat w div 2 ^ 52 \<noteq> 2047" using assms by (simp add: positive_double_def f64_isfinite_def)
  then show "unat w div 2 ^ 52 < 2047" using b by simp
  show "0 < unat w" using assms by (simp add: positive_double_def unat_gt_0)
qed

lemma f64_sig_bounds:
  assumes "positive_double w"
  shows "0 < f64_sig w" "f64_sig w < 2 ^ 53" "- 1074 \<le> f64_bex w" "f64_bex w \<le> 971"
    "f64_bex w = - 1074 \<or> 2 ^ 52 \<le> f64_sig w"
    "lower_closer w \<Longrightarrow> f64_sig w = 2 ^ 52 \<and> - 1074 < f64_bex w"
proof -
  note b = positive_double_bounds [OF assms]
  have m: "unat w mod 2 ^ 52 < 2 ^ 52" by simp
  have "unat w mod 2 ^ 52 = unat w" if "unat w div 2 ^ 52 = 0"
    using that by (simp add: div_eq_0_iff)
  then show "0 < f64_sig w" using b(2) by (simp add: f64_sig_def)
  show "f64_sig w < 2 ^ 53" unfolding f64_sig_def using m by (cases "unat w div 2 ^ 52 = 0") (simp_all only: if_True if_False, simp_all)
  show "- 1074 \<le> f64_bex w" "f64_bex w \<le> 971" "f64_bex w = - 1074 \<or> 2 ^ 52 \<le> f64_sig w"
    using b(1) by (auto simp: f64_bex_def f64_sig_def)
  show "f64_sig w = 2 ^ 52 \<and> - 1074 < f64_bex w" if "lower_closer w"
    using that by (auto simp: lower_closer_def f64_sig_def f64_bex_def)
qed

lemma f64_value_positive:
  assumes "positive_double w"
  shows "f64_value w = of_nat (f64_sig w) * pow2 (f64_bex w)"
proof -
  have "unat w div 2 ^ 52 < 2 ^ 11" using positive_double_bounds(1) [OF assms] by simp
  then have e: "f64_exponent w = int (unat w div 2 ^ 52)" by (simp only: f64_fields mod_less)
  have s: "\<not> f64_negative w" using assms by (simp add: positive_double_def)
  show ?thesis
  proof (cases "unat w div 2 ^ 52 = 0")
    case True
    then show ?thesis using s by (simp add: f64_value_def Let_def e f64_fields(2) f64_sig_def f64_bex_def)
  next
    case False
    then show ?thesis using s by (simp add: f64_value_def Let_def e f64_fields(2) f64_sig_def f64_bex_def)
  qed
qed

lemma double_diyfp_eq:
  "unat (sig (double_diyfp w)) = f64_sig w" "bex (double_diyfp w) = f64_bex w"
proof -
  have h: "unat hidden_bit = 2 ^ 52" by (simp add: hidden_bit_def)
  have "ieee_fraction w = take_bit 52 w"
    by (simp add: ieee_fraction_def hidden_bit_def take_bit_eq_mask mask_eq_exp_minus_1)
  then have "unat (ieee_fraction w) = take_bit 52 (unat w)" by (simp only: unsigned_take_bit_eq)
  then have f: "unat (ieee_fraction w) = unat w mod 2 ^ 52" by (simp only: take_bit_eq_mod)
  have e: "unat (ieee_exponent w) = unat w div 2 ^ 52" by (simp only: ieee_exponent_def unat_drop_bit)
  then have z: "ieee_exponent w = 0 \<longleftrightarrow> unat w div 2 ^ 52 = 0" by (metis unat_eq_zero)
  have "unat w mod 2 ^ 52 < 2 ^ 52" by simp
  then have "unat (ieee_fraction w + hidden_bit) = unat w mod 2 ^ 52 + 2 ^ 52"
    by (subst unat_add_exact) (simp_all add: f h)
  then show "unat (sig (double_diyfp w)) = f64_sig w"
    using f by (simp add: double_diyfp_def z f64_sig_def diyfp_of_def)
  show "bex (double_diyfp w) = f64_bex w"
    by (simp only: double_diyfp_def z f64_bex_def diyfp_of_def uint_nat e diyfp.simps if_distrib [of bex]) simp
qed

lemma boundary_shift:
  assumes "0 < F" "F < (2 :: nat) ^ 53"
  obtains s where "10 \<le> s" "s \<le> 62" "2 ^ 63 \<le> (2 * F + 1) * 2 ^ s" "(2 * F + 1) * 2 ^ s < 2 ^ 64"
    "2 ^ 63 \<le> F * 2 ^ Suc s"
proof -
  obtain s where s: "2 ^ 63 \<le> (2 * F + 1) * 2 ^ s" "(2 * F + 1) * 2 ^ s < 2 ^ 64" "s \<le> 63"
    by (rule normal_shift [of "2 * F + 1"]) (use assms in simp_all)
  have "10 \<le> s"
  proof (rule ccontr)
    assume "\<not> 10 \<le> s"
    then have "(2 :: nat) ^ s \<le> 2 ^ 9" by (intro power_increasing) simp_all
    moreover have "2 * F + 1 \<le> 2 ^ 54 - 1" using assms(2) by simp
    ultimately have "(2 * F + 1) * 2 ^ s \<le> (2 ^ 54 - 1) * 2 ^ 9" by (intro mult_le_mono)
    then show False using s(1) by simp
  qed
  have "s \<noteq> 63" using s(2) assms(1) by auto
  then have "s \<le> 62" using s(3) by simp
  have "(2 :: nat) ^ 63 = 2 ^ Suc (62 - s) * 2 ^ s"
    using \<open>s \<le> 62\<close> by (subst power_add [symmetric]) (rule arg_cong [of _ _ "power 2"], linarith)
  then have "2 ^ Suc (62 - s) * 2 ^ s \<le> (2 * F + 1) * 2 ^ s" using s(1) by (simp only:)
  then have "2 ^ Suc (62 - s) \<le> 2 * F + 1" by (simp only: mult_le_cancel2) simp
  moreover have "even (2 ^ Suc (62 - s) :: nat)" by simp
  ultimately have "2 ^ Suc (62 - s) \<le> 2 * F" by presburger
  then have "2 ^ Suc (62 - s) * 2 ^ s \<le> 2 * F * 2 ^ s" by (rule mult_le_mono1)
  then have "2 ^ 63 \<le> F * 2 ^ Suc s" using \<open>2 ^ 63 = _\<close> by (simp only: power_Suc mult_ac)
  then show thesis using that s \<open>10 \<le> s\<close> \<open>s \<le> 62\<close> by blast
qed

lemma compute_boundaries_eq:
  assumes "positive_double v"
  obtains b s where "compute_boundaries v = Some b" "10 \<le> s" "s \<le> 62"
    "2 ^ 63 \<le> (2 * f64_sig v + 1) * 2 ^ s" "(2 * f64_sig v + 1) * 2 ^ s < 2 ^ 64"
    "unat (sig (bd_plus b)) = (2 * f64_sig v + 1) * 2 ^ s"
    "unat (sig (bd_w b)) = 2 * f64_sig v * 2 ^ s"
    "2 * unat (sig (bd_minus b)) = (4 * f64_sig v - (if lower_closer v then 1 else 2)) * 2 ^ s"
    "bex (bd_plus b) = f64_bex v - 1 - int s" "bex (bd_w b) = bex (bd_plus b)" "bex (bd_minus b) = bex (bd_plus b)"
proof -
  let ?F = "f64_sig v" and ?E = "f64_bex v" and ?d = "double_diyfp v"
  note F = f64_sig_bounds(1,2) [OF assms] and d = double_diyfp_eq [of v]
  obtain s where s: "10 \<le> s" "s \<le> 62" "2 ^ 63 \<le> (2 * ?F + 1) * 2 ^ s" "(2 * ?F + 1) * 2 ^ s < 2 ^ 64"
    "2 ^ 63 \<le> ?F * 2 ^ Suc s"
    by (rule boundary_shift [OF F])
  have two: "unat (2 * sig ?d) = 2 * ?F" using F(2) by (subst unat_mult_exact) (simp_all add: d)
  have four: "unat (4 * sig ?d) = 4 * ?F" using F(2) by (subst unat_mult_exact) (simp_all add: d)
  have p: "unat (2 * sig ?d + 1) = 2 * ?F + 1" using F(2) by (subst unat_add_exact) (simp_all add: two)
  have m2: "unat (2 * sig ?d - 1) = 2 * ?F - 1" using F by (subst unat_sub_exact) (simp_all add: two)
  have m4: "unat (4 * sig ?d - 1) = 4 * ?F - 1" using F by (subst unat_sub_exact) (simp_all add: four)
  have plus: "diyfp_normalize (diyfp_of (2 * sig ?d + 1) (bex ?d - 1)) =
      Some (diyfp_of (push_bit s (2 * sig ?d + 1)) (?E - 1 - int s))"
    using normalize_exact [of "diyfp_of (2 * sig ?d + 1) (bex ?d - 1)" s] s(3,4) by (simp add: diyfp_of_def p d)
  have lt: "?F * 2 ^ Suc s < 2 ^ 64" using s(4) by simp
  have w: "diyfp_normalize ?d = Some (diyfp_of (push_bit (Suc s) (sig ?d)) (?E - 1 - int s))"
  proof -
    have "?E - int (Suc s) = ?E - 1 - int s" by simp
    then show ?thesis using normalize_exact [of ?d "Suc s"] s(5) lt by (simp only: d)
  qed
  have frac: "ieee_fraction v = 0 \<and> 1 < ieee_exponent v \<longleftrightarrow> lower_closer v"
  proof -
    have "ieee_fraction v = take_bit 52 v"
      by (simp add: ieee_fraction_def hidden_bit_def take_bit_eq_mask mask_eq_exp_minus_1)
    then have "unat (ieee_fraction v) = take_bit 52 (unat v)" by (simp only: unsigned_take_bit_eq)
    then have "unat (ieee_fraction v) = unat v mod 2 ^ 52" by (simp only: take_bit_eq_mod)
    moreover have "unat (ieee_exponent v) = unat v div 2 ^ 52" by (simp only: ieee_exponent_def unat_drop_bit)
    ultimately show ?thesis unfolding lower_closer_def word_less_nat_alt word_unat_eq_iff by simp
  qed
  define n where "n = (if lower_closer v then s - 1 else s)"
  define m where "m = (if lower_closer v then 4 * sig ?d - 1 else 2 * sig ?d - 1)"
  define x where "x = (if lower_closer v then diyfp_of (4 * sig ?d - 1) (bex ?d - 2) else diyfp_of (2 * sig ?d - 1) (bex ?d - 1))"
  have half: "2 * 2 ^ (s - 1) = (2 :: nat) ^ s" using s(1) by (simp add: power_eq_if)
  have sm: "2 * (unat m * 2 ^ n) = (4 * ?F - (if lower_closer v then 1 else 2)) * 2 ^ s"
  proof (cases "lower_closer v")
    case True
    then have "2 * (unat m * 2 ^ n) = (4 * ?F - 1) * (2 * 2 ^ (s - 1))" by (simp add: m_def n_def m4)
    then show ?thesis using True by (simp only: half if_True)
  next
    case False
    then have "2 * (unat m * 2 ^ n) = 2 * (2 * ?F - 1) * 2 ^ s" by (simp add: m_def n_def m2)
    moreover have "2 * (2 * ?F - 1) = 4 * ?F - 2" by simp
    ultimately show ?thesis using False by (simp only: if_False)
  qed
  have "2 * (unat m * 2 ^ n) \<le> 2 * ((2 * ?F + 1) * 2 ^ s)"
    unfolding sm unfolding mult.assoc [symmetric] by (intro mult_le_mono1) auto
  then have mlt: "unat m * 2 ^ n < 2 ^ 64" using s(4) by simp
  have minus: "diyfp_normalize_to x (?E - 1 - int s) = Some (diyfp_of (push_bit n m) (?E - 1 - int s))"
    using normalize_to_exact [of x n "?E - 1 - int s"] mlt s(1) by (auto simp: x_def m_def n_def diyfp_of_def d)
  let ?b = "\<lparr>bd_w = diyfp_of (push_bit (Suc s) (sig ?d)) (?E - 1 - int s),
    bd_minus = diyfp_of (push_bit n m) (?E - 1 - int s), bd_plus = diyfp_of (push_bit s (2 * sig ?d + 1)) (?E - 1 - int s)\<rparr>"
  have "compute_boundaries v = Some ?b"
    using assms plus minus w unfolding compute_boundaries_def frac positive_double_def x_def
    by (simp add: Let_def diyfp_of_def)
  moreover have "unat (push_bit s (2 * sig ?d + 1)) = (2 * ?F + 1) * 2 ^ s"
    using s(4) by (subst unat_push_exact) (simp_all only: p)
  moreover have "unat (push_bit (Suc s) (sig ?d)) = 2 * ?F * 2 ^ s"
    using lt by (subst unat_push_exact) (simp_all only: d power_Suc mult_ac)
  moreover have "2 * unat (push_bit n m) = (4 * ?F - (if lower_closer v then 1 else 2)) * 2 ^ s"
    using mlt by (subst unat_push_exact) (simp_all only: sm)
  ultimately show thesis by (intro that [of ?b s] s) (simp_all only: diyfp_of_def boundaries.simps diyfp.simps)
qed

end
