(* ===== verification/Dtoa_Powers.thy ===== *)
theory Dtoa_Powers
  imports Dtoa_Arith
begin

text \<open>
  The table of powers of ten: every entry is the power rounded to 64 bits, and the index that
  the code computes selects an entry that brings the exponent into the range of the digit loop.
\<close>

subsection \<open>Accuracy\<close>

type_synonym power_entry = "64 word \<times> int \<times> int"

text \<open>The significand times the power of two is within half a unit of the power of ten.\<close>

fun accurate :: "power_entry \<Rightarrow> bool" where
  "accurate (f, e, k) \<longleftrightarrow> 2 * \<bar>of_int (uint f) * pow2 e - 10 powi k\<bar> \<le> pow2 e"

fun accurate_up :: "nat \<Rightarrow> int \<Rightarrow> power_entry list \<Rightarrow> bool" where
  "accurate_up n a [] = True"
| "accurate_up n a ((f, e, k) # cs) \<longleftrightarrow>
     k = int n \<and> 0 \<le> e \<and> 2 * \<bar>uint f * 2 ^ nat e - a\<bar> \<le> 2 ^ nat e \<and> accurate_up (n + 8) (a * 100000000) cs"

fun accurate_down :: "nat \<Rightarrow> int \<Rightarrow> power_entry list \<Rightarrow> bool" where
  "accurate_down n a [] = True"
| "accurate_down n a ((f, e, k) # cs) \<longleftrightarrow>
     k = - int n \<and> e < 0 \<and> 2 * \<bar>uint f * a - 2 ^ nat (- e)\<bar> \<le> a \<and> accurate_down (n + 8) (a * 100000000) cs"

lemma accurate_up_sound:
  "accurate_up n (10 ^ n) cs \<Longrightarrow> c \<in> set cs \<Longrightarrow> accurate c"
proof (induction cs arbitrary: n)
  case (Cons d cs)
  obtain f e k where d: "d = (f, e, k)" by (cases d)
  have d1: "k = int n" "0 \<le> e" "2 * \<bar>uint f * 2 ^ nat e - 10 ^ n\<bar> \<le> 2 ^ nat e"
    and cs: "accurate_up (n + 8) (10 ^ (n + 8)) cs"
    using Cons.prems(1) by (simp_all add: d power_add)
  have "of_int (2 * \<bar>uint f * 2 ^ nat e - 10 ^ n\<bar>) \<le> (of_int (2 ^ nat e) :: rat)"
    using d1(3) by (simp only: of_int_le_iff)
  then have "accurate d" using d1(1,2) by (simp add: d pow2_def power_int_def)
  then show ?case using Cons.IH [OF cs] Cons.prems(2) by auto
qed simp

lemma accurate_down_sound:
  "accurate_down n (10 ^ n) cs \<Longrightarrow> c \<in> set cs \<Longrightarrow> accurate c"
proof (induction cs arbitrary: n)
  case (Cons d cs)
  obtain f e k where d: "d = (f, e, k)" by (cases d)
  have d1: "k = - int n" "e < 0" "2 * \<bar>uint f * 10 ^ n - 2 ^ nat (- e)\<bar> \<le> 10 ^ n"
    and cs: "accurate_down (n + 8) (10 ^ (n + 8)) cs"
    using Cons.prems(1) by (simp_all add: d power_add)
  let ?p = "(2 :: rat) ^ nat (- e)" and ?a = "(10 :: rat) ^ n"
  have "of_int (2 * \<bar>uint f * 10 ^ n - 2 ^ nat (- e)\<bar>) \<le> (of_int (10 ^ n) :: rat)"
    using d1(3) by (simp only: of_int_le_iff)
  then have le: "2 * \<bar>of_int (uint f) * ?a - ?p\<bar> \<le> ?a" by simp
  have "of_int (uint f) * pow2 e - 10 powi k = (of_int (uint f) * ?a - ?p) / (?a * ?p)"
    using d1(1,2) by (simp add: pow2_def power_int_minus inverse_eq_divide diff_divide_distrib)
  then have "2 * \<bar>of_int (uint f) * pow2 e - 10 powi k\<bar> = 2 * \<bar>of_int (uint f) * ?a - ?p\<bar> / (?a * ?p)"
    by (simp add: abs_div)
  also have "\<dots> \<le> ?a / (?a * ?p)" using le by (intro divide_right_mono) simp_all
  also have "\<dots> = pow2 e" using d1(2) by (simp add: pow2_def)
  finally have "accurate d" by (simp add: d)
  then show ?case using Cons.IH [OF cs] Cons.prems(2) by auto
qed simp

lemma table_up: "accurate_up 20 (10 ^ 20) (drop 40 cached_powers)"
  by code_simp

lemma table_down: "accurate_down 4 (10 ^ 4) (rev (take 38 cached_powers))"
  by code_simp

lemma table_middle: "take 2 (drop 38 cached_powers) = [(0x9C40000000000000, - 50, 4), (0xE8D4A51000000000, - 24, 12)]"
  by (simp add: cached_powers_def)

lemma split_three: "x \<in> set xs \<Longrightarrow> x \<in> set (take m xs) \<or> x \<in> set (take n (drop m xs)) \<or> x \<in> set (drop (n + m) xs)"
  by (metis UnE append_take_drop_id drop_drop set_append)

lemma cached_powers_accurate: "c \<in> set cached_powers \<Longrightarrow> accurate c"
proof -
  assume "c \<in> set cached_powers"
  then have c: "c \<in> set (take 38 cached_powers) \<or> c \<in> set (take 2 (drop 38 cached_powers)) \<or> c \<in> set (drop (2 + 38) cached_powers)"
    by (rule split_three)
  have "accurate c" if "c \<in> set (take 38 cached_powers)"
    using accurate_down_sound [OF table_down, of c] that by (simp only: set_rev)
  moreover have "accurate c" if "c \<in> set (take 2 (drop 38 cached_powers))"
    using that unfolding table_middle by (auto simp: pow2_def power_int_def)
  moreover have "accurate c" if "c \<in> set (drop (2 + 38) cached_powers)"
    using accurate_up_sound [OF table_up, of c] that by simp
  ultimately show ?thesis using c by blast
qed

subsection \<open>The index\<close>

text \<open>
  The decimal exponents go up in steps of eight; each binary exponent is close to the decimal
  one times the binary logarithm of ten, which the code takes as 78913 / 262144 inverted.
\<close>

fun table_from :: "int \<Rightarrow> power_entry list \<Rightarrow> bool" where
  "table_from k' [] = True"
| "table_from k' ((f, e, k) # cs) \<longleftrightarrow>
     k = k' \<and> 2 ^ 63 \<le> uint f \<and> k * 262144 < 78913 * (e + 64) \<and> 78913 * (e + 34) < (k - 8) * 262144 \<and>
     table_from (k' + 8) cs"

lemma table_from_nth:
  "table_from k' cs \<Longrightarrow> i < length cs \<Longrightarrow> cs ! i = (f, e, k) \<Longrightarrow>
   k = k' + 8 * int i \<and> 2 ^ 63 \<le> uint f \<and> k * 262144 < 78913 * (e + 64) \<and> 78913 * (e + 34) < (k - 8) * 262144"
proof (induction cs arbitrary: k' i)
  case (Cons c cs)
  show ?case
  proof (cases i)
    case 0
    then show ?thesis using Cons.prems by (cases c) auto
  next
    case (Suc j)
    moreover obtain f' e' where "c = (f', e', k')" "table_from (k' + 8) cs" using Cons.prems(1) by (cases c) auto
    ultimately show ?thesis using Cons.IH [of "k' + 8" j] Cons.prems(2,3) by simp
  qed
qed simp

lemma table_all: "table_from (- 300) cached_powers" "length cached_powers = 79"
  by code_simp+

text \<open>Truncation and the correction give the quotient rounded up, or one more.\<close>

lemma cached_index_bounds:
  assumes "- 1137 \<le> e" "e \<le> 960"
  shows "0 \<le> cached_index e" "cached_index e \<le> 78"
    "78913 * (- 61 - e) \<le> (8 * cached_index e - 300) * 262144"
    "(8 * cached_index e - 308) * 262144 \<le> 78913 * (- 61 - e)"
proof -
  define f where "f = - 61 - e"
  define k where "k = (f * 78913) sdiv 262144 + (if 0 < f then 1 else 0)"
  have f: "- 1021 \<le> f" "f \<le> 1076" using assms by (simp_all add: f_def)
  have quot: "q * 262144 \<le> n \<and> n < (q + 1) * 262144" if "q = n div 262144" for q n :: int
  proof -
    have "n = q * 262144 + n mod 262144" using div_mult_mod_eq [of n 262144] that by (simp only:)
    moreover have "0 \<le> n mod 262144" "n mod 262144 < 262144" by simp_all
    ultimately show ?thesis unfolding distrib_right by - (rule conjI; linarith)
  qed
  have k: "f * 78913 \<le> k * 262144 \<and> (k - 1) * 262144 \<le> f * 78913"
  proof (cases "0 < f")
    case True
    then have "k - 1 = f * 78913 div 262144" by (simp add: k_def signed_divide_int_def)
    from quot [OF this] show ?thesis by simp
  next
    case False
    then have "- k = - (f * 78913) div 262144"
      by (cases "f = 0") (simp_all add: k_def signed_divide_int_def)
    from quot [OF this] show ?thesis by simp
  qed
  then have k1: "f * 78913 \<le> k * 262144" "k * 262144 - 262144 \<le> f * 78913" by (simp_all add: left_diff_distrib)
  then have k': "- 307 \<le> k" "k \<le> 324" using f by - linarith+
  have "- 60 - e - 1 = f" "300 + k + (8 - 1) = 307 + k" by (simp_all add: f_def)
  then have "cached_index e = (307 + k) sdiv 8"
    by (simp only: cached_index_def Let_def k_def [symmetric])
  also have "\<dots> = (307 + k) div 8"
    using k' by (cases "307 + k = 0") (simp_all add: signed_divide_int_def)
  finally have i: "cached_index e = (307 + k) div 8" .
  show "0 \<le> cached_index e" "cached_index e \<le> 78" using k' unfolding i by - linarith+
  have "k \<le> 8 * cached_index e - 300" "8 * cached_index e - 300 \<le> k + 7" unfolding i by - linarith+
  then show "78913 * (- 61 - e) \<le> (8 * cached_index e - 300) * 262144"
    "(8 * cached_index e - 308) * 262144 \<le> 78913 * (- 61 - e)"
    using k1 unfolding f_def left_diff_distrib right_diff_distrib by - linarith+
qed

theorem get_cached_power_eq:
  assumes "- 1137 \<le> e" "e \<le> 960"
  obtains f c k where "get_cached_power e = Some (f, c, k)" "2 ^ 63 \<le> unat f" "accurate (f, c, k)"
    "- 60 \<le> c + e + 64" "c + e + 64 \<le> - 32"
proof -
  note i = cached_index_bounds [OF assms]
  obtain f c k where entry: "cached_powers ! nat (cached_index e) = (f, c, k)" by (cases "cached_powers ! nat (cached_index e)")
  have lt: "nat (cached_index e) < length cached_powers" using i(1,2) by (simp add: table_all)
  have t: "k = - 300 + 8 * cached_index e" "2 ^ 63 \<le> uint f" "k * 262144 < 78913 * (c + 64)" "78913 * (c + 34) < (k - 8) * 262144"
    using table_from_nth [OF table_all(1) lt entry] i(1) by simp_all
  have "78913 * (- 61 - e) < 78913 * (c + 64)" "78913 * (c + 34) < 78913 * (- 61 - e)"
    using t(3,4) i(3,4) unfolding t(1) by (simp_all add: algebra_simps)
  then have range: "- 60 \<le> c + e + 64" "c + e + 64 \<le> - 32" by simp_all
  have "accurate (f, c, k)" using cached_powers_accurate nth_mem [OF lt] unfolding entry by blast
  moreover have "get_cached_power e = Some (f, c, k)"
    using assms i(1,2) range by (simp add: get_cached_power_def Let_def entry table_all(2))
  moreover have "2 ^ 63 \<le> unat f"
  proof -
    have "int (2 ^ 63) \<le> int (unat f)" using t(2) by (simp only: uint_nat of_nat_power of_nat_numeral)
    then show ?thesis by (simp only: of_nat_le_iff)
  qed
  ultimately show thesis using that range by blast
qed

end
