(* ===== verification/Dtoa_Digits.thy ===== *)
theory Dtoa_Digits
  imports Dtoa_Powers Json_Lexer
begin

text \<open>
  The digit loops of Grisu2: the digits that they produce, times their unit, are a value
  between the two boundaries; no assertion fails and no product leaves its word.
\<close>

subsection \<open>Strings of digits\<close>

definition digit_string :: "string \<Rightarrow> bool" where
  "digit_string s \<longleftrightarrow> s \<noteq> [] \<and> (\<forall>c \<in> set s. is_digit c) \<and> hd s \<noteq> CHR ''0''"

abbreviation digit_of :: "char \<Rightarrow> nat" where
  "digit_of c \<equiv> byte c - 48"

lemma digit_of_zero: "is_digit c \<Longrightarrow> digit_of c = 0 \<longleftrightarrow> c = CHR ''0''"
proof -
  have "c = CHR ''0'' \<longleftrightarrow> byte c = byte CHR ''0''" by (simp only: of_char_eq_iff)
  moreover assume "is_digit c"
  ultimately show ?thesis by (auto simp: is_digit_def)
qed

lemma digits_value_last [simp]: "digits_value (s @ [c]) = digits_value s * 10 + digit_of c"
  by (simp add: digits_value_def)

lemma digits_value_nil [simp]: "digits_value [] = 0"
  by (simp add: digits_value_def)

lemma digits_value_less: "\<forall>c \<in> set s. is_digit c \<Longrightarrow> digits_value s < 10 ^ length s"
proof (induction s rule: rev_induct)
  case (snoc c s)
  then have "digit_of c \<le> 9" by (auto simp: is_digit_def)
  then show ?case using snoc by simp
qed simp

lemma digits_value_append: "digits_value (s @ t) = digits_value s * 10 ^ length t + digits_value t"
  by (induction t rule: rev_induct) (simp_all add: append_assoc [symmetric] algebra_simps del: append_assoc)

lemma digits_value_ge:
  assumes "digit_string s"
  shows "10 ^ (length s - 1) \<le> digits_value s"
proof -
  obtain c t where s: "s = [c] @ t" "c \<noteq> CHR ''0''" "is_digit c" using assms by (cases s) (auto simp: digit_string_def)
  then have "1 \<le> digits_value [c]" using digit_of_zero [OF s(3)] by (simp add: digits_value_def)
  then have "1 * 10 ^ length t \<le> digits_value [c] * 10 ^ length t" by (rule mult_le_mono1)
  then have "10 ^ length t \<le> digits_value [c] * 10 ^ length t + digits_value t" by linarith
  then show ?thesis unfolding s(1) digits_value_append by simp
qed

subsection \<open>Rounding\<close>

lemma decrement_last_simps:
  assumes "buf \<noteq> []" "is_digit (last buf)" "last buf \<noteq> CHR ''0''"
  shows "decrement_last buf \<noteq> []" "is_digit (last (decrement_last buf))"
    "digit_of (last (decrement_last buf)) = digit_of (last buf) - 1" "butlast (decrement_last buf) = butlast buf"
    "length (decrement_last buf) = length buf"
  using assms digit_of_zero [OF assms(2)] by (auto simp: decrement_last_def is_digit_def)

text \<open>
  The loop stops before the rest passes \<open>delta\<close>; a last digit whose removal would put the rest
  past \<open>delta\<close> is never lowered to zero.
\<close>

lemma round_loop_spec:
  assumes "buf \<noteq> []" "is_digit (last buf)" "unat rest \<le> unat delta"
    "unat delta < digit_of (last buf) * unat ten_k + unat rest"
  obtains c j where "round_loop buf dst delta rest ten_k = Some (butlast buf @ [c])" "is_digit c" "0 < digit_of c"
    "digit_of c + j = digit_of (last buf)" "j * unat ten_k + unat rest \<le> unat delta"
proof -
  have "\<exists>c j. round_loop buf dst delta rest ten_k = Some (butlast buf @ [c]) \<and> is_digit c \<and> 0 < digit_of c \<and>
      digit_of c + j = digit_of (last buf) \<and> j * unat ten_k + unat rest \<le> unat delta"
    using assms
  proof (induction "digit_of (last buf)" arbitrary: buf rest)
    case 0
    then show ?case by simp
  next
    case (Suc n)
    have nz: "last buf \<noteq> CHR ''0''" using Suc.hyps(2) digit_of_zero [OF Suc.prems(2)] by linarith
    show ?case
    proof (cases "rest < dst \<and> delta - rest \<ge> ten_k \<and> (rest + ten_k < dst \<or> dst - rest > rest + ten_k - dst)")
      case False
      then have "round_loop buf dst delta rest ten_k = Some (butlast buf @ [last buf])"
        using Suc.prems(1) by (subst round_loop.simps) (simp only: if_False append_butlast_last_id not_False_eq_True)
      then show ?thesis using Suc.prems(2,3) Suc.hyps(2) by (intro exI [of _ "last buf"] exI [of _ 0]) simp
    next
      case True
      note dec = decrement_last_simps [OF Suc.prems(1,2) nz]
      have "unat ten_k \<le> unat delta - unat rest"
        using True unat_sub_exact [OF Suc.prems(3)] by (simp add: word_le_nat_alt)
      then have le: "unat rest + unat ten_k \<le> unat delta" using Suc.prems(3) by linarith
      then have r: "unat (rest + ten_k) = unat rest + unat ten_k"
        using unat_less_64 [of delta] by (intro unat_add_exact) linarith
      have d: "digit_of (last buf) = Suc (digit_of (last (decrement_last buf)))" using dec(3) Suc.hyps(2) by simp
      have n: "n = digit_of (last (decrement_last buf))" using Suc.hyps(2) d by simp
      have lt: "unat delta < digit_of (last (decrement_last buf)) * unat ten_k + unat (rest + ten_k)"
        using Suc.prems(4) unfolding r d by simp
      obtain c j where cj: "round_loop (decrement_last buf) dst delta (rest + ten_k) ten_k = Some (butlast (decrement_last buf) @ [c])"
          "is_digit c" "0 < digit_of c" "digit_of c + j = digit_of (last (decrement_last buf))"
          "j * unat ten_k + unat (rest + ten_k) \<le> unat delta"
        using Suc.hyps(1) [OF n dec(1,2) _ lt] le unfolding r by blast
      have "round_loop buf dst delta rest ten_k = Some (butlast buf @ [c])"
        using True nz cj(1) by (simp add: round_loop.simps [of buf] dec(4))
      then show ?thesis using cj d r by (intro exI [of _ c] exI [of _ "Suc j"]) simp
    qed
  qed
  then show thesis using that by blast
qed

lemma grisu2_round_spec:
  assumes "is_digit c" "unat rest \<le> unat delta" "unat delta < digit_of c * unat ten_k + unat rest" "dst \<le> delta"
  obtains c' j where "grisu2_round (buf @ [c]) dst delta rest ten_k = Some (buf @ [c'])" "is_digit c'" "0 < digit_of c'"
    "digit_of c' + j = digit_of c" "j * unat ten_k + unat rest \<le> unat delta"
proof -
  obtain c' j where l: "round_loop (buf @ [c]) dst delta rest ten_k = Some (butlast (buf @ [c]) @ [c'])" "is_digit c'" "0 < digit_of c'"
    "digit_of c' + j = digit_of (last (buf @ [c]))" "j * unat ten_k + unat rest \<le> unat delta"
    by (rule round_loop_spec [of "buf @ [c]" rest delta ten_k dst]) (use assms in simp_all)
  have "unat ten_k \<noteq> 0" using assms(2,3) by (intro notI) simp
  then have "0 < ten_k" by (simp add: word_less_nat_alt)
  then have "grisu2_round (buf @ [c]) dst delta rest ten_k = Some (buf @ [c'])"
    using l(1) assms(2,4) by (simp add: grisu2_round_def word_le_nat_alt)
  then show thesis using that l by simp
qed

subsection \<open>The integral part\<close>

lemma unat_ucast_32_64: "unat (ucast (p :: 32 word) :: 64 word) = unat p"
proof -
  have "unat p < 2 ^ 32" using unsigned_less [of p] by simp
  then show ?thesis by (simp add: unsigned_ucast_eq take_bit_nat_eq_self)
qed

lemma digit_string_snoc:
  assumes "\<forall>c \<in> set buf. is_digit c" "buf \<noteq> [] \<Longrightarrow> hd buf \<noteq> CHR ''0''" "is_digit c" "0 < digit_of c \<or> buf \<noteq> []"
  shows "digit_string (buf @ [c])"
  using assms digit_of_zero [OF assms(3)] by (cases buf) (auto simp: digit_string_def)

lemma push_scaled:
  assumes "unat p * 2 ^ sh + unat p2 < 2 ^ 64"
  shows "unat (push_bit sh (ucast (p :: 32 word) :: 64 word)) = unat p * 2 ^ sh"
    "unat (push_bit sh (ucast p :: 64 word) + p2) = unat p * 2 ^ sh + unat p2"
proof -
  show *: "unat (push_bit sh (ucast p :: 64 word)) = unat p * 2 ^ sh"
    using assms by (subst unat_push_exact) (simp_all add: unat_ucast_32_64)
  show "unat (push_bit sh (ucast p :: 64 word) + p2) = unat p * 2 ^ sh + unat p2"
    using assms by (subst unat_add_exact) (simp_all add: *)
qed

text \<open>
  Either the loop returns with the digits rounded, or it runs out of digits: the digits are
  then those of \<open>p1\<close>.
\<close>

definition integral_result :: "nat \<Rightarrow> nat \<Rightarrow> nat \<Rightarrow> nat \<Rightarrow> 64 word \<Rightarrow> 64 word \<Rightarrow> string \<Rightarrow> (string + string \<times> nat) option \<Rightarrow> bool" where
  "integral_result sh n p u p2 delta buf r \<longleftrightarrow>
     (\<exists>buf' m. r = Some (Inr (buf', m)) \<and> digit_string buf' \<and> length buf' + m = length buf + n \<and>
        (\<exists>rest \<le> unat delta. digits_value buf' * (10 ^ m * 2 ^ sh) + rest = digits_value buf * (10 ^ n * 2 ^ sh) + u) \<and>
        unat delta < 10 * (10 ^ m * 2 ^ sh)) \<or>
     (\<exists>buf'. r = Some (Inl buf') \<and> digit_string buf' \<and> length buf' = length buf + n \<and>
        digits_value buf' = digits_value buf * 10 ^ n + p \<and> unat delta < unat p2)"

lemma integral_result_step:
  assumes "integral_result sh k p u p2 delta (buf @ [c]) r"
    "digits_value (buf @ [c]) * 10 ^ k + p = digits_value buf * 10 ^ Suc k + p'"
    "digits_value (buf @ [c]) * (10 ^ k * 2 ^ sh) + u = digits_value buf * (10 ^ Suc k * 2 ^ sh) + u'"
  shows "integral_result sh (Suc k) p' u' p2 delta buf r"
  using assms(1) unfolding integral_result_def assms(2,3) by simp

lemma integral_digits_spec:
  assumes "unat p1 < 10 ^ n" "\<And>k. n = Suc k \<Longrightarrow> unat pow10 = 10 ^ k \<and> 10 ^ k * 2 ^ sh < (2 :: nat) ^ 64"
    "unat p2 < 2 ^ sh" "unat p1 * 2 ^ sh + unat p2 < 2 ^ 64" "unat delta < unat p1 * 2 ^ sh + unat p2" "dst \<le> delta"
    "\<forall>c \<in> set buf. is_digit c" "buf \<noteq> [] \<Longrightarrow> hd buf \<noteq> CHR ''0''"
    "buf = [] \<Longrightarrow> \<exists>k. n = Suc k \<and> 10 ^ k \<le> unat p1"
  shows "integral_result sh n (unat p1) (unat p1 * 2 ^ sh + unat p2) p2 delta buf
    (integral_digits sh n pow10 p1 p2 delta dst buf)"
  using assms
proof (induction n arbitrary: pow10 p1 buf)
  case 0
  then show ?case by (auto simp: integral_result_def digit_string_def)
next
  case (Suc k)
  define d r where "d = unat p1 div 10 ^ k" and "r = unat p1 mod 10 ^ k"
  have pow10: "unat pow10 = 10 ^ k" and lt: "10 ^ k * 2 ^ sh < (2 :: nat) ^ 64" using Suc.prems(2) by simp_all
  have ud: "unat (p1 div pow10) = d" and ur: "unat (p1 mod pow10) = r"
    by (simp_all add: d_def r_def unat_div_distrib unat_mod_distrib pow10)
  have d9: "d < 10" unfolding d_def using Suc.prems(1) by (intro less_mult_imp_div_less) simp
  have p1: "unat p1 = d * 10 ^ k + r" unfolding d_def r_def by (simp only: div_mult_mod_eq)
  have r: "r < 10 ^ k" by (simp add: r_def)
  let ?c = "digit_char d" and ?rest = "r * 2 ^ sh + unat p2" and ?ten = "10 ^ k * 2 ^ sh"
  have P: "unat p1 * 2 ^ sh + unat p2 = d * ?ten + ?rest" unfolding p1 by (simp add: algebra_simps)
  have rest_lt: "?rest < 2 ^ 64" using Suc.prems(4) unfolding P by linarith
  have rest: "unat (push_bit sh (ucast (p1 mod pow10) :: 64 word) + p2) = ?rest"
    using push_scaled(2) [of "p1 mod pow10" sh p2] rest_lt by (simp only: ur)
  have ten: "unat (push_bit sh (ucast pow10 :: 64 word)) = ?ten"
    using push_scaled(1) [of pow10 sh 0] lt by (simp add: pow10)
  have c: "is_digit ?c" "digit_of ?c = d" using d9 by simp_all
  have d0: "0 < d" if "buf = []"
    using Suc.prems(9) [OF that] by (auto simp: d_def div_greater_zero_iff)
  have d_le: "p1 div pow10 \<le> 9" using d9 by (simp add: word_le_nat_alt ud)
  have ds: "digit_string (buf @ [?c])" using Suc.prems(7,8) c d0 by (intro digit_string_snoc) auto
  show ?case
  proof (cases "?rest \<le> unat delta")
    case True
    note spec = grisu2_round_spec [of ?c "push_bit sh (ucast (p1 mod pow10)) + p2" delta "push_bit sh (ucast pow10)" dst buf, unfolded rest ten c(2)]
    obtain c' j where c': "grisu2_round (buf @ [?c]) dst delta (push_bit sh (ucast (p1 mod pow10)) + p2) (push_bit sh (ucast pow10)) =
        Some (buf @ [c'])" "is_digit c'" "0 < digit_of c'" "digit_of c' + j = d" "j * ?ten + ?rest \<le> unat delta"
      by (rule spec [OF c(1) True Suc.prems(5) [unfolded P] Suc.prems(6)])
    have "integral_digits sh (Suc k) pow10 p1 p2 delta dst buf = Some (Inr (buf @ [c'], k))"
      using True d_le c'(1) by (simp add: Let_def ud rest word_le_nat_alt)
    moreover have "digit_string (buf @ [c'])" using Suc.prems(7,8) c'(2,3) by (intro digit_string_snoc) auto
    moreover have "digits_value (buf @ [c']) * ?ten + (j * ?ten + ?rest) =
        digits_value buf * (10 ^ Suc k * 2 ^ sh) + (unat p1 * 2 ^ sh + unat p2)"
      unfolding P c'(4) [symmetric] by (simp add: algebra_simps)
    moreover have "unat delta < 10 * ?ten"
    proof -
      have "unat p1 * 2 ^ sh + unat p2 < unat p1 * 2 ^ sh + 2 ^ sh" using Suc.prems(3) by simp
      also have "\<dots> = Suc (unat p1) * 2 ^ sh" by simp
      also have "\<dots> \<le> 10 ^ Suc k * 2 ^ sh" using Suc.prems(1) by (intro mult_le_mono1) simp
      finally show ?thesis using Suc.prems(5) by simp
    qed
    ultimately show ?thesis using c'(5) unfolding integral_result_def
      by (intro disjI1 exI [of _ "buf @ [c']"] exI [of _ k] conjI exI [of _ "j * ?ten + ?rest"]) simp_all
  next
    case False
    have "integral_result sh k (unat (p1 mod pow10)) (unat (p1 mod pow10) * 2 ^ sh + unat p2) p2 delta (buf @ [?c])
        (integral_digits sh k (pow10 div 10) (p1 mod pow10) p2 delta dst (buf @ [?c]))"
    proof (rule Suc.IH)
      show "unat (pow10 div 10) = 10 ^ i \<and> 10 ^ i * 2 ^ sh < (2 :: nat) ^ 64" if "k = Suc i" for i
      proof
        show "unat (pow10 div 10) = 10 ^ i" using that by (simp add: unat_div_distrib pow10)
        have "10 ^ i * 2 ^ sh \<le> 10 ^ k * (2 :: nat) ^ sh" using that by (intro mult_le_mono1 power_increasing) simp_all
        then show "10 ^ i * 2 ^ sh < (2 :: nat) ^ 64" using lt by linarith
      qed
      show "hd (buf @ [?c]) \<noteq> CHR ''0''" using ds by (simp add: digit_string_def)
    qed (use False r rest_lt Suc.prems c in \<open>simp_all add: ur\<close>)
    moreover have "integral_digits sh (Suc k) pow10 p1 p2 delta dst buf =
        integral_digits sh k (pow10 div 10) (p1 mod pow10) p2 delta dst (buf @ [?c])"
      using False d_le by (simp add: Let_def ud rest word_le_nat_alt)
    moreover have "digits_value (buf @ [?c]) * 10 ^ k + r = digits_value buf * 10 ^ Suc k + unat p1"
      unfolding p1 using c by (simp add: algebra_simps)
    moreover have "digits_value (buf @ [?c]) * (10 ^ k * 2 ^ sh) + ?rest = digits_value buf * (10 ^ Suc k * 2 ^ sh) + (unat p1 * 2 ^ sh + unat p2)"
      unfolding P using c by (simp add: algebra_simps)
    ultimately show ?thesis by (simp only: integral_result_step ur)
  qed
qed

subsection \<open>The fraction\<close>

lemma unat_and_low: "unat ((w :: 64 word) AND (push_bit sh 1 - 1)) = unat w mod 2 ^ sh"
proof -
  have "w AND (push_bit sh 1 - 1) = take_bit sh w" by (simp add: take_bit_eq_mask mask_eq_exp_minus_1)
  then have "unat (w AND (push_bit sh 1 - 1)) = take_bit sh (unat w)" by (simp only: unsigned_take_bit_eq)
  then show ?thesis by (simp only: take_bit_eq_mod)
qed

definition fraction_result :: "nat \<Rightarrow> nat \<Rightarrow> nat \<Rightarrow> string \<Rightarrow> nat \<Rightarrow> (string \<times> nat \<times> 64 word \<times> 64 word \<times> 64 word) option \<Rightarrow> bool" where
  "fraction_result sh p2 delta buf m r \<longleftrightarrow>
     (\<exists>buf' c i delta' dst' p2'.
        r = Some (buf' @ [c], m + i, delta', dst', p2') \<and> is_digit c \<and> (\<forall>c \<in> set buf'. is_digit c) \<and>
        buf' \<noteq> [] \<and> hd buf' \<noteq> CHR ''0'' \<and> length (buf' @ [c]) = length buf + i \<and>
        unat delta' = delta * 10 ^ i \<and> dst' \<le> delta' \<and>
        digits_value (buf' @ [c]) * 2 ^ sh + unat p2' = (digits_value buf * 2 ^ sh + p2) * 10 ^ i \<and>
        unat p2' \<le> unat delta' \<and> unat delta' < digit_of c * 2 ^ sh + unat p2' \<and> unat delta' < 10 * 2 ^ sh)"

lemma fraction_digits_spec:
  assumes "sh \<le> 60" "unat p2 < 2 ^ sh" "unat delta < unat p2" "0 < unat delta" "dst \<le> delta" "digit_string buf"
  shows "fraction_result sh (unat p2) (unat delta) buf m (fraction_digits sh p2 delta dst buf m)"
  using assms
proof (induction "2 ^ 60 - unat delta" arbitrary: p2 delta dst buf m rule: less_induct)
  case less
  have sh60: "(2 :: nat) ^ sh \<le> 2 ^ 60" using less.prems(1) by (intro power_increasing) simp_all
  have u10: "unat (10 :: 64 word) = 10" by simp
  have q: "unat (p2 * 10) = unat p2 * 10" using less.prems(2) sh60 by (subst unat_mult_exact) simp_all
  have delta: "unat (delta * 10) = unat delta * 10" using less.prems(2,3) sh60 by (subst unat_mult_exact) simp_all
  have dst: "unat (dst * 10) = unat dst * 10"
    using less.prems(2,3,5) sh60 by (subst unat_mult_exact) (simp_all add: word_le_nat_alt)
  define d r where "d = unat p2 * 10 div 2 ^ sh" and "r = unat p2 * 10 mod 2 ^ sh"
  have dr: "unat p2 * 10 = d * 2 ^ sh + r" unfolding d_def r_def by (simp only: div_mult_mod_eq)
  have d9: "d < 10" unfolding d_def using less.prems(2) by (intro less_mult_imp_div_less) simp
  have r: "r < 2 ^ sh" by (simp add: r_def)
  have ud: "unat (drop_bit sh (p2 * 10)) = d" by (simp only: unat_drop_bit q d_def)
  have ur: "unat (p2 * 10 AND (push_bit sh 1 - 1)) = r"
    by (simp only: unat_and_low q r_def)
  let ?p2 = "p2 * 10 AND (push_bit sh 1 - 1)" and ?c = "digit_char d"
  have c: "is_digit ?c" "digit_of ?c = d" using d9 by simp_all
  have a1: "p2 \<le> - 1 div 10"
  proof -
    have "unat (- 1 div 10 :: 64 word) = (2 ^ 64 - 1) div 10"
      by (simp add: unat_div_distrib unsigned_minus_1_eq_mask mask_eq_exp_minus_1)
    then show ?thesis using less.prems(2) sh60 by (simp add: word_le_nat_alt)
  qed
  have a2: "drop_bit sh (p2 * 10) \<le> 9" using d9 by (simp add: word_le_nat_alt ud)
  have unfold_loop: "fraction_digits sh p2 delta dst buf m =
      (if ?p2 \<le> delta * 10 then Some (buf @ [?c], Suc m, delta * 10, dst * 10, ?p2)
       else fraction_digits sh ?p2 (delta * 10) (dst * 10) (buf @ [?c]) (Suc m))"
    using a1 a2 by (subst fraction_digits.simps) (simp only: Let_def assertion_bind if_True ud)
  have dst_le: "dst * 10 \<le> delta * 10" using less.prems(5) by (simp add: word_le_nat_alt delta dst)
  have ds: "digit_string (buf @ [?c])" using less.prems(6) c by (intro digit_string_snoc) (auto simp: digit_string_def)
  show ?case
  proof (cases "?p2 \<le> delta * 10")
    case True
    have "digits_value (buf @ [?c]) * 2 ^ sh + r = (digits_value buf * 2 ^ sh + unat p2) * 10 ^ 1"
      using dr c by (simp add: algebra_simps)
    moreover have "unat delta * 10 < d * 2 ^ sh + r" using less.prems(3) unfolding dr [symmetric] by simp
    moreover have "unat delta * 10 < 10 * 2 ^ sh" using less.prems(2,3) by simp
    ultimately show ?thesis
      using True less.prems(6) c dst_le unfolding unfold_loop fraction_result_def
      by (intro exI [of _ buf] exI [of _ ?c] exI [of _ 1] exI [of _ "delta * 10"] exI [of _ "dst * 10"] exI [of _ ?p2] conjI)
        (simp_all only: if_True add_Suc_right add_0_right One_nat_def ur delta word_le_nat_alt digit_string_def, simp_all)
  next
    case False
    have "fraction_result sh (unat ?p2) (unat (delta * 10)) (buf @ [?c]) (Suc m)
        (fraction_digits sh ?p2 (delta * 10) (dst * 10) (buf @ [?c]) (Suc m))"
    proof (rule less.hyps)
      show "2 ^ 60 - unat (delta * 10) < 2 ^ 60 - unat delta"
        using less.prems(2,3,4) sh60 by (simp add: delta)
      show "unat ?p2 < 2 ^ sh" by (simp only: ur r)
      show "unat (delta * 10) < unat ?p2" using False by (simp only: word_le_nat_alt not_le)
      show "0 < unat (delta * 10)" unfolding delta using less.prems(4) by simp
    qed (fact less.prems(1) dst_le ds)+
    then obtain buf' c' i delta' dst' p2' where *:
      "fraction_digits sh ?p2 (delta * 10) (dst * 10) (buf @ [?c]) (Suc m) = Some (buf' @ [c'], Suc m + i, delta', dst', p2')"
      "is_digit c'" "\<forall>c \<in> set buf'. is_digit c" "buf' \<noteq> []" "hd buf' \<noteq> CHR ''0''"
      "length (buf' @ [c']) = length (buf @ [?c]) + i" "unat delta' = unat delta * 10 * 10 ^ i" "dst' \<le> delta'"
      "digits_value (buf' @ [c']) * 2 ^ sh + unat p2' = (digits_value (buf @ [?c]) * 2 ^ sh + r) * 10 ^ i"
      "unat p2' \<le> unat delta'" "unat delta' < digit_of c' * 2 ^ sh + unat p2'" "unat delta' < 10 * 2 ^ sh"
      unfolding fraction_result_def ur delta by blast
    have "(digits_value (buf @ [?c]) * 2 ^ sh + r) * 10 ^ i = (digits_value buf * 2 ^ sh + unat p2) * 10 ^ Suc i"
    proof -
      have "digits_value (buf @ [?c]) * 2 ^ sh + r = (digits_value buf * 2 ^ sh + unat p2) * 10"
        using dr c by (simp add: algebra_simps)
      then show ?thesis by simp
    qed
    then show ?thesis
      using * False unfolding unfold_loop fraction_result_def
      by (intro exI [of _ buf'] exI [of _ c'] exI [of _ "Suc i"] exI [of _ delta'] exI [of _ dst'] exI [of _ p2'] conjI)
        (simp_all only: if_False add_Suc_right add_Suc, simp_all)
  qed
qed

subsection \<open>All digits\<close>

lemma find_largest_pow10_spec:
  assumes "0 < unat n"
  obtains i p where "find_largest_pow10 n = (Suc i, p)" "unat p = 10 ^ i" "10 ^ i \<le> unat n" "unat n < 10 ^ Suc i"
proof -
  have "unat n < 2 ^ 32" using unsigned_less [of n] by simp
  then have "\<exists>i p. find_largest_pow10 n = (Suc i, p) \<and> unat p = 10 ^ i \<and> 10 ^ i \<le> unat n \<and> unat n < 10 ^ Suc i"
    using assms unfolding find_largest_pow10_def by (auto simp: word_le_nat_alt)
  then show thesis using that by blast
qed

text \<open>The rationals that the digits and their unit stand for, scaled by \<open>2 ^ sh\<close>.\<close>

lemma unit_nonneg:
  assumes "(d :: nat) * (10 ^ m * 2 ^ sh) + rest = u" "rest \<le> delta" "delta < 10 * (10 ^ m * 2 ^ sh)"
  shows "of_nat d * 10 powi int m * 2 ^ sh \<le> (of_nat u :: rat)"
    "of_nat u - of_nat delta \<le> of_nat d * 10 powi int m * (2 :: rat) ^ sh"
    "(of_nat delta :: rat) < 10 * 10 powi int m * 2 ^ sh"
proof -
  have u: "(of_nat u :: rat) = of_nat d * 10 powi int m * 2 ^ sh + of_nat rest" unfolding assms(1) [symmetric] by simp
  have le: "(of_nat rest :: rat) \<le> of_nat delta" using assms(2) by simp
  show "of_nat d * 10 powi int m * 2 ^ sh \<le> (of_nat u :: rat)" unfolding u by simp
  show "of_nat u - of_nat delta \<le> of_nat d * 10 powi int m * (2 :: rat) ^ sh" unfolding u using le by linarith
  have "(of_nat delta :: rat) < of_nat (10 * (10 ^ m * 2 ^ sh))" using assms(3) by (simp only: of_nat_less_iff)
  then show "(of_nat delta :: rat) < 10 * 10 powi int m * 2 ^ sh" by simp
qed

lemma unit_neg:
  assumes "(d :: nat) * 2 ^ sh + rest = u * 10 ^ i" "rest \<le> delta * 10 ^ i" "delta * 10 ^ i < 10 * 2 ^ sh"
  shows "of_nat d * 10 powi (- int i) * 2 ^ sh \<le> (of_nat u :: rat)"
    "of_nat u - of_nat delta \<le> of_nat d * 10 powi (- int i) * (2 :: rat) ^ sh"
    "(of_nat delta :: rat) < 10 * 10 powi (- int i) * 2 ^ sh"
proof -
  have p: "(10 :: rat) powi (- int i) = 1 / 10 ^ i" by (simp add: power_int_minus inverse_eq_divide)
  have u: "(of_nat u * 10 ^ i :: rat) = of_nat d * 2 ^ sh + of_nat rest"
    using arg_cong [OF assms(1), of "of_nat :: nat \<Rightarrow> rat"] by simp
  have le: "(of_nat rest :: rat) \<le> of_nat delta * 10 ^ i"
    using assms(2) by (metis of_nat_le_iff of_nat_mult of_nat_numeral of_nat_power)
  show "of_nat d * 10 powi (- int i) * 2 ^ sh \<le> (of_nat u :: rat)"
    unfolding p using u by (simp add: field_simps)
  show "of_nat u - of_nat delta \<le> of_nat d * 10 powi (- int i) * (2 :: rat) ^ sh"
    unfolding p using u le by (simp add: field_simps)
  have "(of_nat (delta * 10 ^ i) :: rat) < of_nat (10 * 2 ^ sh)" using assms(3) by (simp only: of_nat_less_iff)
  then show "(of_nat delta :: rat) < 10 * 10 powi (- int i) * 2 ^ sh" unfolding p by (simp add: field_simps)
qed

theorem digit_gen_spec:
  assumes e: "bex M_minus = bex M_plus" "bex w = bex M_plus" "- 60 \<le> bex M_plus" "bex M_plus \<le> - 32"
    and s: "0 < unat (sig M_minus)" "sig M_minus \<le> sig w" "sig w \<le> sig M_plus" "sig M_minus < sig M_plus"
      "2 ^ 60 \<le> unat (sig M_plus)"
  obtains buf \<kappa> where "digit_gen de M_minus w M_plus = Some (buf, de + \<kappa>)" "digit_string buf"
    "of_nat (unat (sig M_minus)) \<le> of_nat (digits_value buf) * 10 powi \<kappa> * (2 :: rat) ^ nat (- bex M_plus)"
    "of_nat (digits_value buf) * 10 powi \<kappa> * (2 :: rat) ^ nat (- bex M_plus) \<le> of_nat (unat (sig M_plus))"
    "of_nat (unat (sig M_plus) - unat (sig M_minus)) < 10 * 10 powi \<kappa> * (2 :: rat) ^ nat (- bex M_plus)"
proof -
  define sh where "sh = nat (- bex M_plus)"
  have sh: "32 \<le> sh" "sh \<le> 60" using e(3,4) by (simp_all add: sh_def)
  have sh_pow: "2 ^ 32 \<le> (2 :: nat) ^ sh" "(2 :: nat) ^ sh \<le> 2 ^ 60"
    using sh by (intro power_increasing; simp)+
  define P delta dst where "P = sig M_plus" and "delta = sig M_plus - sig M_minus" and "dst = sig M_plus - sig w"
  have nat_le: "unat (sig M_minus) \<le> unat (sig w)" "unat (sig w) \<le> unat P" "unat (sig M_minus) < unat P"
    using s by (simp_all add: word_le_nat_alt word_less_nat_alt P_def)
  have delta: "unat delta = unat P - unat (sig M_minus)" "unat dst = unat P - unat (sig w)"
    using nat_le by (simp_all add: delta_def dst_def P_def unat_sub_exact)
  have dst: "dst \<le> delta" using nat_le by (simp add: word_le_nat_alt delta)
  define p1 p2 where "p1 = (ucast (drop_bit sh P) :: 32 word)" and "p2 = P AND (push_bit sh 1 - 1)"
  have q: "unat P div 2 ^ sh < 2 ^ 32"
  proof (rule less_mult_imp_div_less)
    have "(2 :: nat) ^ 64 = 2 ^ 32 * 2 ^ 32" by simp
    also have "\<dots> \<le> 2 ^ 32 * 2 ^ sh" using sh_pow(1) by (rule mult_le_mono2)
    finally show "unat P < 2 ^ 32 * 2 ^ sh" using unat_less_64 [of P] by linarith
  qed
  have p1: "unat p1 = unat P div 2 ^ sh"
    using q by (simp add: p1_def unsigned_ucast_eq unat_drop_bit take_bit_nat_eq_self)
  have p2: "unat p2 = unat P mod 2 ^ sh" by (simp only: p2_def unat_and_low)
  have P: "unat p1 * 2 ^ sh + unat p2 = unat P" by (simp only: p1 p2 div_mult_mod_eq)
  have "0 < unat p1" unfolding p1 using s(5) sh_pow(2) by (simp add: div_greater_zero_iff P_def)
  then have p1_pos: "0 < p1" by (simp add: word_less_nat_alt)
  obtain i pow10 where f: "find_largest_pow10 p1 = (Suc i, pow10)" "unat pow10 = 10 ^ i" "10 ^ i \<le> unat p1" "unat p1 < 10 ^ Suc i"
    by (rule find_largest_pow10_spec [OF \<open>0 < unat p1\<close>])
  let ?r = "integral_digits sh (Suc i) pow10 p1 p2 delta dst []"
  have r: "integral_result sh (Suc i) (unat p1) (unat P) p2 delta [] ?r"
    unfolding P [symmetric]
  proof (rule integral_digits_spec)
    have "10 ^ i * 2 ^ sh \<le> unat p1 * 2 ^ sh" using f(3) by (rule mult_le_mono1)
    also have "\<dots> \<le> unat P" using P by linarith
    finally have lt: "10 ^ i * 2 ^ sh < (2 :: nat) ^ 64" using unat_less_64 [of P] by linarith
    show "unat pow10 = 10 ^ k \<and> 10 ^ k * 2 ^ sh < (2 :: nat) ^ 64" if "Suc i = Suc k" for k
      using that f(2) lt by simp
    show "unat p2 < 2 ^ sh" by (simp add: p2)
    show "unat p1 * 2 ^ sh + unat p2 < 2 ^ 64" unfolding P by (rule unat_less_64)
    show "unat delta < unat p1 * 2 ^ sh + unat p2" unfolding P delta using s(1) nat_le by simp
  qed (use f dst in simp_all)
  have gen: "digit_gen de M_minus w M_plus =
      Option.bind ?r (\<lambda>r. case r of
          Inr (buf, n) \<Rightarrow> Some (buf, de + int n)
        | Inl buf \<Rightarrow>
            Option.bind (assertion (delta < p2)) (\<lambda>_.
            Option.bind (fraction_digits sh p2 delta dst buf 0) (\<lambda>(buf, m, delta, dst, p2).
            Option.bind (grisu2_round buf dst delta p2 (push_bit sh 1)) (\<lambda>buf.
            Some (buf, de - int m)))))"
    using e s p1_pos f(1)
    by (simp add: digit_gen_def diyfp_sub_def diyfp_of_def Let_def sh_def [symmetric] P_def p1_def [unfolded P_def]
        p2_def [unfolded P_def] delta_def dst_def less_imp_le)
  have le: "of_nat (unat (sig M_minus)) = (of_nat (unat P) - of_nat (unat delta) :: rat)"
    using nat_le by (simp add: delta of_nat_diff)
  show thesis
    using r unfolding integral_result_def
  proof (elim disjE exE conjE)
    fix buf m rest
    assume *: "?r = Some (Inr (buf, m))" "digit_string buf" "rest \<le> unat delta"
      "digits_value buf * (10 ^ m * 2 ^ sh) + rest = digits_value [] * (10 ^ Suc i * 2 ^ sh) + unat P"
      "unat delta < 10 * (10 ^ m * 2 ^ sh)"
    have "digits_value buf * (10 ^ m * 2 ^ sh) + rest = unat P" using *(4) by simp
    from unit_nonneg [OF this *(3,5)] show thesis
      using that [of buf "int m"] *(1,2) unfolding le sh_def [symmetric] gen P_def [symmetric] delta(1) [symmetric] by simp
  next
    fix buf
    assume *: "?r = Some (Inl buf)" "digit_string buf" "digits_value buf = digits_value [] * 10 ^ Suc i + unat p1"
      "unat delta < unat p2"
    have "0 < unat delta" unfolding delta using nat_le by simp
    moreover have "unat p2 < 2 ^ sh" by (simp add: p2)
    ultimately have "fraction_result sh (unat p2) (unat delta) buf 0 (fraction_digits sh p2 delta dst buf 0)"
      using sh(2) * dst by (intro fraction_digits_spec) simp_all
    then obtain buf' c j delta' dst' p2' where fr: "fraction_digits sh p2 delta dst buf 0 = Some (buf' @ [c], j, delta', dst', p2')"
      "is_digit c" "\<forall>c \<in> set buf'. is_digit c" "buf' \<noteq> []" "hd buf' \<noteq> CHR ''0''"
      "unat delta' = unat delta * 10 ^ j" "dst' \<le> delta'"
      "digits_value (buf' @ [c]) * 2 ^ sh + unat p2' = (digits_value buf * 2 ^ sh + unat p2) * 10 ^ j"
      "unat p2' \<le> unat delta'" "unat delta' < digit_of c * 2 ^ sh + unat p2'" "unat delta' < 10 * 2 ^ sh"
      unfolding fraction_result_def add_0 by blast
    have one: "unat (push_bit sh 1 :: 64 word) = 2 ^ sh"
      using sh_pow(2) by (subst unat_push_exact) simp_all
    obtain c' n where c': "grisu2_round (buf' @ [c]) dst' delta' p2' (push_bit sh 1) = Some (buf' @ [c'])" "is_digit c'" "0 < digit_of c'"
      "digit_of c' + n = digit_of c" "n * unat (push_bit sh 1 :: 64 word) + unat p2' \<le> unat delta'"
      by (rule grisu2_round_spec [of c p2' delta' "push_bit sh 1" dst' buf']) (use fr one in simp_all)
    have eq: "digits_value (buf' @ [c']) * 2 ^ sh + (n * 2 ^ sh + unat p2') = unat P * 10 ^ j"
    proof -
      have "digits_value buf * 2 ^ sh + unat p2 = unat P" using *(3) P by simp
      then have "unat P * 10 ^ j = digits_value (buf' @ [c]) * 2 ^ sh + unat p2'" using fr(8) by simp
      then show ?thesis by (simp add: c'(4) [symmetric] algebra_simps)
    qed
    have ds: "digit_string (buf' @ [c'])" using fr(3,4,5) c'(2) by (intro digit_string_snoc) simp_all
    have "digit_gen de M_minus w M_plus = Some (buf' @ [c'], de + - int j)"
      using *(1,4) fr(1) c'(1) by (simp add: gen word_less_nat_alt)
    with unit_neg [OF eq c'(5) [unfolded one fr(6)] fr(11) [unfolded fr(6)]] ds show thesis
      using that [of "buf' @ [c']" "- int j"] unfolding le sh_def [symmetric] P_def [symmetric] delta(1) [symmetric] by simp
  qed
qed

end
