(* ===== verification/Dtoa_Exact.thy ===== *)
theory Dtoa_Exact
  imports Dtoa_Digits
begin

text \<open>
  The decimal number that Grisu2 finds lies strictly between the midpoints to the two
  neighbouring doubles, has at most 17 digits, and is rounded back to the double.
\<close>

subsection \<open>Scaling by a cached power\<close>

lemma pow2_nonneg [simp]: "0 \<le> pow2 k"
  by (simp add: less_imp_le)

definition scale :: "int \<Rightarrow> int \<Rightarrow> rat" where
  "scale c k = 10 powi k * pow2 (- c - 64)"

lemma of_nat_bounds_64: "(of_nat (unat (w :: 64 word)) :: rat) \<le> 2 ^ 64 - 1"
proof -
  have "unat w \<le> 2 ^ 64 - 1" using unat_less_64 [of w] by simp
  then have "(of_nat (unat w) :: rat) \<le> of_nat (2 ^ 64 - 1)" by (simp only: of_nat_le_iff)
  then show ?thesis by simp
qed

lemma accurate_scale:
  assumes "accurate (f, c, k)"
  shows "\<bar>of_nat (unat f) / 2 ^ 64 - scale c k\<bar> \<le> 1 / 2 ^ 65"
proof -
  define g where "g = (of_nat (unat f) :: rat)"
  have "of_int (uint f) = g" by (simp only: uint_nat of_int_of_nat_eq g_def)
  then have a: "2 * \<bar>g * pow2 c - 10 powi k\<bar> \<le> pow2 c" using assms by (simp only: accurate.simps)
  have p: "pow2 (- c - 64) * pow2 c = 1 / 2 ^ 64"
    using pow2_add [of "- c - 64" c] by (simp add: pow2_def)
  have "g / 2 ^ 64 - scale c k = (g * pow2 c - 10 powi k) * pow2 (- c - 64)"
    unfolding left_diff_distrib scale_def mult.assoc p [symmetric, unfolded mult.commute [of _ "pow2 c"]]
    using p by (simp add: mult.commute [of "pow2 c"])
  then have "\<bar>g / 2 ^ 64 - scale c k\<bar> = \<bar>g * pow2 c - 10 powi k\<bar> * pow2 (- c - 64)"
    by (simp only: abs_mult abs_of_pos [OF pow2_pos])
  also have "\<dots> \<le> pow2 c / 2 * pow2 (- c - 64)" using a by (intro mult_right_mono) simp_all
  also have "\<dots> = 1 / 2 ^ 65" using p by (simp add: mult.commute)
  finally show ?thesis unfolding g_def .
qed

lemma scale_bounds:
  assumes "accurate (f, c, k)" "2 ^ 63 \<le> unat f"
  shows "1 / 4 \<le> scale c k" "scale c k < 1"
proof -
  define g where "g = (of_nat (unat f) :: rat)"
  have "(of_nat (2 ^ 63) :: rat) \<le> g" using assms(2) unfolding g_def by (simp only: of_nat_le_iff)
  then have lo: "(2 :: rat) ^ 63 / 2 ^ 64 \<le> g / 2 ^ 64" by (intro divide_right_mono) simp_all
  have hi: "g / 2 ^ 64 \<le> (2 ^ 64 - 1) / 2 ^ 64"
    using of_nat_bounds_64 [of f] unfolding g_def by (intro divide_right_mono) simp_all
  have "\<bar>g / 2 ^ 64 - scale c k\<bar> \<le> 1 / 2 ^ 65" unfolding g_def by (rule accurate_scale [OF assms(1)])
  then have d: "g / 2 ^ 64 \<le> scale c k + 1 / 2 ^ 65" "scale c k \<le> g / 2 ^ 64 + 1 / 2 ^ 65"
    by (simp_all only: abs_le_iff) linarith+
  show "1 / 4 \<le> scale c k" using order_trans [OF lo d(1)] by simp
  show "scale c k < 1" using order_trans [OF d(2) add_right_mono [OF hi]] by simp
qed

lemma half_and_half: "\<bar>a - b\<bar> \<le> 1 / 2 \<Longrightarrow> \<bar>b - c\<bar> < 1 / 2 \<Longrightarrow> \<bar>a - c\<bar> < 1" for a b c :: rat
  by linarith

text \<open>The product is off by less than one.\<close>

lemma diyfp_mul_scale:
  assumes "accurate (f, c, k)"
  shows "\<bar>of_nat (unat (sig (diyfp_mul x (diyfp_of f c)))) - of_nat (unat (sig x)) * scale c k\<bar> < 1"
proof -
  let ?x = "unat (sig x)" and ?f = "unat f"
  define m where "m = (?x * ?f + 2 ^ 63) div 2 ^ 64"
  have m: "unat (sig (diyfp_mul x (diyfp_of f c))) = m"
    by (simp only: diyfp_mul_sig m_def) (simp add: diyfp_of_def)
  have "m * 2 ^ 64 + (?x * ?f + 2 ^ 63) mod 2 ^ 64 = ?x * ?f + 2 ^ 63" unfolding m_def by (simp only: div_mult_mod_eq)
  moreover have "(?x * ?f + 2 ^ 63) mod 2 ^ 64 < 2 ^ 64" by simp
  ultimately have "m * 2 ^ 64 \<le> ?x * ?f + 2 ^ 63" "?x * ?f + 2 ^ 63 < m * 2 ^ 64 + 2 ^ 64" by linarith+
  then have "(of_nat (m * 2 ^ 64) :: rat) \<le> of_nat (?x * ?f + 2 ^ 63)" "(of_nat (?x * ?f + 2 ^ 63) :: rat) < of_nat (m * 2 ^ 64 + 2 ^ 64)"
    by (simp_all only: of_nat_le_iff of_nat_less_iff)
  then have "\<bar>of_nat m * 2 ^ 64 - of_nat ?x * of_nat ?f\<bar> \<le> (2 ^ 63 :: rat)"
    unfolding of_nat_add of_nat_mult of_nat_power of_nat_numeral abs_le_iff by simp
  then have "\<bar>of_nat m * 2 ^ 64 - of_nat ?x * of_nat ?f\<bar> / 2 ^ 64 \<le> (2 ^ 63 / 2 ^ 64 :: rat)"
    by (intro divide_right_mono) simp_all
  moreover have "\<bar>of_nat m - of_nat ?x * (of_nat ?f / 2 ^ 64)\<bar> = \<bar>of_nat m * 2 ^ 64 - of_nat ?x * of_nat ?f\<bar> / (2 ^ 64 :: rat)"
    by (subst abs_div_pos) (simp_all add: diff_divide_distrib)
  ultimately have half: "\<bar>of_nat m - of_nat ?x * (of_nat ?f / 2 ^ 64)\<bar> \<le> (1 / 2 :: rat)" by simp
  have "\<bar>of_nat ?x * (of_nat ?f / 2 ^ 64) - of_nat ?x * scale c k\<bar> = of_nat ?x * \<bar>of_nat ?f / 2 ^ 64 - scale c k\<bar>"
    by (simp only: right_diff_distrib [symmetric] abs_mult abs_of_nat)
  also have "\<dots> \<le> of_nat ?x * (1 / 2 ^ 65)" by (rule mult_left_mono [OF accurate_scale [OF assms] of_nat_0_le_iff])
  also have "\<dots> \<le> (2 ^ 64 - 1) * (1 / 2 ^ 65)" by (intro mult_right_mono of_nat_bounds_64) simp
  also have "\<dots> < 1 / 2" by simp
  finally show ?thesis unfolding m by (rule half_and_half [OF half])
qed

subsection \<open>Between the midpoints\<close>

definition upper_midpoint :: "64 word \<Rightarrow> rat" where
  "upper_midpoint v = (2 * of_nat (f64_sig v) + 1) * pow2 (f64_bex v - 1)"

definition lower_midpoint :: "64 word \<Rightarrow> rat" where
  "lower_midpoint v = (4 * of_nat (f64_sig v) - (if lower_closer v then 1 else 2)) * pow2 (f64_bex v - 2)"

text \<open>The scaled boundaries, as rationals: \<open>y\<close> is the scaled double, \<open>t\<close> the scaled gap.\<close>

lemma scaled_boundaries:
  assumes "positive_double v" "compute_boundaries v = Some b"
    "unat (sig (bd_plus b)) = (2 * f64_sig v + 1) * 2 ^ s" "unat (sig (bd_w b)) = 2 * f64_sig v * 2 ^ s"
    "2 * unat (sig (bd_minus b)) = (4 * f64_sig v - (if lower_closer v then 1 else 2)) * 2 ^ s"
  shows "of_nat (unat (sig (bd_plus b))) * S = 2 * of_nat (f64_sig v) * (2 ^ s * S) + (2 ^ s * S :: rat)"
    "of_nat (unat (sig (bd_w b))) * S = 2 * of_nat (f64_sig v) * (2 ^ s * S :: rat)"
    "of_nat (unat (sig (bd_minus b))) * S = 2 * of_nat (f64_sig v) * (2 ^ s * S) - (if lower_closer v then 1 / 2 else 1) * (2 ^ s * S :: rat)"
proof -
  have le: "(if lower_closer v then 1 else 2) \<le> 4 * f64_sig v" using f64_sig_bounds(1) [OF assms(1)] by simp
  have "(of_nat (2 * unat (sig (bd_minus b))) :: rat) = of_nat ((4 * f64_sig v - (if lower_closer v then 1 else 2)) * 2 ^ s)"
    by (simp only: assms(5))
  also have "\<dots> = (4 * of_nat (f64_sig v) - (if lower_closer v then 1 else 2)) * 2 ^ s"
    using of_nat_diff [OF le, where 'a = rat] by simp
  finally have m: "of_nat (unat (sig (bd_minus b))) = (2 * of_nat (f64_sig v) - (if lower_closer v then 1 / 2 else 1)) * (2 :: rat) ^ s"
    by (simp only: of_nat_mult of_nat_numeral) (simp add: field_simps split: if_splits)
  show "of_nat (unat (sig (bd_plus b))) * S = 2 * of_nat (f64_sig v) * (2 ^ s * S) + (2 ^ s * S :: rat)"
    "of_nat (unat (sig (bd_w b))) * S = 2 * of_nat (f64_sig v) * (2 ^ s * S :: rat)"
    by (simp_all only: assms(3,4)) (simp_all add: algebra_simps)
  show "of_nat (unat (sig (bd_minus b))) * S = 2 * of_nat (f64_sig v) * (2 ^ s * S) - (if lower_closer v then 1 / 2 else 1) * (2 ^ s * S :: rat)"
    unfolding m by (simp add: algebra_simps)
qed

lemma scaled_order:
  fixes y t h :: rat
  assumes "\<bar>of_nat p - (y + t)\<bar> < 1" "\<bar>of_nat w - y\<bar> < 1" "\<bar>of_nat m - (y - h * t)\<bar> < 1" "256 \<le> t" "1 / 2 \<le> h"
  shows "m + 100 \<le> w" "w + 100 \<le> p"
proof -
  have "128 \<le> h * t" using mult_mono [OF assms(5,4)] assms(5) by simp
  then have "(of_nat (m + 100) :: rat) \<le> of_nat w" using assms(2,3) by simp
  then show "m + 100 \<le> w" by (simp only: of_nat_le_iff)
  have "(of_nat (w + 100) :: rat) \<le> of_nat p" using assms(1,2,4) by simp
  then show "w + 100 \<le> p" by (simp only: of_nat_le_iff)
qed

text \<open>The scaled interval is wide enough for 17 digits.\<close>

lemma scaled_width:
  fixes t h :: rat
  assumes "\<bar>of_nat p - (2 * of_nat F * t + t)\<bar> < 1" "\<bar>of_nat m - (2 * of_nat F * t - h * t)\<bar> < 1" "256 \<le> t" "m + 2 \<le> p"
    "F < 2 ^ 53" "h = 1 \<or> h = 1 / 2 \<and> F = 2 ^ 52"
  shows "of_nat (p - 1) \<le> 10 ^ 16 * (of_nat (p - 1 - (m + 1)) :: rat)"
proof -
  have p: "(of_nat (p - 1) :: rat) = of_nat p - 1" "(of_nat (p - 1 - (m + 1)) :: rat) = of_nat p - of_nat m - 2"
    using assms(4) by (simp_all add: of_nat_diff)
  have d: "(1 + h) * t - 4 \<le> of_nat p - of_nat m - 2" using assms(1,2) unfolding distrib_right by linarith
  have u: "of_nat p - 1 \<le> 2 * of_nat F * t + t" using assms(1) by linarith
  have "2 * of_nat F * t + t \<le> 10 ^ 16 * ((1 + h) * t - 4)"
    using assms(6)
  proof
    assume h: "h = 1"
    have "F \<le> 2 ^ 53 - 1" using assms(5) by simp
    then have "(of_nat F :: rat) \<le> of_nat (2 ^ 53 - 1)" by (simp only: of_nat_le_iff)
    then have "of_nat F * t \<le> 9007199254740991 * t" using assms(3) by (intro mult_right_mono) simp_all
    moreover have "(10 :: rat) ^ 16 * ((1 + h) * t - 4) = 20000000000000000 * t - 40000000000000000" by (simp add: h)
    ultimately show ?thesis using assms(3) unfolding mult.assoc by linarith
  next
    assume h: "h = 1 / 2 \<and> F = 2 ^ 52"
    then have "(10 :: rat) ^ 16 * ((1 + h) * t - 4) = 15000000000000000 * t - 40000000000000000"
      "2 * of_nat F * t + t = 9007199254740993 * t" by simp_all
    then show ?thesis using assms(3) by linarith
  qed
  also have "\<dots> \<le> 10 ^ 16 * (of_nat p - of_nat m - 2)" using d by (intro mult_left_mono) simp_all
  finally show ?thesis unfolding p using u by linarith
qed

lemma digits_bound:
  assumes "digit_string buf" "of_nat (digits_value buf) * u \<le> (P :: rat)" "0 < u" "d < 10 * u" "P \<le> 10 ^ 16 * d"
  shows "length buf \<le> 17"
proof (rule ccontr)
  assume "\<not> length buf \<le> 17"
  then have "(10 :: nat) ^ 17 \<le> 10 ^ (length buf - 1)" by (intro power_increasing) simp_all
  then have "10 ^ 17 \<le> digits_value buf" using digits_value_ge [OF assms(1)] by linarith
  then have D: "(10 :: rat) ^ 17 \<le> of_nat (digits_value buf)" by (metis of_nat_le_iff of_nat_numeral of_nat_power)
  then have "10 ^ 17 * u \<le> of_nat (digits_value buf) * u" using assms(3) by (intro mult_right_mono) simp_all
  then show False using assms(2,4,5) by simp
qed

lemma unscale:
  fixes x y :: rat
  assumes "x * scale c k < y * 2 ^ n" "int n = - (b + c + 64)"
  shows "x * pow2 b < y * 10 powi - k"
proof -
  have "- c - 64 = int n + b" using assms(2) by simp
  then have "pow2 (- c - 64) = 2 ^ n * pow2 b" by (simp only: pow2_add pow2_of_nat)
  then have "x * pow2 b * 10 powi k * 2 ^ n < y * 2 ^ n" using assms(1) by (simp add: scale_def mult_ac)
  then have "x * pow2 b * 10 powi k < y" by simp
  then have "x * pow2 b * (10 powi k * 10 powi - k) < y * 10 powi - k"
    unfolding mult.assoc [symmetric] by (rule mult_strict_right_mono) simp
  moreover have "10 powi k * 10 powi - k = (1 :: rat)" by (simp add: power_int_minus)
  ultimately show ?thesis by simp
qed

lemma unscale':
  fixes x y :: rat
  assumes "y * 2 ^ n < x * scale c k" "int n = - (b + c + 64)"
  shows "y * 10 powi - k < x * pow2 b"
  using unscale [of "- x" c k "- y" n b] assms by simp

theorem grisu2_between:
  assumes "positive_double v"
  obtains buf e where "grisu2 v = Some (buf, e)" "digit_string buf" "length buf \<le> 17"
    "lower_midpoint v < of_nat (digits_value buf) * 10 powi e" "of_nat (digits_value buf) * 10 powi e < upper_midpoint v"
proof -
  let ?F = "f64_sig v" and ?E = "f64_bex v"
  note F = f64_sig_bounds [OF assms]
  obtain b s where b: "compute_boundaries v = Some b" "10 \<le> s" "s \<le> 62"
    "2 ^ 63 \<le> (2 * ?F + 1) * 2 ^ s" "(2 * ?F + 1) * 2 ^ s < 2 ^ 64"
    "unat (sig (bd_plus b)) = (2 * ?F + 1) * 2 ^ s"
    "unat (sig (bd_w b)) = 2 * ?F * 2 ^ s"
    "2 * unat (sig (bd_minus b)) = (4 * ?F - (if lower_closer v then 1 else 2)) * 2 ^ s"
    "bex (bd_plus b) = ?E - 1 - int s" "bex (bd_w b) = bex (bd_plus b)" "bex (bd_minus b) = bex (bd_plus b)"
    by (rule compute_boundaries_eq [OF assms])
  let ?e = "bex (bd_plus b)"
  have e: "- 1137 \<le> ?e" "?e \<le> 960" using F(3,4) b(2,3,9) by linarith+
  obtain f c k where p: "get_cached_power ?e = Some (f, c, k)" "2 ^ 63 \<le> unat f" "accurate (f, c, k)"
    "- 60 \<le> c + ?e + 64" "c + ?e + 64 \<le> - 32"
    by (rule get_cached_power_eq [OF e])
  define S where "S = scale c k"
  have S: "1 / 4 \<le> S" unfolding S_def by (rule scale_bounds(1) [OF p(3,2)])
  define t where "t = 2 ^ s * S"
  define h :: rat where "h = (if lower_closer v then 1 / 2 else 1)"
  let ?m = "\<lambda>x. unat (sig (diyfp_mul x (diyfp_of f c)))"
  note sb = scaled_boundaries [OF assms b(1,6,7,8), of S, folded t_def h_def]
  note near = diyfp_mul_scale [OF p(3), folded S_def]
  have np: "\<bar>of_nat (?m (bd_plus b)) - (2 * of_nat ?F * t + t)\<bar> < 1" using near [of "bd_plus b"] unfolding sb .
  have nw: "\<bar>of_nat (?m (bd_w b)) - 2 * of_nat ?F * t\<bar> < 1" using near [of "bd_w b"] unfolding sb .
  have nm: "\<bar>of_nat (?m (bd_minus b)) - (2 * of_nat ?F * t - h * t)\<bar> < 1" using near [of "bd_minus b"] unfolding sb .
  have t: "256 \<le> t"
  proof -
    have "(2 :: rat) ^ 10 \<le> 2 ^ s" using b(2) by (intro power_increasing) simp_all
    then have "2 ^ 10 * (1 / 4) \<le> t" unfolding t_def using S by (intro mult_mono) simp_all
    then show ?thesis by simp
  qed
  have h: "1 / 2 \<le> h" "h = 1 \<or> h = 1 / 2 \<and> ?F = 2 ^ 52" using F(6) by (simp_all add: h_def)
  note order = scaled_order [OF np nw nm t h(1)]
  define x y z where "x = sig (diyfp_mul (bd_minus b) (diyfp_of f c))" and "y = sig (diyfp_mul (bd_w b) (diyfp_of f c))"
    and "z = sig (diyfp_mul (bd_plus b) (diyfp_of f c))"
  note xyz = x_def [symmetric] y_def [symmetric] z_def [symmetric]
  note near' = np [unfolded xyz] nm [unfolded xyz] and order' = order [unfolded xyz]
  have x1: "unat (x + 1) = unat x + 1" using order' unat_less_64 [of y] by (subst unat_add_exact) simp_all
  have z1: "unat (z - 1) = unat z - 1" using order' by (subst unat_sub_exact) simp_all
  have big: "2 ^ 60 \<le> unat (z - 1)"
  proof -
    have "(of_nat (2 ^ 63) :: rat) \<le> of_nat ((2 * ?F + 1) * 2 ^ s)" using b(4) by (simp only: of_nat_le_iff)
    then have "2 ^ 63 * (1 / 4) \<le> of_nat ((2 * ?F + 1) * 2 ^ s) * S" using S by (intro mult_mono) simp_all
    then have "2 ^ 61 \<le> 2 * of_nat ?F * t + t" using sb(1) unfolding b(6) by simp
    then have "(2 ^ 61 :: rat) < of_nat (unat z) + 1" using near'(1) by linarith
    then have "(of_nat (2 ^ 61) :: rat) < of_nat (unat z + 1)" by simp
    then have "2 ^ 61 < unat z + 1" by (simp only: of_nat_less_iff)
    then show ?thesis unfolding z1 by simp
  qed
  let ?M = "\<lambda>g. diyfp_of g (?e + c + 64)"
  have gen: "grisu2 v = digit_gen (- k) (?M (x + 1)) (?M y) (?M (z - 1))"
  proof -
    have "diyfp_mul (bd_w b) (diyfp_of f c) = ?M y"
      using diyfp_mul_sig(2) [of "bd_w b" "diyfp_of f c"] by (simp add: y_def diyfp_of_def b(10))
    then show ?thesis using assms b(1,10,11) p(1)
      by (simp add: grisu2_def grisu2_scaled_def positive_double_def Let_def x_def z_def diyfp_mul_sig(2))
        (simp add: diyfp_of_def)
  qed
  obtain buf \<kappa> where g: "digit_gen (- k) (?M (x + 1)) (?M y) (?M (z - 1)) = Some (buf, - k + \<kappa>)" "digit_string buf"
    "of_nat (unat (x + 1)) \<le> of_nat (digits_value buf) * 10 powi \<kappa> * (2 :: rat) ^ nat (- (?e + c + 64))"
    "of_nat (digits_value buf) * 10 powi \<kappa> * (2 :: rat) ^ nat (- (?e + c + 64)) \<le> of_nat (unat (z - 1))"
    "of_nat (unat (z - 1) - unat (x + 1)) < 10 * 10 powi \<kappa> * (2 :: rat) ^ nat (- (?e + c + 64))"
    by (rule digit_gen_spec [of "?M (x + 1)" "?M (z - 1)" "?M y" "- k"])
      (use p(4,5) order' big in \<open>simp_all add: diyfp_of_def word_le_nat_alt word_less_nat_alt x1 z1\<close>)
  define n where "n = nat (- (?e + c + 64))"
  have n: "int n = - (?e + c + 64)" using p(5) by (simp add: n_def)
  define D where "D = (of_nat (digits_value buf) :: rat)"
  note g' = g(3,4,5) [folded n_def D_def]
  have len: "length buf \<le> 17"
  proof (rule digits_bound [OF g(2)])
    show "of_nat (digits_value buf) * (10 powi \<kappa> * 2 ^ n) \<le> (of_nat (unat z - 1) :: rat)"
      using g'(2) by (simp only: D_def z1 mult.assoc)
    show "of_nat (unat z - 1 - (unat x + 1)) < 10 * (10 powi \<kappa> * (2 :: rat) ^ n)"
      using g'(3) by (simp only: x1 z1 mult.assoc)
    show "(of_nat (unat z - 1) :: rat) \<le> 10 ^ 16 * of_nat (unat z - 1 - (unat x + 1))"
      by (rule scaled_width [OF near' t _ F(2) h(2)]) (use order' in simp)
  qed simp
  have lo: "of_nat (unat (sig (bd_minus b))) * scale c k < D * 10 powi \<kappa> * 2 ^ n"
  proof -
    have "of_nat (unat (sig (bd_minus b))) * S < of_nat (unat (x + 1))"
      using near'(2) unfolding sb(3) x1 by simp
    then show ?thesis using g'(1) unfolding S_def by linarith
  qed
  have hi: "D * 10 powi \<kappa> * 2 ^ n < of_nat (unat (sig (bd_plus b))) * scale c k"
  proof -
    have "of_nat (unat (z - 1)) < of_nat (unat (sig (bd_plus b))) * S"
      using near'(1) order' unfolding sb(1) z1 by (simp add: of_nat_diff)
    then show ?thesis using g'(2) unfolding S_def by linarith
  qed
  have split: "D * 10 powi \<kappa> * 10 powi - k = D * 10 powi (- k + \<kappa>)"
    using power_int_add [of "10 :: rat" \<kappa> "- k"] by (simp add: mult.assoc)
  have pe: "2 ^ s * pow2 ?e = pow2 (?E - 1)"
    using pow2_add [of "int s" ?e] by (simp add: pow2_of_nat b(9))
  have up: "of_nat (unat (sig (bd_plus b))) * pow2 ?e = upper_midpoint v"
    by (simp only: b(6) upper_midpoint_def pe [symmetric]) (simp add: algebra_simps)
  have low: "of_nat (unat (sig (bd_minus b))) * pow2 ?e = lower_midpoint v"
  proof -
    have "of_nat (unat (sig (bd_minus b))) = (2 * of_nat ?F - h) * (2 :: rat) ^ s"
      using scaled_boundaries(3) [OF assms b(1,6,7,8), of 1, folded h_def] by (simp add: algebra_simps)
    then have "of_nat (unat (sig (bd_minus b))) * pow2 ?e = (2 * of_nat ?F - h) * pow2 (?E - 1)"
      by (simp only: mult.assoc pe)
    also have "pow2 (?E - 1) = 2 * pow2 (?E - 2)" using pow2_split [of "?E - 2" "?E - 1"] by simp
    also have "(2 * of_nat ?F - h) * (2 * pow2 (?E - 2)) = lower_midpoint v"
      by (cases "lower_closer v") (simp_all add: lower_midpoint_def h_def algebra_simps)
    finally show ?thesis .
  qed
  have "lower_midpoint v < D * 10 powi (- k + \<kappa>)" using unscale [OF lo n] unfolding low split .
  moreover have "D * 10 powi (- k + \<kappa>) < upper_midpoint v" using unscale' [OF hi n] unfolding up split .
  ultimately show thesis using that [of buf "- k + \<kappa>"] g(1,2) len unfolding gen D_def by blast
qed

end
