(* ===== verification/Dtoa_Round.thy ===== *)
theory Dtoa_Round
  imports Dtoa_Exact
begin

text \<open>
  Rounding to nearest brings every number between the midpoints back to the bits of the double.
\<close>

lemma bexp_eqI:
  assumes "pow2 j \<le> q" "q < pow2 (j + 1)"
  shows "bexp q = j"
proof -
  have "0 < q" using assms(1) pow2_pos [of j] by linarith
  note b = bexp_bounds [OF this]
  have "pow2 (bexp q) < pow2 (j + 1)" "pow2 j < pow2 (bexp q + 1)" using b assms by linarith+
  then have "bexp q < j + 1" "j < bexp q + 1" by (meson not_le pow2_le_iff)+
  then show ?thesis by simp
qed

lemma bexp_less:
  assumes "0 < q" "q < pow2 j"
  shows "bexp q < j"
  using bexp_bounds(1) [OF assms(1)] assms(2) by (meson le_less_trans not_le pow2_le_iff)

lemma round_even_near:
  assumes "\<bar>x - of_int n\<bar> < 1 / 2"
  shows "round_even x = n"
proof -
  have n: "of_int n - 1 / 2 < x" "x < of_int n + 1 / 2" using assms by linarith+
  show ?thesis
  proof (cases "of_int n \<le> x")
    case True
    then have "\<lfloor>x\<rfloor> = n" using n(2) by (intro floor_unique) linarith+
    then show ?thesis using n by (simp add: round_even_def)
  next
    case False
    then have "\<lfloor>x\<rfloor> = n - 1" using n(1) by (intro floor_unique; simp)
    then show ?thesis using n by (simp add: round_even_def)
  qed
qed

lemma f64_round_at:
  assumes "0 < q" "f64_ulp q = u" "\<bar>q - of_int n * u\<bar> < u / 2" "of_int n * u < 2 ^ 1024" 
  shows "f64_round q = Some (of_int n * u)"
proof -
  have u: "0 < u" using assms(2) by (auto simp: f64_ulp_def)
  have "\<bar>q / u - of_int n\<bar> = \<bar>q - of_int n * u\<bar> / u" using u by (simp add: abs_div_pos diff_divide_distrib)
  also have "\<dots> < u / 2 / u" using assms(3) u by (intro divide_strict_right_mono)
  finally have "round_even (q / u) = n" using u by (intro round_even_near) simp
  then show ?thesis using assms by (simp add: f64_round_def)
qed

lemma f64_sig_rat:
  assumes "positive_double v"
  shows "0 < (of_nat (f64_sig v) :: rat)" "of_nat (f64_sig v) \<le> (9007199254740991 :: rat)"
    "f64_bex v = - 1074 \<or> 4503599627370496 \<le> (of_nat (f64_sig v) :: rat)"
    "- 1074 < f64_bex v \<Longrightarrow> \<not> lower_closer v \<Longrightarrow> 4503599627370497 \<le> (of_nat (f64_sig v) :: rat)"
proof -
  note F = f64_sig_bounds [OF assms]
  have c: "(of_nat m :: rat) \<le> of_nat n" if "m \<le> n" for m n :: nat using that by simp
  show "0 < (of_nat (f64_sig v) :: rat)" using F(1) by simp
  show "of_nat (f64_sig v) \<le> (9007199254740991 :: rat)" using c [of "f64_sig v" 9007199254740991] F(2) by simp
  show "f64_bex v = - 1074 \<or> 4503599627370496 \<le> (of_nat (f64_sig v) :: rat)"
    using c [of 4503599627370496 "f64_sig v"] F(5) by auto
  assume a: "- 1074 < f64_bex v" "\<not> lower_closer v"
  then have "1 < unat v div 2 ^ 52" by (simp add: f64_bex_def split: if_splits)
  moreover from this a(2) have "unat v mod 2 ^ 52 \<noteq> 0" by (simp add: lower_closer_def)
  ultimately have "2 ^ 52 < f64_sig v" by (auto simp: f64_sig_def)
  then show "4503599627370497 \<le> (of_nat (f64_sig v) :: rat)" using c [of 4503599627370497 "f64_sig v"] by simp
qed

lemma f64_value_finite:
  assumes "positive_double v"
  shows "of_nat (f64_sig v) * pow2 (f64_bex v) < 2 ^ 1024"
proof -
  have "of_nat (f64_sig v) * pow2 (f64_bex v) \<le> 9007199254740991 * pow2 971"
    using f64_sig_rat(2) [OF assms] f64_sig_bounds(4) [OF assms] by (intro mult_mono pow2_mono) simp_all
  also have "\<dots> < 9007199254740992 * pow2 971" by simp
  also have "\<dots> = pow2 (53 + 971)" by (simp only: pow2_add) (simp add: pow2_def)
  also have "\<dots> = 2 ^ 1024" using pow2_of_nat [of 1024] by simp
  finally show ?thesis .
qed

theorem f64_round_between:
  assumes "positive_double v" "lower_midpoint v < q" "q < upper_midpoint v"
  shows "f64_round q = Some (of_nat (f64_sig v) * pow2 (f64_bex v))"
proof -
  define G where "G = (of_nat (f64_sig v) :: rat)"
  define E where "E = f64_bex v"
  define u where "u = pow2 (E - 2)"
  note G = f64_sig_rat [OF assms(1), folded G_def E_def]
  have E: "- 1074 \<le> E" using f64_sig_bounds(3) [OF assms(1)] by (simp add: E_def)
  have u: "0 < u" "pow2 (E - 1) = 2 * u" "pow2 E = 4 * u"
    using pow2_split [of "E - 2" "E - 1"] pow2_split [of "E - 2" E] by (simp_all add: u_def)
  define y where "y = G * u"
  have lim: "(4 * y - (if lower_closer v then 1 else 2) * u) < q" "q < 4 * y + 2 * u"
    using assms(2,3) unfolding lower_midpoint_def upper_midpoint_def
    by (simp_all add: y_def u(2) G_def [symmetric] E_def [symmetric] u_def [symmetric] algebra_simps)
  have y: "0 < y" "y \<le> 9007199254740991 * u" using G(1,2) u(1) by (simp_all add: y_def)
  have y52: "E = - 1074 \<or> 4503599627370496 * u \<le> y" using G(3) u(1) by (auto simp: y_def)
  have q0: "0 < q"
  proof (cases "E = - 1074")
    case False
    then show ?thesis using y52 u(1) lim(1) by (simp split: if_splits)
  next
    case True
    then have "\<not> lower_closer v" using f64_sig_bounds(6) [OF assms(1)] by (auto simp: E_def)
    moreover have "1 \<le> G" using f64_sig_bounds(1) [OF assms(1)] by (simp add: G_def)
    then have "u \<le> y" using u(1) by (simp add: y_def)
    ultimately show ?thesis using lim(1) u(1) by simp
  qed
  have top: "pow2 (E + 53) = 9007199254740992 * (4 * u)" using pow2_split [of E "E + 53"] by (simp add: u)
  have mid: "pow2 (E + 52) = 4503599627370496 * (4 * u)" using pow2_split [of E "E + 52"] by (simp add: u)
  have q53: "q < pow2 (E + 53)" unfolding top using lim(2) y(2) u(1) by linarith
  have b53: "bexp q < E + 53" by (rule bexp_less [OF q0 q53])
  have fin: "of_int (int (f64_sig v)) * pow2 E < 2 ^ 1024" using f64_value_finite [OF assms(1)] by (simp add: E_def)
  have goal: "f64_round q = Some (G * pow2 E)" if "f64_ulp q = pow2 E"
    using f64_round_at [OF q0 that _ fin] lim u(1) by (simp add: G_def [symmetric] y_def u abs_less_iff split: if_splits)
  show ?thesis
    unfolding G_def [symmetric] E_def [symmetric]
  proof (cases "E = - 1074 \<or> pow2 (E + 52) \<le> q")
    case True
    have "max (bexp q) (- 1022) = E + 52"
    proof (cases "pow2 (E + 52) \<le> q")
      case True
      then have "bexp q = E + 52" using q53 by (intro bexp_eqI) (simp_all add: add.commute)
      then show ?thesis using E by simp
    next
      case False
      then show ?thesis using True bexp_less [OF q0, of "E + 52"] by simp
    qed
    then have "f64_ulp q = pow2 E" by (simp add: f64_ulp_def)
    then show "f64_round q = Some (G * pow2 E)" by (rule goal)
  next
    case False
    have c: "lower_closer v"
    proof (rule ccontr)
      assume n: "\<not> lower_closer v"
      then have "4503599627370497 \<le> G" using G(4) E False by simp
      then have "4503599627370497 * u \<le> y" unfolding y_def using u(1) by (intro mult_right_mono) simp_all
      then show False using n lim(1) u(1) False unfolding mid by simp
    qed
    then have Gc: "G = 4503599627370496" using f64_sig_bounds(6) [OF assms(1)] by (simp add: G_def)
    have yc: "y = 4503599627370496 * u" by (simp add: y_def Gc)
    have low: "pow2 (E + 51) = 4503599627370496 * (2 * u)" using pow2_split [of "E - 1" "E + 51"] by (simp add: u)
    have "bexp q = E + 51"
    proof (rule bexp_eqI)
      show "pow2 (E + 51) \<le> q" unfolding low using lim(1) c yc u(1) by simp
      have "E + 51 + 1 = E + 52" by simp
      then show "q < pow2 (E + 51 + 1)" using False by (simp only: not_le de_Morgan_disj)
    qed
    then have ulp: "f64_ulp q = pow2 (E - 1)" using E False by (simp add: f64_ulp_def)
    have eq: "of_int (2 ^ 53) * pow2 (E - 1) = G * pow2 E" by (simp add: Gc u)
    have "f64_round q = Some (of_int (2 ^ 53) * pow2 (E - 1))"
    proof (rule f64_round_at [OF q0 ulp])
      show "\<bar>q - of_int (2 ^ 53) * pow2 (E - 1)\<bar> < pow2 (E - 1) / 2"
        using lim c yc False u(1) unfolding mid u(2) by (simp add: abs_less_iff)
      show "of_int (2 ^ 53) * pow2 (E - 1) < 2 ^ 1024" unfolding eq using fin by (simp add: G_def)
    qed
    then show "f64_round q = Some (G * pow2 E)" unfolding eq .
  qed
qed

lemma bits_split: "uint v = int (unat v div 2 ^ 52) * 2 ^ 52 + int (unat v mod 2 ^ 52)" for v :: "64 word"
proof -
  have "unat v = unat v div 2 ^ 52 * 2 ^ 52 + unat v mod 2 ^ 52" by (simp only: div_mult_mod_eq)
  then have "int (unat v) = int (unat v div 2 ^ 52 * 2 ^ 52 + unat v mod 2 ^ 52)" by (rule arg_cong)
  then show ?thesis by (simp only: uint_nat of_nat_add of_nat_mult of_nat_power of_nat_numeral)
qed

theorem f64_bits_between:
  assumes "positive_double v" "lower_midpoint v < q" "q < upper_midpoint v"
  shows "f64_bits q = uint v"
proof -
  define E where "E = f64_bex v"
  let ?F = "f64_sig v"
  note F = f64_sig_bounds [OF assms(1), folded E_def]
  have r: "f64_round q = Some (of_nat ?F * pow2 E)" using f64_round_between [OF assms] by (simp add: E_def)
  have nz: "of_nat ?F * pow2 E \<noteq> 0" "0 < of_nat ?F * pow2 E" using F(1) by simp_all
  show ?thesis
  proof (cases "2 ^ 52 \<le> ?F")
    case True
    have "(of_nat (2 ^ 52) :: rat) \<le> of_nat ?F" "(of_nat ?F :: rat) < of_nat (2 ^ 53)"
      using True F(2) by (simp_all only: of_nat_le_iff of_nat_less_iff)
    then have "(2 :: rat) ^ 52 * pow2 E \<le> of_nat ?F * pow2 E" "of_nat ?F * pow2 E < (2 :: rat) ^ 53 * pow2 E"
      by (simp_all add: mult_right_mono)
    moreover have "pow2 (E + 52) = 2 ^ 52 * pow2 E" "pow2 (E + 52 + 1) = 2 ^ 53 * pow2 E"
      using pow2_split [of E "E + 52"] pow2_split [of E "E + 52 + 1"] by simp_all
    ultimately have b: "bexp (of_nat ?F * pow2 E) = E + 52" by (intro bexp_eqI) (simp_all only:)
    have div: "of_nat ?F * pow2 E / pow2 (E + 52 - 52) = of_int (int ?F)" by simp
    have fl: "\<lfloor>of_nat ?F * pow2 E / pow2 (bexp (of_nat ?F * pow2 E) - 52)\<rfloor> = int ?F"
      unfolding b div by (rule floor_of_int)
    have expo: "unat v div 2 ^ 52 \<noteq> 0" using True F(2) by (auto simp: f64_sig_def split: if_splits)
    have "f64_bits q = (E + 52 + 1023) * 2 ^ 52 + (int ?F - 2 ^ 52)"
      using F(3) nz unfolding f64_bits_def r Let_def option.case fl b by simp
    also have "\<dots> = uint v" using expo unfolding bits_split E_def f64_bex_def f64_sig_def by simp
    finally show ?thesis .
  next
    case False
    then have E: "E = - 1074" using F(5) by blast
    have "(of_nat ?F :: rat) < of_nat (2 ^ 52)" using False by (simp only: of_nat_less_iff not_le)
    then have "of_nat ?F * pow2 E < (2 :: rat) ^ 52 * pow2 E" by simp
    also have "\<dots> = pow2 (- 1022)" using pow2_split [of "- 1074" "- 1022"] by (simp add: E)
    finally have b: "bexp (of_nat ?F * pow2 E) < - 1022" using nz(2) by (intro bexp_less)
    have div: "of_nat ?F * pow2 E / pow2 (- 1074) = of_int (int ?F)" by (simp add: E)
    have fl: "\<lfloor>of_nat ?F * pow2 E / pow2 (- 1074)\<rfloor> = int ?F" unfolding div by (rule floor_of_int)
    have expo: "unat v div 2 ^ 52 = 0" using False by (auto simp: f64_sig_def split: if_splits)
    have "f64_bits q = int ?F" using b nz unfolding f64_bits_def r option.case fl by simp
    also have "\<dots> = uint v" using expo unfolding bits_split f64_sig_def by simp
    finally show ?thesis .
  qed
qed

end
