(* ===== verification/Dtoa_Text.thy ===== *)
theory Dtoa_Text
  imports Dtoa_Round Parser_Roundtrip
begin

text \<open>
  The text that \<open>format_buffer\<close> makes of digits and a decimal exponent: it is a JSON number with
  a fraction or an exponent, of the value that the digits stand for.
\<close>

subsection \<open>Decimal numerals\<close>

definition decimal_text :: "string \<Rightarrow> string \<Rightarrow> (bool \<times> string) option \<Rightarrow> string" where
  "decimal_text i f x =
     i @ (if f = [] then [] else CHR ''.'' # f) @
     (case x of None \<Rightarrow> [] | Some (neg, ds) \<Rightarrow> CHR ''e'' # (if neg then CHR ''-'' else CHR ''+'') # ds)"

definition exponent_value :: "(bool \<times> string) option \<Rightarrow> int" where
  "exponent_value x =
     (case x of None \<Rightarrow> 0 | Some (neg, ds) \<Rightarrow> (if neg then - int (digits_value ds) else int (digits_value ds)))"

definition decimal_parts :: "string \<Rightarrow> string \<Rightarrow> (bool \<times> string) option \<Rightarrow> bool" where
  "decimal_parts i f x \<longleftrightarrow>
     i \<noteq> [] \<and> (hd i = CHR ''0'' \<longrightarrow> i = ''0'') \<and> (\<forall>c \<in> set (i @ f). is_digit c) \<and> (f = [] \<longrightarrow> x \<noteq> None) \<and>
     (\<forall>neg ds. x = Some (neg, ds) \<longrightarrow> ds \<noteq> [] \<and> (\<forall>c \<in> set ds. is_digit c))"

lemma is_digit_marks [simp]:
  "\<not> is_digit CHR ''.''" "\<not> is_digit CHR ''e''" "\<not> is_digit CHR ''-''" "\<not> is_digit CHR ''+''"
  by (simp_all add: is_digit_def)

lemma numeral_value_decimal:
  assumes "decimal_parts i f x"
  shows "numeral_value (decimal_text i f x) = of_nat (digits_value (i @ f)) * 10 powi (exponent_value x - int (length f))"
proof -
  let ?x = "case x of None \<Rightarrow> [] | Some (neg, ds) \<Rightarrow> CHR ''e'' # (if neg then CHR ''-'' else CHR ''+'') # ds"
  have d: "\<forall>c \<in> set i. is_digit c" "\<forall>c \<in> set f. is_digit c" using assms by (simp_all add: decimal_parts_def)
  have x: "takeWhile is_digit ?x = []" "dropWhile is_digit ?x = ?x" by (auto split: option.splits)
  have i: "takeWhile is_digit (decimal_text i f x) = i"
    "dropWhile is_digit (decimal_text i f x) = (if f = [] then [] else CHR ''.'' # f) @ ?x"
    using d(1) x by (simp_all add: decimal_text_def takeWhile_append dropWhile_append)
  have f: "takeWhile is_digit (f @ ?x) = f" "dropWhile is_digit (f @ ?x) = ?x"
    using d(2) x by (simp_all add: takeWhile_append dropWhile_append)
  have p: "(if 0 \<le> (y :: int) then m * 10 ^ nat y else m / 10 ^ nat (- y)) = m * 10 powi y" for m :: rat and y
    by (simp add: power_int_def field_simps)
  have e: "(case ?x of e # c # r' \<Rightarrow> if c = CHR ''-'' then - int (digits_value r')
      else if c = CHR ''+'' then int (digits_value r') else int (digits_value (c # r')) | _ \<Rightarrow> 0) = exponent_value x"
    by (auto simp: exponent_value_def split: option.splits)
  show ?thesis
  proof (cases "f = []")
    case True
    have "(case ?x of [] \<Rightarrow> [] | c # r' \<Rightarrow> if c = CHR ''.'' then takeWhile is_digit r' else []) = []"
      "(case ?x of [] \<Rightarrow> [] | c # r' \<Rightarrow> if c = CHR ''.'' then dropWhile is_digit r' else ?x) = ?x"
      by (auto split: option.splits)
    then show ?thesis unfolding numeral_value_def i Let_def using True e by (simp only: p append_Nil if_True simp_thms)
  next
    case False
    then show ?thesis unfolding numeral_value_def i Let_def using f e
      by (simp only: p append_Cons append_Nil if_False list.case if_True simp_thms)
  qed
qed

subsection \<open>Scanning\<close>

lemma number_from_run:
  assumes "\<forall>c \<in> set ds. is_digit c" "st = N_any1 \<or> st = N_decimal2 \<or> st = N_any2"
  shows "number_from st nt buf (ds @ s) = number_from st nt (buf @ ds) s"
  using assms
proof (induction ds arbitrary: buf)
  case (Cons c ds)
  then have "number_next st c = Some st" "enter_state st nt = nt" by (auto simp: number_next_defs enter_state_def)
  then show ?case using Cons by simp
qed simp

lemma ends_float:
  assumes "ends t" "st = N_decimal2 \<or> st = N_any2"
  shows "number_from st nt buf t = (Some (nt, buf), t)"
proof (cases t)
  case Nil
  then show ?thesis using assms(2) by (auto simp: number_accepts_def)
next
  case (Cons c s)
  have "number_next st c = None" using assms by (auto simp: ends_def Cons number_next_defs is_digit_def)
  then show ?thesis using assms(2) by (auto simp: Cons number_accepts_def)
qed

lemma number_from_step:
  "number_next st c = Some st' \<Longrightarrow> number_from st nt buf (c # s) = number_from st' (enter_state st' nt) (buf @ [c]) s"
  by simp

lemma scan_exponent:
  assumes "ends t" "ds \<noteq> []" "\<forall>c \<in> set ds. is_digit c"
    "st = N_zero \<or> st = N_any1 \<or> st = N_decimal2" "g = CHR ''+'' \<or> g = CHR ''-''"
  shows "number_from st nt buf (CHR ''e'' # g # ds @ t) = (Some (Num_float, buf @ CHR ''e'' # g # ds), t)"
proof -
  obtain d ds' where ds: "ds = d # ds'" using assms(2) by (cases ds) auto
  have d: "is_digit d" "\<forall>c \<in> set ds'. is_digit c" using assms(3) ds by simp_all
  have "number_next st CHR ''e'' = Some N_exponent" using assms(4) by (auto simp: number_next_defs)
  moreover have "number_next N_exponent g = Some N_sign" using assms(5) by (auto simp: number_next_defs)
  moreover have "number_next N_sign d = Some N_any2" using d by (simp add: number_next_defs)
  ultimately show ?thesis
    using number_from_run [OF d(2), of N_any2 Num_float "buf @ [CHR ''e'', g, d]" t] ends_float [OF assms(1), of N_any2]
    by (simp add: ds enter_state_def)
qed

text \<open>After the integer digits.\<close>

lemma scan_fraction:
  assumes "ends t" "decimal_parts i f x" "st = N_zero \<or> st = N_any1"
  shows "number_from st nt (p @ i) ((if f = [] then [] else CHR ''.'' # f) @
      (case x of None \<Rightarrow> [] | Some (neg, ds) \<Rightarrow> CHR ''e'' # (if neg then CHR ''-'' else CHR ''+'') # ds) @ t) =
    (Some (Num_float, p @ decimal_text i f x), t)"
proof (cases f)
  case Nil
  then obtain neg ds where x: "x = Some (neg, ds)" "ds \<noteq> []" "\<forall>c \<in> set ds. is_digit c"
    using assms(2) by (auto simp: decimal_parts_def)
  have "number_from st nt (p @ i) (CHR ''e'' # (if neg then CHR ''-'' else CHR ''+'') # ds @ t) =
      (Some (Num_float, (p @ i) @ CHR ''e'' # (if neg then CHR ''-'' else CHR ''+'') # ds), t)"
    by (rule scan_exponent [OF assms(1) x(2,3)]) (use assms(3) in auto)
  then show ?thesis
    by (simp only: Nil x(1) decimal_text_def if_True append_Nil append_Cons append_assoc option.case prod.case simp_thms)
next
  case (Cons c f')
  have c: "is_digit c" "\<forall>c \<in> set f'. is_digit c" using assms(2) Cons by (simp_all add: decimal_parts_def)
  have n: "number_next st CHR ''.'' = Some N_decimal1" "number_next N_decimal1 c = Some N_decimal2"
    using assms(3) c by (auto simp: number_next_defs exponent_mark_def)
  let ?x = "case x of None \<Rightarrow> [] | Some (neg, ds) \<Rightarrow> CHR ''e'' # (if neg then CHR ''-'' else CHR ''+'') # ds"
  have "number_from st nt (p @ i) (CHR ''.'' # c # f' @ ?x @ t) = number_from N_decimal2 Num_float (p @ i @ CHR ''.'' # f) (?x @ t)"
    unfolding number_from_step [OF n(1)] number_from_step [OF n(2)]
    by (subst number_from_run [OF c(2)]) (simp_all only: Cons append_assoc append_Cons append_Nil enter_state_def number_state.case simp_thms)
  also have "\<dots> = (Some (Num_float, p @ decimal_text i f x), t)"
  proof (cases x)
    case None
    then show ?thesis using ends_float [OF assms(1)] by (simp add: Cons decimal_text_def)
  next
    case (Some y)
    then obtain neg ds where x: "x = Some (neg, ds)" "ds \<noteq> []" "\<forall>c \<in> set ds. is_digit c"
      using assms(2) by (cases y) (auto simp: decimal_parts_def)
    have "number_from N_decimal2 Num_float (p @ i @ CHR ''.'' # f) (CHR ''e'' # (if neg then CHR ''-'' else CHR ''+'') # ds @ t) =
        (Some (Num_float, (p @ i @ CHR ''.'' # f) @ CHR ''e'' # (if neg then CHR ''-'' else CHR ''+'') # ds), t)"
      by (rule scan_exponent [OF assms(1) x(2,3)]) auto
    then show ?thesis
      by (simp only: Cons x(1) decimal_text_def if_False list.distinct append_Nil append_Cons append_assoc option.case prod.case simp_thms)
  qed
  finally show ?thesis by (simp only: Cons list.distinct if_False append_Cons append_assoc)
qed

lemma scan_decimal:
  assumes "ends t" "decimal_parts i f x"
  shows "scan_token (decimal_text i f x @ t) = (T_float (strtod (decimal_text i f x)), t)"
    "scan_token (CHR ''-'' # decimal_text i f x @ t) = (T_float (strtod (CHR ''-'' # decimal_text i f x)), t)"
proof -
  obtain c i' where i: "i = c # i'" using assms(2) by (cases i) (auto simp: decimal_parts_def)
  have c: "is_digit c" "\<forall>c \<in> set i'. is_digit c" "c = CHR ''0'' \<Longrightarrow> i' = []"
    using assms(2) by (auto simp: i decimal_parts_def)
  have nm: "c \<noteq> CHR ''-''" using c(1) by auto
  define r where "r = (if f = [] then [] else CHR ''.'' # f) @
      (case x of None \<Rightarrow> [] | Some (neg, ds) \<Rightarrow> CHR ''e'' # (if neg then CHR ''-'' else CHR ''+'') # ds) @ t"
  let ?st = "if c = CHR ''0'' then N_zero else N_any1"
  have run: "number_from ?st nt (p @ [c]) (i' @ r) = (Some (Num_float, p @ decimal_text i f x), t)" for nt p
  proof -
    have "number_from ?st nt (p @ [c]) (i' @ r) = number_from ?st nt (p @ i) r"
      using c(2,3) number_from_run [OF c(2), of N_any1 nt "p @ [c]" r] by (simp add: i)
    then show ?thesis using scan_fraction [OF assms, of ?st nt p, folded r_def] by simp
  qed
  have whole: "decimal_text i f x @ t = c # i' @ r" by (simp add: decimal_text_def i r_def)
  have st: "(if c = CHR ''-'' then N_minus else if c = CHR ''0'' then N_zero else N_any1) = ?st" using nm by simp
  have "enter_state ?st nt = nt" for nt by (simp add: enter_state_def)
  then have "scan_number c (i' @ r) = (T_float (strtod (decimal_text i f x)), t)"
    using run [of Num_unsigned "[]"] by (simp only: scan_number_def st Let_def append_Nil option.case prod.case number_token_def number_type.case)
  then show "scan_token (decimal_text i f x @ t) = (T_float (strtod (decimal_text i f x)), t)"
    unfolding whole using c(1) by (simp only: scan_token_number simp_thms)
  have n: "number_next N_minus c = Some ?st" using c(1) by (simp add: number_next_defs)
  have "scan_number CHR ''-'' (c # i' @ r) = (T_float (strtod (CHR ''-'' # decimal_text i f x)), t)"
    using run [of Num_integer "''-''"] \<open>\<And>nt. enter_state ?st nt = nt\<close>
    by (simp only: scan_number_def Let_def if_True simp_thms number_from_step [OF n] enter_state_def [of N_minus] number_state.case
        append_Cons append_Nil option.case prod.case number_token_def number_type.case)
  then show "scan_token (CHR ''-'' # decimal_text i f x @ t) = (T_float (strtod (CHR ''-'' # decimal_text i f x)), t)"
    unfolding whole by (simp only: scan_token_number simp_thms)
qed

subsection \<open>The text of digits and an exponent\<close>

definition exponent_digits :: "nat \<Rightarrow> string" where
  "exponent_digits k =
     (if k < 10 then [CHR ''0'', digit_char k]
      else if k < 100 then [digit_char (k div 10), digit_char (k mod 10)]
      else [digit_char (k div 100), digit_char (k mod 100 div 10), digit_char (k mod 100 mod 10)])"

lemma exponent_digits_spec:
  assumes "k < 1000"
  shows "digits_value (exponent_digits k) = k" "\<forall>c \<in> set (exponent_digits k). is_digit c" "exponent_digits k \<noteq> []"
    "length (exponent_digits k) \<le> 3"
proof -
  have b: "k div 100 < 10" "k mod 100 div 10 < 10" "k mod 100 mod 10 < 10" "k < 100 \<Longrightarrow> k div 10 < 10" "k mod 10 < 10"
    using assms by (simp_all add: less_mult_imp_div_less)
  have "k div 100 * 100 + k mod 100 = k" "k mod 100 div 10 * 10 + k mod 100 mod 10 = k mod 100"
    by (simp_all only: div_mult_mod_eq)
  then have "(k div 100 * 10 + k mod 100 div 10) * 10 + k mod 100 mod 10 = k" unfolding distrib_right by linarith
  moreover have "k div 10 * 10 + k mod 10 = k" by (simp only: div_mult_mod_eq)
  ultimately show "digits_value (exponent_digits k) = k"
    using b by (simp add: exponent_digits_def digits_value_def)
  show "\<forall>c \<in> set (exponent_digits k). is_digit c"
    using b by (auto simp: exponent_digits_def is_digit_def)
qed (auto simp: exponent_digits_def)

lemma append_exponent_eq:
  assumes "- 1000 < e" "e < 1000"
  shows "append_exponent e = Some ((if e < 0 then CHR ''-'' else CHR ''+'') # exponent_digits (nat \<bar>e\<bar>))"
  using assms by (simp add: append_exponent_def exponent_digits_def Let_def)

lemma digits_value_leading: "digits_value (replicate n CHR ''0'' @ s) = digits_value s"
proof (induction n)
  case (Suc n)
  then show ?case by (simp add: digits_value_def)
qed simp

lemma digits_value_zeros: "digits_value (s @ replicate n CHR ''0'') = digits_value s * 10 ^ n"
  using digits_value_leading [of n "[]"] by (simp add: digits_value_append)

theorem format_buffer_spec:
  assumes "digit_string buf" "length buf \<le> 17" "- 999 < int (length buf) + e" "int (length buf) + e < 1000"
  obtains i f x where "format_buffer buf e (- 4) 15 = Some (decimal_text i f x)" "decimal_parts i f x"
    "of_nat (digits_value (i @ f)) * 10 powi (exponent_value x - int (length f)) = of_nat (digits_value buf) * (10 :: rat) powi e"
    "length (decimal_text i f x) \<le> 23"
proof -
  define k n where "k = int (length buf)" and "n = int (length buf) + e"
  have buf: "buf \<noteq> []" "\<forall>c \<in> set buf. is_digit c" "hd buf \<noteq> CHR ''0''" using assms(1) by (simp_all add: digit_string_def)
  have zeros: "\<forall>c \<in> set (replicate m CHR ''0''). is_digit c" for m by (simp add: is_digit_def)
  have part: "\<forall>c \<in> set (take m buf). is_digit c" "\<forall>c \<in> set (drop m buf). is_digit c" for m
    using buf(2) by (auto dest: in_set_takeD in_set_dropD)
  show thesis
  proof (cases "n \<le> 15 \<and> k \<le> n")
    case True
    let ?i = "buf @ replicate (nat e) CHR ''0''"
    have e: "0 \<le> e" using True by (simp add: k_def n_def)
    show thesis
    proof (rule that [of ?i "''0''" None])
      show "format_buffer buf e (- 4) 15 = Some (decimal_text ?i ''0'' None)"
        using True by (simp add: format_buffer_def Let_def decimal_text_def k_def n_def)
      show "decimal_parts ?i ''0'' None" using buf zeros by (auto simp: decimal_parts_def is_digit_def)
      show "length (decimal_text ?i ''0'' None) \<le> 23"
        using True e by (simp add: decimal_text_def k_def n_def)
      show "of_nat (digits_value (?i @ ''0'')) * 10 powi (exponent_value None - int (length ''0'')) =
          of_nat (digits_value buf) * (10 :: rat) powi e"
      proof -
        have "digits_value (?i @ ''0'') = digits_value buf * 10 ^ nat e * 10"
          by (simp only: digits_value_last digits_value_zeros) simp
        then show ?thesis using e by (simp add: exponent_value_def power_int_def del: append_assoc)
      qed
    qed
  next
    case False
    note F1 = False
    show thesis
    proof (cases "0 < n \<and> n \<le> 15")
      case True
      let ?i = "take (nat n) buf" and ?f = "drop (nat n) buf"
      have lt: "nat n < length buf" using True F1 by (simp add: k_def nat_less_iff)
      have e: "e = - int (length ?f)" using lt True by (simp add: n_def)
      show thesis
      proof (rule that [of ?i ?f None])
        show "format_buffer buf e (- 4) 15 = Some (decimal_text ?i ?f None)"
          using True F1 lt by (simp add: format_buffer_def Let_def decimal_text_def k_def n_def)
        show "decimal_parts ?i ?f None" using buf part lt True
          by (auto simp: decimal_parts_def hd_take)
        show "length (decimal_text ?i ?f None) \<le> 23" using assms(2) lt by (simp add: decimal_text_def)
      qed (simp add: e exponent_value_def)
    next
      case False
      note F2 = False
      show thesis
      proof (cases "- 4 < n \<and> n \<le> 0")
        case True
        let ?f = "replicate (nat (- n)) CHR ''0'' @ buf"
        have e: "e = - int (length ?f)" using True by (simp add: n_def)
        show thesis
        proof (rule that [of "''0''" ?f None])
          show "format_buffer buf e (- 4) 15 = Some (decimal_text ''0'' ?f None)"
            using True F1 F2 buf(1) by (auto simp: format_buffer_def Let_def decimal_text_def k_def n_def)
          show "decimal_parts ''0'' ?f None" using buf zeros by (auto simp: decimal_parts_def is_digit_def)
          have "nat (- n) \<le> 3" using True by linarith
          then show "length (decimal_text ''0'' ?f None) \<le> 23" using assms(2) by (simp add: decimal_text_def)
          show "of_nat (digits_value (''0'' @ ?f)) * 10 powi (exponent_value None - int (length ?f)) =
              of_nat (digits_value buf) * (10 :: rat) powi e"
            using digits_value_leading [of "Suc (nat (- n))" buf] by (simp add: e exponent_value_def)
        qed
      next
        case False
        let ?x = "Some (n - 1 < 0, exponent_digits (nat \<bar>n - 1\<bar>))" and ?i = "take 1 buf" and ?f = "drop 1 buf"
        have lt: "nat \<bar>n - 1\<bar> < 1000" using assms(3,4) by (simp add: n_def)
        note x = exponent_digits_spec [OF lt]
        have xv: "exponent_value ?x = n - 1" by (simp only: exponent_value_def option.case prod.case x(1)) simp
        have e: "e = n - 1 - int (length ?f)" using buf(1) by (cases buf) (simp_all add: n_def)
        have one: "?f = [] \<longleftrightarrow> k = 1" using buf(1) by (cases buf) (simp_all add: k_def)
        show thesis
        proof (rule that [of ?i ?f ?x])
          have "append_exponent (n - 1) = Some ((if n - 1 < 0 then CHR ''-'' else CHR ''+'') # exponent_digits (nat \<bar>n - 1\<bar>))"
            using assms(3,4) by (intro append_exponent_eq) (simp_all add: n_def)
          moreover have "format_buffer buf e (- 4) 15 = Option.bind (append_exponent (n - 1)) (\<lambda>x.
              Some ((if k = 1 then buf else take 1 buf @ ''.'' @ drop 1 buf) @ ''e'' @ x))"
            using F1 F2 False by (auto simp: format_buffer_def Let_def k_def n_def)
          ultimately show "format_buffer buf e (- 4) 15 = Some (decimal_text ?i ?f ?x)"
            using one by (cases "k = 1"; cases buf) (simp_all add: decimal_text_def)
          show "decimal_parts ?i ?f ?x" using buf part x one
            by (cases buf) (auto simp: decimal_parts_def)
          show "length (decimal_text ?i ?f ?x) \<le> 23" using assms(2) x(4) by (cases buf) (simp_all add: decimal_text_def)
          show "of_nat (digits_value (?i @ ?f)) * 10 powi (exponent_value ?x - int (length ?f)) =
              of_nat (digits_value buf) * (10 :: rat) powi e"
            unfolding xv e append_take_drop_id ..
        qed
      qed
    qed
  qed
qed

end
