(* ===== verification/Dtoa_Correct.thy ===== *)
theory Dtoa_Correct
  imports Dtoa_Text
begin

text \<open>
  \<open>to_chars\<close> as a whole: it returns a text for every finite double, and the text reads back as
  the double.
\<close>

unbundle bit_operations_syntax

text \<open>The decimal point stays within the range of the exponent.\<close>

lemma decimal_point_bounds:
  assumes "positive_double v" "digit_string buf"
    "lower_midpoint v < of_nat (digits_value buf) * 10 powi e" "of_nat (digits_value buf) * 10 powi e < upper_midpoint v"
  shows "- 999 < int (length buf) + e" "int (length buf) + e < 1000"
proof -
  note F = f64_sig_bounds [OF assms(1)]
  define D where "D = (of_nat (digits_value buf) :: rat)"
  define L where "L = length buf"
  have L: "0 < L" using assms(2) by (simp add: digit_string_def L_def)
  have "(10 :: nat) ^ (L - 1) \<le> digits_value buf" unfolding L_def by (rule digits_value_ge [OF assms(2)])
  then have "(of_nat (10 ^ (L - 1)) :: rat) \<le> D" unfolding D_def by (simp only: of_nat_le_iff)
  then have lo: "10 powi (int L - 1) \<le> D" using L by (simp add: power_int_def nat_diff_distrib)
  have "digits_value buf < 10 ^ L" unfolding L_def using assms(2) by (intro digits_value_less) (simp add: digit_string_def)
  then have "D < of_nat (10 ^ L)" unfolding D_def by (simp only: of_nat_less_iff)
  then have hi: "D < 10 powi int L" by simp
  have up: "upper_midpoint v \<le> 10 powi 400"
  proof -
    have "(2 * of_nat (f64_sig v) + 1 :: rat) \<le> 2 ^ 54" using f64_sig_rat(2) [OF assms(1)] by simp
    then have "upper_midpoint v \<le> 2 ^ 54 * pow2 970"
      unfolding upper_midpoint_def using F(4) by (intro mult_mono pow2_mono) simp_all
    also have "\<dots> \<le> 10 powi 400" by (simp add: pow2_def)
    finally show ?thesis .
  qed
  have low: "10 powi - 400 \<le> lower_midpoint v"
  proof -
    have "1 \<le> (of_nat (f64_sig v) :: rat)" using F(1) by simp
    then have "1 \<le> (4 * of_nat (f64_sig v) - (if lower_closer v then 1 else 2) :: rat)" by simp
    then have "1 * pow2 (- 1076) \<le> lower_midpoint v"
      unfolding lower_midpoint_def using F(3) by (intro mult_mono pow2_mono) simp_all
    moreover have "10 powi - 400 \<le> pow2 (- 1076)"
      by (simp add: pow2_def power_int_minus inverse_eq_divide field_simps)
    ultimately show ?thesis by simp
  qed
  have ten: "a < b" if "(10 :: rat) powi a < 10 powi b" for a b
    using that by (meson not_le one_le_numeral power_int_increasing)
  have "10 powi (int L - 1 + e) \<le> D * 10 powi e" using lo by (simp add: power_int_add mult_right_mono)
  then have "10 powi (int L - 1 + e) < (10 :: rat) powi 400" using assms(4) up unfolding D_def by linarith
  from ten [OF this] show "int (length buf) + e < 1000" unfolding L_def by simp
  have "D * 10 powi e < 10 powi (int L + e)" using hi by (simp add: power_int_add)
  then have "10 powi - 400 < (10 :: rat) powi (int L + e)" using assms(3) low unfolding D_def by linarith
  from ten [OF this] show "- 999 < int (length buf) + e" unfolding L_def by simp
qed

lemma to_chars_positive_spec:
  assumes "positive_double v"
  obtains i f x where "to_chars_positive v = Some (decimal_text i f x)" "decimal_parts i f x"
    "f64_bits (numeral_value (decimal_text i f x)) = uint v" "length (decimal_text i f x) \<le> 23"
proof -
  obtain buf e where g: "grisu2 v = Some (buf, e)" "digit_string buf" "length buf \<le> 17"
    "lower_midpoint v < of_nat (digits_value buf) * 10 powi e" "of_nat (digits_value buf) * 10 powi e < upper_midpoint v"
    by (rule grisu2_between [OF assms])
  obtain i f x where t: "format_buffer buf e (- 4) 15 = Some (decimal_text i f x)" "decimal_parts i f x"
    "of_nat (digits_value (i @ f)) * 10 powi (exponent_value x - int (length f)) = of_nat (digits_value buf) * (10 :: rat) powi e"
    "length (decimal_text i f x) \<le> 23"
    by (rule format_buffer_spec [OF g(2,3) decimal_point_bounds [OF assms g(2,4,5)]])
  have "v \<noteq> 0" using assms by (simp add: positive_double_def)
  then have "to_chars_positive v = Some (decimal_text i f x)" using g(1,3) t(1) by (simp add: to_chars_positive_def)
  moreover have "f64_bits (numeral_value (decimal_text i f x)) = uint v"
    unfolding numeral_value_decimal [OF t(2)] t(3) by (rule f64_bits_between [OF assms g(4,5)])
  ultimately show thesis using that t(2,4) by blast
qed

lemma to_chars_magnitude:
  assumes "positive_double v \<or> v = 0"
  obtains i f x where "to_chars_positive v = Some (decimal_text i f x)" "decimal_parts i f x"
    "f64_bits (numeral_value (decimal_text i f x)) = uint v" "length (decimal_text i f x) \<le> 23"
proof (cases "v = 0")
  case True
  have p: "decimal_parts ''0'' ''0'' None" by (simp add: decimal_parts_def is_digit_def)
  have "numeral_value (decimal_text ''0'' ''0'' None) = 0"
    unfolding numeral_value_decimal [OF p] by (simp add: digits_value_def)
  then have "f64_bits (numeral_value (decimal_text ''0'' ''0'' None)) = uint v"
    using True by (simp add: f64_bits_def f64_round_def)
  moreover have "to_chars_positive v = Some (decimal_text ''0'' ''0'' None)"
    using True by (simp add: to_chars_positive_def decimal_text_def)
  moreover have "length (decimal_text ''0'' ''0'' None) \<le> 23" by (simp add: decimal_text_def)
  ultimately show thesis using p that by blast
next
  case False
  then show thesis using assms to_chars_positive_spec that by blast
qed

text \<open>Clearing the sign bit of a negative double.\<close>

lemma clear_sign:
  assumes "f64_isfinite w" "f64_negative w"
  defines "v \<equiv> w AND (push_bit 63 1 - 1)"
  shows "positive_double v \<or> v = 0" "uint w = 2 ^ 63 + uint v"
proof -
  have v: "unat v = unat w mod 2 ^ 63" unfolding v_def by (rule unat_and_low)
  have "int (2 ^ 63) \<le> int (unat w)"
    using assms(2) by (simp only: f64_negative_def uint_nat of_nat_power of_nat_numeral)
  then have ge: "2 ^ 63 \<le> unat w" by (simp only: of_nat_le_iff)
  have "unat w div 2 ^ 63 = 1" using ge unat_less_64 [of w] by (intro div_nat_eqI) simp_all
  then have w: "unat w = 2 ^ 63 + unat v" using div_mult_mod_eq [of "unat w" "2 ^ 63"] v by simp
  then have "int (unat w) = int (2 ^ 63 + unat v)" by (rule arg_cong)
  then show "uint w = 2 ^ 63 + uint v" by (simp only: uint_nat of_nat_add of_nat_power of_nat_numeral)
  have lt: "unat v < 2 ^ 63" by (simp add: v)
  have "2 ^ 63 + unat v = unat v + 2 ^ 11 * 2 ^ 52" by simp
  then have "unat w div 2 ^ 52 = 2 ^ 11 + unat v div 2 ^ 52"
    unfolding w by (simp only: div_mult_self1 [of "2 ^ 52 :: nat"]) simp
  then have "f64_exponent v = f64_exponent w" by (simp only: f64_fields mod_add_self1)
  then have "f64_isfinite v" using assms(1) by (simp add: f64_isfinite_def)
  moreover have "\<not> f64_negative v"
  proof -
    have "int (unat v) < int (2 ^ 63)" using lt by (simp only: of_nat_less_iff)
    then show ?thesis by (simp only: f64_negative_def uint_nat of_nat_power of_nat_numeral not_le)
  qed
  ultimately show "positive_double v \<or> v = 0" by (simp add: positive_double_def)
qed

text \<open>The characters of a numeral.\<close>

definition numeral_char :: "char \<Rightarrow> bool" where
  "numeral_char c \<longleftrightarrow> is_digit c \<or> c = CHR ''-'' \<or> c = CHR ''+'' \<or> c = CHR ''.'' \<or> c = CHR ''e''"

lemma decimal_text_chars: "decimal_parts i f x \<Longrightarrow> c \<in> set (decimal_text i f x) \<Longrightarrow> numeral_char c"
  by (auto simp: decimal_parts_def decimal_text_def numeral_char_def split: if_splits option.splits)

theorem to_chars_spec:
  assumes "f64_isfinite w"
  obtains s where "to_chars w = Some s" "length s \<le> 24" "\<forall>c \<in> set s. numeral_char c"
    "\<And>t. ends t \<Longrightarrow> scan_token (s @ t) = (T_float w, t)"
proof (cases "f64_negative w")
  case True
  note c = clear_sign [OF assms True]
  obtain i f x where t: "to_chars_positive (w AND (push_bit 63 1 - 1)) = Some (decimal_text i f x)" "decimal_parts i f x"
    "f64_bits (numeral_value (decimal_text i f x)) = uint (w AND (push_bit 63 1 - 1))" "length (decimal_text i f x) \<le> 23"
    by (rule to_chars_magnitude [OF c(1)])
  have "strtod (CHR ''-'' # decimal_text i f x) = word_of_int (uint w)"
    by (simp only: strtod_def list.sel list.distinct simp_thms if_True t(3) c(2))
  then have "strtod (CHR ''-'' # decimal_text i f x) = w" by simp
  then show thesis using that [of "CHR ''-'' # decimal_text i f x"] scan_decimal(2) [OF _ t(2)] decimal_text_chars [OF t(2)] assms True t(1,4)
    by (simp add: to_chars_def numeral_char_def)
next
  case False
  then have p: "positive_double w \<or> w = 0" using assms by (simp add: positive_double_def)
  obtain i f x where t: "to_chars_positive w = Some (decimal_text i f x)" "decimal_parts i f x"
    "f64_bits (numeral_value (decimal_text i f x)) = uint w" "length (decimal_text i f x) \<le> 23"
    by (rule to_chars_magnitude [OF p])
  have "is_digit (hd (decimal_text i f x))" using t(2) by (cases i) (auto simp: decimal_parts_def decimal_text_def)
  then have "hd (decimal_text i f x) \<noteq> CHR ''-''" by auto
  then have "strtod (decimal_text i f x) = w" by (simp add: strtod_def t(3))
  then show thesis using that [of "decimal_text i f x"] scan_decimal(1) [OF _ t(2)] decimal_text_chars [OF t(2)] assms False t(1,4)
    by (simp add: to_chars_def)
qed

end
