(* ===== verification/Dtoa_Properties.thy ===== *)
theory Dtoa_Properties
  imports Dtoa_Correct Parser_Properties
begin

text \<open>
  The properties of the float printer, and of the serializer and the parser with it.
\<close>

subsection \<open>Arithmetic\<close>

text \<open>
  C40. The product of two extended floating-point numbers, computed from four products of
  32-bit halves, is the exact product of the significands divided by \<open>2 ^ 64\<close> and rounded to
  nearest, halves up; no partial sum leaves its 64 bits.
\<close>

theorem product_rounds_to_nearest:
  "unat (sig (diyfp_mul x y)) = (unat (sig x) * unat (sig y) + 2 ^ 63) div 2 ^ 64 \<and>
   bex (diyfp_mul x y) = bex x + bex y + 64"
  by (simp only: diyfp_mul_sig simp_thms)

text \<open>
  For every binary exponent that a normalized boundary of a double can have, the index
  computed with the truncated logarithm selects an entry of the table, the entry is the power
  of ten rounded to 64 bits, and it scales the exponent into the range of the digit loop.
\<close>

theorem cached_power_selected:
  assumes "- 1137 \<le> e" "e \<le> 960"
  shows "\<exists>f c k. get_cached_power e = Some (f, c, k) \<and> 2 ^ 63 \<le> unat f \<and>
    2 * \<bar>of_int (uint f) * pow2 c - 10 powi k\<bar> \<le> pow2 c \<and> - 60 \<le> c + e + 64 \<and> c + e + 64 \<le> - 32"
proof -
  obtain f c k where "get_cached_power e = Some (f, c, k)" "2 ^ 63 \<le> unat f" "accurate (f, c, k)"
    "- 60 \<le> c + e + 64" "c + e + 64 \<le> - 32"
    by (rule get_cached_power_eq [OF assms])
  then show ?thesis unfolding accurate.simps by blast
qed

subsection \<open>Digits\<close>

text \<open>
  C39. For every positive finite double Grisu2 returns: no assertion fails, no loop runs on.
  Its digits have no leading zero and are at most 17, and the number they stand for lies
  strictly between the midpoints to the two neighbouring doubles.
\<close>

theorem grisu2_digits:
  assumes "f64_isfinite v" "\<not> f64_negative v" "v \<noteq> 0"
  shows "\<exists>buf e. grisu2 v = Some (buf, e) \<and> digit_string buf \<and> length buf \<le> 17 \<and>
    lower_midpoint v < of_nat (digits_value buf) * 10 powi e \<and> of_nat (digits_value buf) * 10 powi e < upper_midpoint v"
proof -
  have "positive_double v" using assms by (simp add: positive_double_def)
  then show ?thesis using grisu2_between by metis
qed

theorem grisu2_digits_witness:
  "\<exists>buf e. grisu2 0x3FB999999999999A = Some (buf, e) \<and> digit_string buf \<and> length buf \<le> 17 \<and>
    lower_midpoint 0x3FB999999999999A < of_nat (digits_value buf) * 10 powi e \<and>
    of_nat (digits_value buf) * 10 powi e < upper_midpoint 0x3FB999999999999A"
  by (rule grisu2_digits) (simp_all add: f64_isfinite_def f64_exponent_def f64_negative_def)

subsection \<open>Round trips\<close>

lemma float_text_exact: "f64_isfinite w \<Longrightarrow> exact_float float_text w"
  using to_chars_spec [of w] by (metis exact_float_def float_text_def option.simps(5))

lemma float_text_plain: "plain_printer float_text"
  unfolding plain_printer_def
proof (intro allI)
  fix w
  have "numeral_char c \<Longrightarrow> 32 \<le> byte c \<and> byte c < 128" for c
    by (auto simp: numeral_char_def is_digit_def)
  moreover have "\<forall>c \<in> set (float_text w). numeral_char c"
  proof (cases "f64_isfinite w")
    case True
    then show ?thesis using to_chars_spec [of w] by (metis float_text_def option.simps(5))
  qed (simp add: float_text_def to_chars_def)
  ultimately show "printable (float_text w) \<and> ascii (float_text w)"
    by (auto simp: printable_def ascii_def list_all_iff)
qed

text \<open>
  C38. For every finite double, zeros and denormals of both signs included, \<open>to_chars\<close> returns
  a text of at most 24 characters, which fits in the serializer's buffer of 64, and the text
  reads back as the same double, bit for bit: in front of any delimiter the lexer scans it as
  a float token, and the correctly rounding conversion gives the 64 bits that were printed.
\<close>

theorem float_text_roundtrip:
  assumes "f64_isfinite w" "ends t"
  shows "\<exists>s. to_chars w = Some s \<and> length s \<le> 24 \<and> scan_token (s @ t) = (T_float w, t)"
  using to_chars_spec [OF assms(1)] assms(2) by metis

theorem float_text_roundtrip_witness:
  "\<exists>s. to_chars 0x8000000000000001 = Some s \<and> length s \<le> 24 \<and> scan_token (s @ '','') = (T_float 0x8000000000000001, '','')"
  by (rule float_text_roundtrip) (simp_all add: f64_isfinite_def f64_exponent_def ends_def)

lemma textual_floats: "textual v \<Longrightarrow> w \<in> set (floats v) \<Longrightarrow> f64_isfinite w"
  by (induction v) (auto)

text \<open>
  The contract of a float printer that the library relies on: exact on finite doubles, and
  plain ASCII.
\<close>

locale exact_printer =
  fixes fc :: float_printer
  assumes exact: "f64_isfinite w \<Longrightarrow> exact_float fc w"
    and plain: "plain_printer fc"
begin

lemma roundtrip: "textual v \<Longrightarrow> rbind (json_dump fc v) json_parse = Inr (canon v)"
  using textual_strings [of v] exact textual_floats [of v] by (simp add: json_dump_render json_parse_render)

lemma dump_one_line: "json_dump fc v = Inr s \<Longrightarrow> one_line s"
  using render_one_line [OF plain, of v] by (auto simp: json_dump_render split: if_splits)

end

interpretation grisu: exact_printer float_text
  by unfold_locales (auto intro: float_text_exact float_text_plain)

text \<open>
  C23. The parser inverts the serializer: the text that \<open>dump\<close> writes for a textual value,
  with the digits of Grisu2 for its doubles, parses to the same value, except that a
  non-negative integer comes back unsigned.
\<close>

theorem parser_inverts_serializer:
  assumes "textual v"
  shows "rbind (json_dump float_text v) json_parse = Inr (canon v)"
  using assms by (rule grisu.roundtrip)

theorem parser_inverts_serializer_witness:
  "rbind (json_dump float_text sample_value) json_parse = Inr (canon sample_value)"
  by (rule parser_inverts_serializer [OF sample_textual])

end
