(* ===== verification/Spec2Isabelle.thy ===== *)
theory Spec2Isabelle
  imports Wire_Properties Server_Properties Parser_Properties Stdio_Properties Client_Properties
    Sse_Properties Process_Properties Native_Properties Dtoa_Properties
begin

text \<open>
  Synapse (include/synapse, include/nlohmann): a C++ library for servers of the Model Context
  Protocol, which is JSON-RPC 2.0 over line-framed byte streams.

  \<^bold>\<open>The program.\<close> A server owns registries of tools, resources and prompts. Its transport
  delivers parsed JSON values to \<open>server::receive\<close> on a reader thread; \<open>decode_message\<close>
  classifies them; control requests (initialize, ping) are answered on the reader, all others
  become operations that are queued in \<open>detail::owned_executor\<close> and run by its one worker
  thread, which calls \<open>server::application\<close> with the policy of \<open>detail::server_policy\<close> and the
  schema check of \<open>detail::compiled_schema\<close>. Every reply goes through \<open>server::emit\<close>, which
  measures its encoded size before it is handed to the transport. Values, their
  serialization and their conversions are those of nlohmann::json 3.11.3, which is part of the
  repository.

  \<^bold>\<open>The theories.\<close>
  \<^item> \<open>Prelude\<close>, \<open>Ordered_Map\<close>: bytes, sums as fallible results, the locale \<open>invariant_system\<close>
    of step relations with an invariant, and \<open>std::map\<close> as a sorted association list behind
    the locale \<open>keyed_store\<close>.
  \<^item> \<open>Json\<close>, \<open>Utf8\<close>, \<open>Serializer\<close>: \<open>value_t\<close> and the accessors of json.hpp; the UTF-8 automaton;
    \<open>serializer::dump\<close> as the sequence of writes on the output adapter.
    \<open>Integer_Text\<close>, \<open>Escaping\<close>, \<open>Rendering\<close>: the proofs that these write the reference
    rendering.
  \<^item> \<open>Protocol\<close>, \<open>Message_Decoder\<close>: protocol.hpp, errors.hpp and detail/message_decoder.hpp; the
    codecs interpret the locale \<open>wire_codec\<close>.
  \<^item> \<open>Effects\<close>, \<open>Float64\<close>, \<open>Policy\<close>, \<open>Schema\<close>: handlers.hpp and server_options.hpp (application
    callbacks are functions of an application state that may throw), double arithmetic by
    rounded rationals, detail/server_policy.hpp, and the validation half of
    detail/schema_validator.hpp.
  \<^item> \<open>Uri\<close>, \<open>Registry\<close>, \<open>Executor\<close>, \<open>Dispatch\<close>, \<open>Dispatch_Correct\<close>: \<open>valid_resource_uri\<close>, the
    registration calls, detail/owned_executor.hpp, and \<open>server::application\<close>.
  \<^item> \<open>Server\<close>, \<open>Server_Run\<close>, \<open>Server_Inv\<close>, \<open>Server_Safety\<close>, \<open>Server_Sends\<close>: the class server. A
    region executed under \<open>mutex_\<close> is one operation on the server record; what a thread does
    between two regions is in its program counter (\<open>reader_pc\<close>, \<open>worker_pc\<close>, \<open>main_pc\<close>);
    \<open>server_step\<close> interleaves the starting caller, the reader and the worker, and labels a
    step with the frame it hands to the transport.
  \<^item> \<open>Json_Lexer\<close>, \<open>Json_Parser\<close>: the classes lexer, json_sax_dom_parser and parser of json.hpp;
    the parse loop is one step function iterated on an explicit loop state. \<open>Parser_Safety\<close>,
    \<open>Parser_Roundtrip\<close>, \<open>Nesting\<close>: its invariant, the inverse of the serializer, and the
    nesting check of transport.hpp against the parser. \<open>Parser_Properties\<close>: their properties.
  \<^item> \<open>Dtoa\<close>: \<open>to_chars\<close> and the namespace \<open>dtoa_impl\<close> of json.hpp, the Grisu2 algorithm that
    prints a double, on 64-bit words; \<open>Dtoa_Arith\<close>, \<open>Dtoa_Powers\<close>, \<open>Dtoa_Digits\<close>,
    \<open>Dtoa_Exact\<close>, \<open>Dtoa_Round\<close>, \<open>Dtoa_Text\<close>, \<open>Dtoa_Correct\<close>: its correctness, from the
    words to exact rationals, through the table of powers, the digit loops, rounding and the
    layout of the text; \<open>Dtoa_Properties\<close>: the properties, and the locale \<open>exact_printer\<close>,
    the contract of a float printer, interpreted on the algorithm.
  \<^item> \<open>Stdio_Transport\<close>: transport.hpp, the reader and writer threads and the callers of a
    \<open>stdio_transport\<close> interleaved by \<open>tstep\<close>. \<open>Stdio_Inv\<close>, \<open>Stdio_Close\<close>, \<open>Stdio_Lines\<close>: its
    invariants (the outbound queue; the close protocol and the reader's lines; the history of
    the input), interpretations of \<open>invariant_system\<close>; \<open>Stdio_Properties\<close>: the properties.
  \<^item> \<open>Native_Stdio\<close>, \<open>Native_Properties\<close>: detail/stdio_posix.hpp against a kernel of descriptors,
    status flags and SIGPIPE, whose replies are arguments.
  \<^item> \<open>Client\<close>, \<open>Client_Inv\<close>, \<open>Client_Properties\<close>: client.hpp, its callers, message threads and
    request threads interleaved by \<open>cstep\<close>; \<open>Sse_Transport\<close>, \<open>Process_Transport\<close> and their
    properties: sse_transport.hpp and the POSIX branch of process_transport.hpp.
  \<^item> \<open>Wire_Properties\<close>, \<open>App_Properties\<close>, \<open>Server_Properties\<close>: the properties, each with its
    witness; \<open>Demo_Run\<close> is a complete concrete run, from registration to the first answer,
    on which the theorems about runs are instantiated.

  \<^bold>\<open>What is shown.\<close> The serializer equals a reference rendering and writes one line of UTF-8;
  the codecs and the decoder invert the encoders, and the decoder accepts exactly the grammar
  of the three message kinds. Replies are built from public text only, handlers run only
  after every guard, filtered text is all that leaves a tool. The executor is a FIFO queue
  that loses and duplicates nothing. In every interleaving of the server, a request is
  answered at most once, with its own id, while serving and never after cancellation; nothing
  is sent after stop; the in-flight list is exact; dispatch needs the handshake. The parser
  terminates within a linear number of iterations, throws only documented exceptions and
  inverts the serializer, doubles included: for every finite double Grisu2 returns, without a
  failed assertion, at most 17 digits of a number between the midpoints to the neighbouring
  doubles, and the text reads back as the same 64 bits. In every interleaving of the stdio transport, the bytes written are
  a prefix of the accepted frames, the queue stays within its byte limit, the callback gets
  exactly the lines that parse within the depth limit, and the close callback runs once. The
  client answers a future only with the reply to its request and at most once, but never when
  its messages come out of the parser; the process transport delivers the lines that parse,
  and releases nothing once its reader has ended. The POSIX endpoints give back every
  descriptor, flag and signal state, and lose no stop request.

  \<^bold>\<open>Parameters.\<close> The float printer is an argument of the definitions that serialize (\<open>fc\<close>), so
  that their theorems do not depend on its digits; \<open>float_text\<close> is the one of the code. Code
  outside the repository, or supplied by the application, is a parameter: the JSON Schema engine and
  compiler (jsoncons, not in the repository), the transport behind a server (\<open>link\<close>), the
  handlers, hooks and clock of the application.

  \<^bold>\<open>Not modelled.\<close> The guard against waiting inside a callback, the deadlines of \<open>wait_for\<close>,
  allocation failures outside \<open>start\<close>, the Windows backend of the stdio transport (the transport
  sees the results of its endpoints as events), the child side and the Windows branch of the
  process transport.
\<close>

end
